(* ===== verification/Prelude.thy ===== *)
theory Prelude
  imports Main "HOL-Library.Word" "HOL-Library.AList"
begin

unbundle bit_operations_syntax

text \<open>
  Shared vocabulary of the development: the machine types of the Rust sources, results and
  faults as values, big-endian byte strings, the saturating arithmetic of the standard library,
  slices cut into chunks, and the association lists that stand for hash maps.

  Conventions used by every component theory:
  \<^item> \<open>u8\<close>, \<open>u16\<close>, \<open>u32\<close> and \<open>u64\<close> are words of that width; \<open>usize\<close> values, which are lengths of
    byte slices in memory and positions inside them, are natural numbers;
  \<^item> \<open>Result<T, E>\<close> is \<open>'e + 't\<close> with \<open>Inl\<close> for \<open>Err\<close>; the operator \<open>?\<close> is \<open>and_then\<close>;
  \<^item> a value that is borrowed mutably is passed in and returned;
  \<^item> where an expression of the source can panic (an index or slice out of range) and the panic is
    part of the claim, the error type is wrapped in \<open>fault\<close>.
\<close>

section \<open>Machine types\<close>

type_synonym u8 = "8 word"
type_synonym u16 = "16 word"
type_synonym u32 = "32 word"
type_synonym u64 = "64 word"
type_synonym usize = nat
type_synonym bytes = "u8 list"

named_theorems std_simps \<open>simplification rules for the standard library model\<close>
named_theorems codec_laws \<open>decoding inverts encoding\<close>
named_theorems inv_intros \<open>preservation of component invariants\<close>

section \<open>Results, the question-mark operator, and panics\<close>

definition and_then :: "'e + 'a \<Rightarrow> ('a \<Rightarrow> 'e + 'b) \<Rightarrow> 'e + 'b" where
  "and_then r f = (case r of Inl e \<Rightarrow> Inl e | Inr x \<Rightarrow> f x)"

definition map_err :: "('e \<Rightarrow> 'f) \<Rightarrow> 'e + 'a \<Rightarrow> 'f + 'a" where
  "map_err g r = (case r of Inl e \<Rightarrow> Inl (g e) | Inr x \<Rightarrow> Inr x)"

definition ok_or :: "'e \<Rightarrow> 'a option \<Rightarrow> 'e + 'a" where
  "ok_or e r = (case r of None \<Rightarrow> Inl e | Some x \<Rightarrow> Inr x)"

definition ok :: "'e + 'a \<Rightarrow> 'a option" where
  "ok r = (case r of Inl _ \<Rightarrow> None | Inr x \<Rightarrow> Some x)"

definition is_ok :: "'e + 'a \<Rightarrow> bool" where
  "is_ok r = (case r of Inl _ \<Rightarrow> False | Inr _ \<Rightarrow> True)"

lemma and_then_simps [simp, std_simps]:
  "and_then (Inl e) f = Inl e"
  "and_then (Inr x) f = f x"
  by (simp_all add: and_then_def)

lemma map_err_simps [simp, std_simps]:
  "map_err g (Inl e) = Inl (g e)"
  "map_err g (Inr x) = Inr x"
  by (simp_all add: map_err_def)

lemma ok_or_simps [simp, std_simps]:
  "ok_or e None = Inl e"
  "ok_or e (Some x) = Inr x"
  by (simp_all add: ok_or_def)

lemma ok_simps [simp, std_simps]:
  "ok (Inl e) = None"
  "ok (Inr x) = Some x"
  by (simp_all add: ok_def)

lemma is_ok_simps [simp, std_simps]:
  "\<not> is_ok (Inl e)"
  "is_ok (Inr x)"
  by (simp_all add: is_ok_def)

lemma and_then_eq_Inr:
  "and_then r f = Inr y \<longleftrightarrow> (\<exists>x. r = Inr x \<and> f x = Inr y)"
  by (cases r) auto

lemma and_then_eq_Inl:
  "and_then r f = Inl e \<longleftrightarrow> r = Inl e \<or> (\<exists>x. r = Inr x \<and> f x = Inl e)"
  by (cases r) auto

lemma map_err_eq_Inr: "map_err g r = Inr y \<longleftrightarrow> r = Inr y"
  by (cases r) auto

lemma ok_or_eq_Inr: "ok_or e r = Inr x \<longleftrightarrow> r = Some x"
  by (cases r) auto

lemma ok_eq_Some: "ok r = Some x \<longleftrightarrow> r = Inr x"
  by (cases r) auto

lemmas result_iffs = and_then_eq_Inr and_then_eq_Inl map_err_eq_Inr ok_or_eq_Inr ok_eq_Some

text \<open>A panic aborts the task; it is kept apart from the errors the code returns.\<close>

datatype 'e fault = Err 'e | Panic

definition index_at :: "'a list \<Rightarrow> usize \<Rightarrow> 'e fault + 'a" where
  "index_at xs i = (if i < length xs then Inr (xs ! i) else Inl Panic)"

definition slice_range :: "'a list \<Rightarrow> usize \<Rightarrow> usize \<Rightarrow> 'e fault + 'a list" where
  "slice_range xs i j =
     (if i \<le> j \<and> j \<le> length xs then Inr (take (j - i) (drop i xs)) else Inl Panic)"

lemma index_at_ok [simp]: "i < length xs \<Longrightarrow> index_at xs i = Inr (xs ! i)"
  by (simp add: index_at_def)

lemma slice_range_ok [simp]:
  "i \<le> j \<Longrightarrow> j \<le> length xs \<Longrightarrow> slice_range xs i j = Inr (take (j - i) (drop i xs))"
  by (simp add: slice_range_def)

section \<open>Big-endian byte strings\<close>

lemma unat_less_word: "unat (w :: 'a::len word) < 2 ^ LENGTH('a)"
  by (rule unsigned_less)

lemma unat_ucast_up:
  assumes "LENGTH('a::len) \<le> LENGTH('b::len)"
  shows "unat (ucast (w :: 'a word) :: 'b word) = unat w"
proof -
  have "unat w < 2 ^ LENGTH('a)" by (rule unat_less_word)
  also have "\<dots> \<le> 2 ^ LENGTH('b)" using assms by (intro power_increasing) simp_all
  finally show ?thesis by (simp add: unsigned_ucast_eq take_bit_nat_eq_self)
qed

lemma unat_le_max: "unat (w :: 'a::len word) \<le> 2 ^ LENGTH('a) - 1"
  using unat_less_word [of w] by linarith

primrec be_bytes :: "nat \<Rightarrow> 'a::len word \<Rightarrow> bytes" where
  "be_bytes 0 w = []"
| "be_bytes (Suc n) w = ucast (drop_bit (8 * n) w) # be_bytes n w"

definition be_step :: "'a::len word \<Rightarrow> u8 \<Rightarrow> 'a word" where
  "be_step acc b = (push_bit 8 acc) OR (ucast b)"

definition from_be_bytes :: "bytes \<Rightarrow> 'a::len word" where
  "from_be_bytes bs = foldl be_step 0 bs"

lemma length_be_bytes [simp]: "length (be_bytes n w) = n"
  by (induction n) simp_all

lemma be_bytes_eq_Nil [simp]: "be_bytes n w = [] \<longleftrightarrow> n = 0"
  by (cases n) simp_all

lemma be_bytes_2: "be_bytes 2 w = [ucast (drop_bit 8 w), ucast w]"
  by (simp add: numeral_2_eq_2)

lemma be_bytes_4: "be_bytes 4 w = [ucast (drop_bit 24 w), ucast (drop_bit 16 w), ucast (drop_bit 8 w), ucast w]"
  by (simp add: eval_nat_numeral)

lemma foldl_be_step:
  fixes w acc :: "'a::len word"
  shows "foldl be_step acc (be_bytes n w) = (push_bit (8 * n) acc) OR (take_bit (8 * n) w)"
proof (induction n arbitrary: acc)
  case 0
  show ?case by simp
next
  case (Suc n)
  have "push_bit (8 * n) (be_step acc (ucast (drop_bit (8 * n) w))) OR take_bit (8 * n) w =
      push_bit (8 * Suc n) acc OR take_bit (8 * Suc n) w"
  proof (rule bit_word_eqI)
    fix i
    assume "i < LENGTH('a)"
    then show "bit (push_bit (8 * n) (be_step acc (ucast (drop_bit (8 * n) w))) OR take_bit (8 * n) w) i =
        bit (push_bit (8 * Suc n) acc OR take_bit (8 * Suc n) w) i"
      by (auto simp: be_step_def bit_simps ac_simps)
  qed
  then show ?case by (simp add: Suc.IH)
qed

lemma from_be_bytes_be_bytes:
  fixes w :: "'a::len word"
  shows "from_be_bytes (be_bytes n w) = take_bit (8 * n) w"
  by (simp add: from_be_bytes_def foldl_be_step)

lemma from_be_bytes_id [simp, codec_laws]:
  "from_be_bytes (be_bytes 2 (a :: u16)) = a"
  "from_be_bytes (be_bytes 4 (b :: u32)) = b"
  "from_be_bytes (be_bytes 8 (c :: u64)) = c"
  by (simp_all add: from_be_bytes_be_bytes take_bit_word_eq_self)

lemma be_bytes_from_be_bytes: "be_bytes 2 (from_be_bytes [h, l] :: u16) = [h, l]"
proof -
  have "ucast (drop_bit 8 (push_bit 8 (ucast h :: u16) OR ucast l)) = h"
    by (rule bit_word_eqI) (auto simp: bit_simps dest: bit_imp_le_length)
  moreover have "ucast (push_bit 8 (ucast h :: u16) OR ucast l) = l"
    by (rule bit_word_eqI) (auto simp: bit_simps)
  ultimately show ?thesis by (simp add: be_bytes_2 from_be_bytes_def be_step_def)
qed

text \<open>Read as numbers, the step is multiplication by 256 and addition, as long as it fits.\<close>

lemma unat_be_step:
  fixes acc :: "'a::len word"
  assumes "unat acc * 256 + unat b < 2 ^ LENGTH('a)"
  shows "unat (be_step acc b) = unat acc * 256 + unat b"
proof -
  have b: "unat b < 256" using unat_less_word [of b] by simp
  have small: "unat (ucast b :: 'a word) = unat b"
    using assms by (simp add: unsigned_ucast_eq take_bit_nat_eq_self)
  have "push_bit 8 acc AND ucast b = 0"
    by (rule bit_word_eqI) (auto simp: bit_simps dest: bit_imp_le_length)
  then have "be_step acc b = push_bit 8 acc + ucast b"
    by (simp add: be_step_def disjunctive_add_eq_or)
  also have "\<dots> = acc * 256 + ucast b" by (simp add: push_bit_eq_mult)
  finally have "unat (be_step acc b) = (unat (acc * 256) + unat b) mod 2 ^ LENGTH('a)"
    using small by (simp add: unat_word_ariths)
  also have "unat (acc * 256) = unat acc * 256 mod 2 ^ LENGTH('a)"
    by (simp add: unat_word_ariths take_bit_eq_mod mod_mult_right_eq)
  finally show ?thesis using assms by (simp add: mod_add_left_eq)
qed

lemma unat_foldl_be_step:
  fixes acc :: "'a::len word"
  shows "unat acc < 2 ^ k \<Longrightarrow> k + 8 * length bs \<le> LENGTH('a) \<Longrightarrow>
     unat (foldl be_step acc bs) < 2 ^ (k + 8 * length bs)"
proof (induction bs arbitrary: acc k)
  case Nil
  then show ?case by simp
next
  case (Cons b bs)
  have b: "unat b < 256" using unat_less_word [of b] by simp
  have "unat acc * 256 + unat b < 2 ^ k * 256" using Cons.prems(1) b by simp
  also have "\<dots> = 2 ^ (k + 8)" by (simp add: power_add)
  finally have le: "unat acc * 256 + unat b < 2 ^ (k + 8)" .
  also have "\<dots> \<le> 2 ^ LENGTH('a)" using Cons.prems(2) by (intro power_increasing) simp_all
  finally have "unat (be_step acc b) < 2 ^ (k + 8)" using le by (simp add: unat_be_step)
  then show ?case using Cons.IH [of "be_step acc b" "k + 8"] Cons.prems(2) by (simp add: ac_simps)
qed

text \<open>\<open>uN::try_from\<close> on a wider unsigned value: it fails when the value does not fit.\<close>

definition try_from_word :: "'a::len word \<Rightarrow> 'b::len word option" where
  "try_from_word x = (if unat x < 2 ^ LENGTH('b) then Some (ucast x) else None)"

definition try_from_nat :: "nat \<Rightarrow> 'b::len word option" where
  "try_from_nat n = (if n < 2 ^ LENGTH('b) then Some (word_of_nat n) else None)"

text \<open>Evaluation goes through binary integers instead of natural numbers.\<close>

lemma less_exp_int: "n < 2 ^ k \<longleftrightarrow> int n < 2 ^ k"
  by (metis of_nat_less_iff of_nat_numeral of_nat_power)

lemma try_from_word_code [code]:
  "try_from_word (x :: 'a::len word) =
     (if uint x < 2 ^ LENGTH('b) then Some (ucast x :: 'b::len word) else None)"
  unfolding try_from_word_def less_exp_int by simp

lemma try_from_nat_code [code]:
  "(try_from_nat n :: 'b::len word option) =
     (if int n < 2 ^ LENGTH('b) then Some (word_of_nat n) else None)"
  unfolding try_from_nat_def less_exp_int by simp

section \<open>Saturating arithmetic\<close>

lemma unat_max_word: "unat (- 1 :: 'a::len word) = 2 ^ LENGTH('a) - 1"
  by (simp add: unsigned_minus_1_eq_mask mask_eq_exp_minus_1)

definition saturating_add :: "'a::len word \<Rightarrow> 'a word \<Rightarrow> 'a word" where
  "saturating_add x y = (if unat x + unat y < 2 ^ LENGTH('a) then x + y else - 1)"

definition saturating_mul :: "'a::len word \<Rightarrow> 'a word \<Rightarrow> 'a word" where
  "saturating_mul x y = (if unat x * unat y < 2 ^ LENGTH('a) then x * y else - 1)"

definition saturating_sub :: "'a::len word \<Rightarrow> 'a word \<Rightarrow> 'a word" where
  "saturating_sub x y = (if x < y then 0 else x - y)"

lemma unat_saturating_add [std_simps]:
  "unat (saturating_add x (y :: 'a::len word)) = min (unat x + unat y) (2 ^ LENGTH('a) - 1)"
proof (cases "unat x + unat y < 2 ^ LENGTH('a)")
  case True
  then show ?thesis by (simp add: saturating_add_def unat_word_ariths)
next
  case False
  then show ?thesis by (simp add: saturating_add_def unat_max_word)
qed

lemma unat_saturating_mul [std_simps]:
  "unat (saturating_mul x (y :: 'a::len word)) = min (unat x * unat y) (2 ^ LENGTH('a) - 1)"
proof (cases "unat x * unat y < 2 ^ LENGTH('a)")
  case True
  then show ?thesis by (simp add: saturating_mul_def unat_word_ariths)
next
  case False
  then show ?thesis by (simp add: saturating_mul_def unat_max_word)
qed

lemma unat_saturating_sub [std_simps]:
  "unat (saturating_sub x (y :: 'a::len word)) = unat x - unat y"
  by (auto simp: saturating_sub_def word_less_nat_alt word_le_nat_alt unat_sub not_less)

lemma saturating_code [code]:
  "saturating_add x (y :: 'a::len word) = (if uint x + uint y < 2 ^ LENGTH('a) then x + y else - 1)"
  "saturating_mul x (y :: 'a::len word) = (if uint x * uint y < 2 ^ LENGTH('a) then x * y else - 1)"
  unfolding saturating_add_def saturating_mul_def less_exp_int by simp_all

section \<open>Slices in chunks\<close>

text \<open>
  \<open>slice::chunks(n)\<close>: pieces of \<open>n\<close> elements, the last one possibly shorter. The library panics on
  \<open>n = 0\<close>; every caller in the sources excludes that value before the call.
\<close>

function chunks :: "nat \<Rightarrow> 'a list \<Rightarrow> 'a list list" where
  "chunks n xs = (if n = 0 \<or> xs = [] then [] else take n xs # chunks n (drop n xs))"
  by pat_completeness auto
termination
  by (relation "measure (\<lambda>(n, xs). length xs)") auto

declare chunks.simps [simp del]

definition div_ceil :: "nat \<Rightarrow> nat \<Rightarrow> nat" where
  "div_ceil a b = (a + b - 1) div b"

lemma chunks_Nil [simp]: "chunks n [] = []"
  by (simp add: chunks.simps)

lemma chunks_unfold: "0 < n \<Longrightarrow> xs \<noteq> [] \<Longrightarrow> chunks n xs = take n xs # chunks n (drop n xs)"
  by (simp add: chunks.simps)

lemma concat_chunks [simp]: "0 < n \<Longrightarrow> concat (chunks n xs) = xs"
proof (induction n xs rule: chunks.induct)
  case (1 n xs)
  then show ?case by (cases "xs = []") (simp_all add: chunks_unfold)
qed

lemma div_ceil_step: "0 < n \<Longrightarrow> 0 < m \<Longrightarrow> div_ceil m n = Suc (div_ceil (m - n) n)"
proof -
  assume n: "0 < n" and m: "0 < m"
  show ?thesis
  proof (cases "n \<le> m")
    case True
    then have "m + n - 1 = (m - n + n - 1) + n" using n by simp
    then show ?thesis using n by (simp only: div_ceil_def div_add_self2)
  next
    case False
    have "(m + n - 1) div n = 1"
    proof (rule div_nat_eqI)
      show "n * 1 \<le> m + n - 1" using m by simp
      show "m + n - 1 < n * Suc 1" using False m by simp
    qed
    with False n show ?thesis by (simp add: div_ceil_def)
  qed
qed

lemma length_chunks: "0 < n \<Longrightarrow> length (chunks n xs) = div_ceil (length xs) n"
proof (induction n xs rule: chunks.induct)
  case (1 n xs)
  show ?case
  proof (cases "xs = []")
    case True
    with 1 show ?thesis by (simp add: div_ceil_def)
  next
    case False
    with 1 show ?thesis by (simp add: chunks_unfold div_ceil_step)
  qed
qed

lemma chunk_length: "c \<in> set (chunks n xs) \<Longrightarrow> 0 < length c \<and> length c \<le> n"
proof (induction n xs rule: chunks.induct)
  case (1 n xs)
  show ?case
  proof (cases "n = 0 \<or> xs = []")
    case True
    with 1 show ?thesis by (simp add: chunks.simps)
  next
    case False
    with 1 show ?thesis by (auto simp: chunks_unfold)
  qed
qed

section \<open>Repeating-key XOR\<close>

text \<open>
  \<open>payload.iter().enumerate().map(|(i, b)| b ^ key[i % key.len()])\<close>, the stream both obfuscators and
  the punch packets apply.
\<close>

definition xor_stream :: "bytes \<Rightarrow> nat \<Rightarrow> bytes \<Rightarrow> bytes" where
  "xor_stream key n bs = map (\<lambda>(i, b). b XOR key ! (i mod n)) (enumerate 0 bs)"

lemma length_xor_stream [simp]: "length (xor_stream key n bs) = length bs"
  by (simp add: xor_stream_def)

lemma nth_xor_stream [simp]:
  "i < length bs \<Longrightarrow> xor_stream key n bs ! i = bs ! i XOR key ! (i mod n)"
  by (simp add: xor_stream_def nth_enumerate_eq)

lemma xor_stream_involution [simp, codec_laws]: "xor_stream key n (xor_stream key n bs) = bs"
  by (rule nth_equalityI) (simp_all add: xor.assoc)

lemma xor_stream_eq_Nil [simp]: "xor_stream key n bs = [] \<longleftrightarrow> bs = []"
  using length_xor_stream [of key n bs] by (metis length_0_conv)

section \<open>Hash maps\<close>

text \<open>
  A \<open>HashMap\<close> is an association list with distinct keys: the order of the list is the iteration
  order, about which the library promises nothing. The laws the components use are the locale
  \<open>hash_table\<close>.
\<close>

type_synonym ('k, 'v) hmap = "('k \<times> 'v) list"

definition hm_get :: "('k, 'v) hmap \<Rightarrow> 'k \<Rightarrow> 'v option" where
  "hm_get m k = map_of m k"

definition hm_insert :: "'k \<Rightarrow> 'v \<Rightarrow> ('k, 'v) hmap \<Rightarrow> ('k, 'v) hmap" where
  "hm_insert k v m = AList.update k v m"

definition hm_remove :: "'k \<Rightarrow> ('k, 'v) hmap \<Rightarrow> ('k, 'v) hmap" where
  "hm_remove k m = AList.delete k m"

definition hm_ok :: "('k, 'v) hmap \<Rightarrow> bool" where
  "hm_ok m = distinct (map fst m)"

locale hash_table =
  fixes get :: "'m \<Rightarrow> 'k \<Rightarrow> 'v option"
    and insert :: "'k \<Rightarrow> 'v \<Rightarrow> 'm \<Rightarrow> 'm"
    and remove :: "'k \<Rightarrow> 'm \<Rightarrow> 'm"
    and size :: "'m \<Rightarrow> nat"
    and invar :: "'m \<Rightarrow> bool"
  assumes get_insert: "get (insert k v m) k' = (if k' = k then Some v else get m k')"
    and get_remove: "get (remove k m) k' = (if k' = k then None else get m k')"
    and size_insert: "invar m \<Longrightarrow> size (insert k v m) = (if get m k = None then Suc (size m) else size m)"
    and size_remove: "invar m \<Longrightarrow> size (remove k m) = (if get m k = None then size m else size m - 1)"
    and size_pos: "get m k = Some v \<Longrightarrow> 0 < size m"
    and invar_insert: "invar m \<Longrightarrow> invar (insert k v m)"
    and invar_remove: "invar m \<Longrightarrow> invar (remove k m)"
begin

lemma insert_fresh_remove:
  "invar m \<Longrightarrow> get m k = None \<Longrightarrow> size (remove k (insert k v m)) = size m"
  by (simp add: size_remove size_insert invar_insert get_insert)

lemma size_update: "invar m \<Longrightarrow> get m k = Some w \<Longrightarrow> size (insert k v m) = size m"
  by (simp add: size_insert)

lemma size_evict_insert:
  assumes "invar m" and "get m k = Some w" and "get m k' = None"
  shows "size (insert k' v (remove k m)) = size m"
proof -
  have "get (remove k m) k' = None" using assms(3) by (simp add: get_remove)
  moreover have "0 < size m" using assms(2) by (rule size_pos)
  ultimately show ?thesis using assms(1,2) by (simp add: size_insert size_remove invar_remove)
qed

end

lemma length_alist_update:
  "length (AList.update k v m) = (if map_of m k = None then Suc (length m) else length m)"
  by (induction m) auto

lemma length_alist_delete:
  "distinct (map fst m) \<Longrightarrow>
     length (AList.delete k m) = (if map_of m k = None then length m else length m - 1)"
proof (induction m)
  case Nil
  show ?case by simp
next
  case (Cons p m)
  show ?case
  proof (cases "fst p = k")
    case True
    with Cons.prems have "AList.delete k m = m" by (auto intro: delete_idem)
    with True show ?thesis by (cases p) simp
  next
    case False
    show ?thesis
    proof (cases "map_of m k")
      case None
      with False Cons show ?thesis by (cases p) auto
    next
      case (Some v)
      then have "0 < length m" by (cases m) auto
      with False Cons Some show ?thesis by (cases p) auto
    qed
  qed
qed

interpretation hm: hash_table hm_get hm_insert hm_remove length hm_ok
proof (unfold_locales, goal_cases)
  case (1 k v m k')
  show ?case by (simp add: hm_get_def hm_insert_def update_conv')
next
  case (2 k m k')
  show ?case by (simp add: hm_get_def hm_remove_def delete_conv')
next
  case (3 m k v)
  then show ?case
    by (simp add: hm_get_def hm_insert_def hm_ok_def length_alist_update)
next
  case (4 m k)
  then show ?case by (simp add: hm_get_def hm_remove_def hm_ok_def length_alist_delete)
next
  case (5 m k v)
  then show ?case by (cases m) (simp_all add: hm_get_def)
next
  case (6 m k v)
  then show ?case by (simp add: hm_ok_def hm_insert_def distinct_update)
next
  case (7 m k)
  then show ?case by (simp add: hm_ok_def hm_remove_def distinct_delete)
qed

lemmas hm_laws [std_simps] = hm.get_insert hm.get_remove hm.size_insert hm.size_remove
  hm.invar_insert hm.invar_remove

lemma hm_ok_Nil [simp]: "hm_ok []"
  by (simp add: hm_ok_def)

lemma hm_get_Nil [simp]: "hm_get [] k = None"
  by (simp add: hm_get_def)

lemma hm_get_mem: "hm_get m k = Some v \<Longrightarrow> (k, v) \<in> set m"
  by (simp add: hm_get_def map_of_SomeD)

lemma hm_mem_get: "hm_ok m \<Longrightarrow> (k, v) \<in> set m \<Longrightarrow> hm_get m k = Some v"
  by (simp add: hm_get_def hm_ok_def)

text \<open>The number of keys with a property, by which tables are accounted.\<close>

definition hm_count :: "('k \<Rightarrow> bool) \<Rightarrow> ('k, 'v) hmap \<Rightarrow> nat" where
  "hm_count P m = length (filter (\<lambda>p. P (fst p)) m)"

lemma hm_count_Nil [simp]: "hm_count P [] = 0"
  by (simp add: hm_count_def)

lemma hm_count_le: "hm_count P m \<le> length m"
  by (simp add: hm_count_def)

lemma hm_count_insert:
  "hm_count P (hm_insert k v m) = (if hm_get m k = None \<and> P k then Suc (hm_count P m) else hm_count P m)"
  unfolding hm_count_def hm_insert_def hm_get_def by (induction m) auto

lemma hm_count_pos: "hm_get m k = Some v \<Longrightarrow> P k \<Longrightarrow> 0 < hm_count P m"
  using hm_get_mem [of m k v] by (force simp: hm_count_def filter_empty_conv)

lemma hm_remove_absent: "hm_get m k = None \<Longrightarrow> hm_remove k m = m"
  by (auto simp: hm_get_def hm_remove_def map_of_eq_None_iff intro: delete_idem)

lemma hm_count_remove:
  "hm_ok m \<Longrightarrow> hm_count P (hm_remove k m) = hm_count P m - (if hm_get m k \<noteq> None \<and> P k then 1 else 0)"
proof (induction m)
  case Nil
  show ?case by (simp add: hm_remove_def)
next
  case (Cons p m)
  show ?case
  proof (cases "fst p = k")
    case True
    with Cons.prems have "hm_remove k m = m"
      by (auto simp: hm_ok_def hm_remove_def intro: delete_idem)
    with True show ?thesis by (cases p) (simp add: hm_remove_def hm_count_def hm_get_def)
  next
    case False
    have "hm_count P m > 0" if "hm_get m k \<noteq> None" "P k"
      using that hm_count_pos [of m k] by auto
    with False Cons show ?thesis
      by (cases p) (auto simp: hm_ok_def hm_remove_def hm_count_def hm_get_def)
  qed
qed

section \<open>Optional slots\<close>

text \<open>\<open>iter().flatten()\<close> over a vector of options, and \<open>unwrap_or\<close>.\<close>

definition flatten :: "'a option list \<Rightarrow> 'a list" where
  "flatten xs = map the (filter (\<lambda>x. x \<noteq> None) xs)"

definition unwrap_or :: "'a \<Rightarrow> 'a option \<Rightarrow> 'a" where
  "unwrap_or d r = (case r of None \<Rightarrow> d | Some x \<Rightarrow> x)"

lemma length_flatten_update:
  "i < length xs \<Longrightarrow> xs ! i = None \<Longrightarrow> length (flatten (xs[i := Some x])) = Suc (length (flatten xs))"
proof (induction xs arbitrary: i)
  case Nil
  then show ?case by simp
next
  case (Cons y ys)
  then show ?case by (cases i) (auto simp: flatten_def)
qed

lemma flatten_replicate_None [simp]: "flatten (replicate n None) = []"
  by (simp add: flatten_def)

lemma flatten_map_Some [simp]: "flatten (map Some xs) = xs"
  by (induction xs) (simp_all add: flatten_def)

lemma unwrap_or_simps [simp, std_simps]:
  "unwrap_or d None = d"
  "unwrap_or d (Some x) = x"
  by (simp_all add: unwrap_or_def)

lemma card_insert_all:
  "S \<subset> {..<n} \<Longrightarrow> j \<notin> S \<Longrightarrow> j < n \<Longrightarrow> Suc (card S) = n \<longleftrightarrow> insert j S = {..<n}"
proof
  assume S: "S \<subset> {..<n}" and j: "j \<notin> S" "j < n"
  have fin: "finite S" using S finite_subset by blast
  have card: "card (insert j S) = Suc (card S)" using fin j by simp
  show "insert j S = {..<n}" if "Suc (card S) = n"
    using that card S j by (intro card_subset_eq) auto
  show "Suc (card S) = n" if "insert j S = {..<n}"
    using that card by (metis card_lessThan)
qed

section \<open>Effects with an outside stream\<close>

text \<open>
  Code that draws from the operating system's random source, or from another outside stream, passes
  the state \<open>'r\<close> of that stream along; a failing call returns early but has consumed what it read.
\<close>

type_synonym ('r, 'e, 'a) eff = "'r \<Rightarrow> ('e + 'a) \<times> 'r"
type_synonym 'r random_source = "'r \<Rightarrow> nat \<Rightarrow> bytes option \<times> 'r"

text \<open>A source that succeeds fills the whole buffer it was given.\<close>

definition good_random :: "'r random_source \<Rightarrow> bool" where
  "good_random fill \<longleftrightarrow> (\<forall>r n bs r'. fill r n = (Some bs, r') \<longrightarrow> length bs = n)"

text \<open>A source that always succeeds, and one such source.\<close>

definition always_random :: "'r random_source \<Rightarrow> bool" where
  "always_random fill \<longleftrightarrow> (\<forall>r n. \<exists>bs r'. fill r n = (Some bs, r') \<and> length bs = n)"

definition zero_random :: "unit random_source" where
  "zero_random r n = (Some (replicate n 0), r)"

lemma always_random_zero: "always_random zero_random"
  by (simp add: always_random_def zero_random_def)

definition eff_return :: "'a \<Rightarrow> ('r, 'e, 'a) eff" where
  "eff_return x r = (Inr x, r)"

definition eff_lift :: "'e + 'a \<Rightarrow> ('r, 'e, 'a) eff" where
  "eff_lift v r = (v, r)"

definition eff_bind :: "('r, 'e, 'a) eff \<Rightarrow> ('a \<Rightarrow> ('r, 'e, 'b) eff) \<Rightarrow> ('r, 'e, 'b) eff" where
  "eff_bind m f r = (case m r of (Inl e, r') \<Rightarrow> (Inl e, r') | (Inr x, r') \<Rightarrow> f x r')"

lemma eff_return_eq: "eff_return x r = (Inr y, r') \<longleftrightarrow> x = y \<and> r = r'"
  by (auto simp: eff_return_def)

lemma eff_lift_eq: "eff_lift v r = (Inr y, r') \<longleftrightarrow> v = Inr y \<and> r = r'"
  by (auto simp: eff_lift_def)

lemma eff_bind_eq:
  "eff_bind m f r = (Inr y, r'') \<longleftrightarrow> (\<exists>x r'. m r = (Inr x, r') \<and> f x r' = (Inr y, r''))"
  by (auto simp: eff_bind_def split: prod.splits sum.splits)

lemmas eff_iffs = eff_return_eq eff_lift_eq eff_bind_eq

section \<open>Wire formats\<close>

text \<open>
  The contract of a self-delimiting wire format: every well-formed value encodes, and decoding its
  encoding followed by anything gives back the value and the bytes that follow.
\<close>

primrec decode_seq :: "(bytes \<Rightarrow> 'f + 'a \<times> bytes) \<Rightarrow> nat \<Rightarrow> bytes \<Rightarrow> 'f + 'a list \<times> bytes" where
  "decode_seq dec 0 bs = Inr ([], bs)"
| "decode_seq dec (Suc n) bs =
     and_then (dec bs) (\<lambda>(x, bs'). and_then (decode_seq dec n bs') (\<lambda>(xs, bs''). Inr (x # xs, bs'')))"

locale frame_codec =
  fixes enc :: "'a \<Rightarrow> 'e + bytes"
    and dec :: "bytes \<Rightarrow> 'f + 'b \<times> bytes"
    and view :: "'a \<Rightarrow> 'b"
    and wf :: "'a \<Rightarrow> bool"
  assumes enc_total: "wf x \<Longrightarrow> \<exists>bs. enc x = Inr bs"
    and dec_enc: "wf x \<Longrightarrow> enc x = Inr bs \<Longrightarrow> dec (bs @ rest) = Inr (view x, rest)"
begin

lemma enc_view_inject: "wf x \<Longrightarrow> wf y \<Longrightarrow> enc x = enc y \<Longrightarrow> view x = view y"
  using enc_total [of x] dec_enc [of x _ "[]"] dec_enc [of y _ "[]"] by fastforce

lemma enc_prefix_free:
  assumes "wf x" and "wf y" and "enc x = Inr bs" and "enc y = Inr (bs @ cs)"
  shows "cs = []"
  using dec_enc [OF assms(1,3), of cs] dec_enc [OF assms(2,4), of "[]"] by simp

lemma decode_seq_concat:
  "(\<And>x. x \<in> set xs \<Longrightarrow> wf x \<and> enc x = Inr (out x)) \<Longrightarrow>
   decode_seq dec (length xs) (concat (map out xs) @ rest) = Inr (map view xs, rest)"
proof (induction xs)
  case Nil
  show ?case by simp
next
  case (Cons x xs)
  have "dec (out x @ concat (map out xs) @ rest) = Inr (view x, concat (map out xs) @ rest)"
    using Cons.prems [of x] dec_enc by simp
  with Cons show ?case by simp
qed

end

section \<open>Invariants of step functions\<close>

text \<open>
  A component whose events arrive one after the other is a step function; what every step keeps
  holds after any sequence of events.
\<close>

locale step_invariant =
  fixes step :: "'s \<Rightarrow> 'e \<Rightarrow> 's"
    and inv :: "'s \<Rightarrow> bool"
  assumes inv_step: "inv s \<Longrightarrow> inv (step s e)"
begin

lemma inv_run: "inv s \<Longrightarrow> inv (foldl step s es)"
  by (induction es arbitrary: s) (simp_all add: inv_step)

lemma inv_prefix: "inv s \<Longrightarrow> inv (foldl step s (take n es))"
  by (rule inv_run)

end

end
