(* ===== verification/Rust_Std.thy ===== *)
theory Rust_Std
  imports Prelude
begin

unbundle bit_operations_syntax

text \<open>
  The parts of Rust's standard library the sources use on strings and numbers: a \<open>String\<close> is the
  list of its UTF-8 bytes (a HOL \<open>string\<close>, whose characters are bytes), lossy decoding, parsing and
  printing of unsigned integers, splitting, trimming and prefixes.
\<close>

section \<open>Strings as bytes\<close>

definition byte_of_char :: "char \<Rightarrow> u8" where
  "byte_of_char c = word_of_nat (of_char c)"

definition char_of_byte :: "u8 \<Rightarrow> char" where
  "char_of_byte b = char_of (unat b)"

definition as_bytes :: "string \<Rightarrow> bytes" where
  "as_bytes s = map byte_of_char s"

definition of_bytes :: "bytes \<Rightarrow> string" where
  "of_bytes bs = map char_of_byte bs"

lemma of_char_less: "(of_char c :: nat) < 256"
  using nat_of_char_less_256 [of c] by simp

lemma char_of_byte_of_char [simp]: "char_of_byte (byte_of_char c) = c"
  by (simp add: char_of_byte_def byte_of_char_def unat_of_nat of_char_less)

lemma byte_of_char_of_byte [simp]: "byte_of_char (char_of_byte b) = b"
proof -
  have "unat b < 256" using unat_less_word [of b] by simp
  then show ?thesis by (simp add: char_of_byte_def byte_of_char_def)
qed

lemma of_bytes_as_bytes [simp]: "of_bytes (as_bytes s) = s"
  by (simp add: of_bytes_def as_bytes_def comp_def)

lemma as_bytes_of_bytes [simp]: "as_bytes (of_bytes bs) = bs"
  by (simp add: of_bytes_def as_bytes_def comp_def)

lemma length_as_bytes [simp]: "length (as_bytes s) = length s"
  by (simp add: as_bytes_def)

lemma length_of_bytes [simp]: "length (of_bytes bs) = length bs"
  by (simp add: of_bytes_def)

lemma as_bytes_inject [simp]: "as_bytes s = as_bytes t \<longleftrightarrow> s = t"
  by (metis of_bytes_as_bytes)

section \<open>UTF-8\<close>

text \<open>
  \<open>utf8_step\<close> looks at the first encoded character: whether it is well formed, and how many bytes
  it takes. A malformed one takes its longest well-formed beginning, as \<open>Utf8Chunks\<close> does.
\<close>

definition utf8_conts :: "u8 \<Rightarrow> (u8 \<times> u8) list option" where
  "utf8_conts b =
     (if b < 0x80 then Some []
      else if b < 0xC2 then None
      else if b \<le> 0xDF then Some [(0x80, 0xBF)]
      else if b = 0xE0 then Some [(0xA0, 0xBF), (0x80, 0xBF)]
      else if b = 0xED then Some [(0x80, 0x9F), (0x80, 0xBF)]
      else if b \<le> 0xEF then Some [(0x80, 0xBF), (0x80, 0xBF)]
      else if b = 0xF0 then Some [(0x90, 0xBF), (0x80, 0xBF), (0x80, 0xBF)]
      else if b \<le> 0xF3 then Some [(0x80, 0xBF), (0x80, 0xBF), (0x80, 0xBF)]
      else if b = 0xF4 then Some [(0x80, 0x8F), (0x80, 0xBF), (0x80, 0xBF)]
      else None)"

fun conts_matched :: "(u8 \<times> u8) list \<Rightarrow> bytes \<Rightarrow> nat" where
  "conts_matched [] bs = 0"
| "conts_matched (r # rs) [] = 0"
| "conts_matched ((lo, hi) # rs) (b # bs) =
     (if lo \<le> b \<and> b \<le> hi then Suc (conts_matched rs bs) else 0)"

fun utf8_step :: "bytes \<Rightarrow> bool \<times> nat" where
  "utf8_step [] = (True, 1)"
| "utf8_step (b # bs) =
     (case utf8_conts b of
        None \<Rightarrow> (False, 1)
      | Some rs \<Rightarrow> (conts_matched rs bs = length rs, Suc (conts_matched rs bs)))"

lemma conts_matched_le: "conts_matched rs bs \<le> length bs"
  by (induction rs bs rule: conts_matched.induct) auto

lemma conts_matched_take:
  "conts_matched rs bs = length rs \<Longrightarrow> conts_matched rs (take (length rs) bs @ cs) = length rs"
  by (induction rs bs rule: conts_matched.induct) (auto split: if_splits)

lemma utf8_step_pos: "0 < snd (utf8_step bs)"
  by (cases bs) (auto split: option.splits)

lemma utf8_step_le: "bs \<noteq> [] \<Longrightarrow> snd (utf8_step bs) \<le> length bs"
  by (cases bs) (auto simp: conts_matched_le split: option.splits)

function utf8_valid :: "bytes \<Rightarrow> bool" where
  "utf8_valid bs =
     (if bs = [] then True
      else fst (utf8_step bs) \<and> utf8_valid (drop (snd (utf8_step bs)) bs))"
  by pat_completeness auto
termination
  by (relation "measure length") (auto intro!: diff_less utf8_step_pos)

definition replacement_char :: bytes where
  "replacement_char = [0xEF, 0xBF, 0xBD]"

function utf8_lossy :: "bytes \<Rightarrow> bytes" where
  "utf8_lossy bs =
     (if bs = [] then []
      else (if fst (utf8_step bs) then take (snd (utf8_step bs)) bs else replacement_char)
           @ utf8_lossy (drop (snd (utf8_step bs)) bs))"
  by pat_completeness auto
termination
  by (relation "measure length") (auto intro!: diff_less utf8_step_pos)

declare utf8_valid.simps [simp del] utf8_lossy.simps [simp del]

definition from_utf8_lossy :: "bytes \<Rightarrow> string" where
  "from_utf8_lossy bs = of_bytes (utf8_lossy bs)"

definition valid_string :: "string \<Rightarrow> bool" where
  "valid_string s = utf8_valid (as_bytes s)"

lemma utf8_lossy_valid: "utf8_valid bs \<Longrightarrow> utf8_lossy bs = bs"
proof (induction bs rule: utf8_valid.induct)
  case (1 bs)
  show ?case
  proof (cases "bs = []")
    case True
    then show ?thesis by (simp add: utf8_lossy.simps)
  next
    case False
    with "1.prems" have "fst (utf8_step bs)" and "utf8_valid (drop (snd (utf8_step bs)) bs)"
      by (simp_all add: utf8_valid.simps [of bs])
    with False 1 show ?thesis by (simp add: utf8_lossy.simps [of bs])
  qed
qed

lemma from_utf8_lossy_valid [simp]: "valid_string s \<Longrightarrow> from_utf8_lossy (as_bytes s) = s"
  by (simp add: valid_string_def from_utf8_lossy_def utf8_lossy_valid)

lemma utf8_step_take_append:
  assumes "bs \<noteq> []" and "fst (utf8_step bs)"
  shows "utf8_step (take (snd (utf8_step bs)) bs @ cs) = utf8_step bs"
  using assms by (cases bs) (auto simp: conts_matched_take split: option.splits)

lemma utf8_step_replacement: "utf8_step (replacement_char @ cs) = (True, 3)"
  by (simp add: replacement_char_def utf8_conts_def)

lemma utf8_valid_unfold:
  "bs \<noteq> [] \<Longrightarrow> utf8_valid bs = (fst (utf8_step bs) \<and> utf8_valid (drop (snd (utf8_step bs)) bs))"
  by (subst utf8_valid.simps) simp

lemma utf8_valid_lossy: "utf8_valid (utf8_lossy bs)"
proof (induction bs rule: utf8_lossy.induct)
  case (1 bs)
  let ?n = "snd (utf8_step bs)"
  show ?case
  proof (cases "bs = []")
    case True
    then show ?thesis by (simp add: utf8_lossy.simps utf8_valid.simps)
  next
    case False
    note IH = "1.IH" [OF False]
    have n: "?n \<le> length bs" "0 < ?n" using False utf8_step_le utf8_step_pos by auto
    show ?thesis
    proof (cases "fst (utf8_step bs)")
      case True
      then have eq: "utf8_lossy bs = take ?n bs @ utf8_lossy (drop ?n bs)"
        using False by (simp add: utf8_lossy.simps [of bs])
      have ne: "take ?n bs @ utf8_lossy (drop ?n bs) \<noteq> []" using n False by auto
      show ?thesis unfolding eq
        using utf8_valid_unfold [OF ne] utf8_step_take_append [OF False True] True IH n by simp
    next
      case nv: False
      then have eq: "utf8_lossy bs = replacement_char @ utf8_lossy (drop ?n bs)"
        using False by (simp add: utf8_lossy.simps [of bs])
      have ne: "replacement_char @ utf8_lossy (drop ?n bs) \<noteq> []" by (simp add: replacement_char_def)
      show ?thesis unfolding eq
        using utf8_valid_unfold [OF ne] IH
        by (simp add: utf8_step_replacement) (simp add: replacement_char_def)
    qed
  qed
qed

lemma valid_string_from_utf8_lossy [simp]: "valid_string (from_utf8_lossy bs)"
  by (simp add: valid_string_def from_utf8_lossy_def utf8_valid_lossy)

lemma utf8_valid_ascii: "\<forall>b \<in> set bs. b < 0x80 \<Longrightarrow> utf8_valid bs"
proof (induction bs)
  case Nil
  show ?case by (simp add: utf8_valid.simps)
next
  case (Cons b bs)
  then show ?case by (simp add: utf8_valid_unfold utf8_conts_def)
qed

lemma valid_string_Nil [simp]: "valid_string []"
  by (simp add: valid_string_def as_bytes_def utf8_valid.simps)

section \<open>Character boundaries\<close>

definition is_continuation :: "u8 \<Rightarrow> bool" where
  "is_continuation b = (b AND 0xC0 = 0x80)"

definition is_char_boundary :: "string \<Rightarrow> nat \<Rightarrow> bool" where
  "is_char_boundary s i =
     (if i < length s then i = 0 \<or> \<not> is_continuation (byte_of_char (s ! i)) else i = length s)"

definition str_slice :: "string \<Rightarrow> nat \<Rightarrow> nat \<Rightarrow> 'e fault + string" where
  "str_slice s i j =
     (if i \<le> j \<and> is_char_boundary s i \<and> is_char_boundary s j then Inr (take (j - i) (drop i s)) else Inl Panic)"

lemma cont_range: "lo \<le> b \<Longrightarrow> b \<le> hi \<Longrightarrow> 0x80 \<le> lo \<Longrightarrow> hi \<le> 0xBF \<Longrightarrow> is_continuation b"
proof -
  assume "lo \<le> b" "b \<le> hi" "0x80 \<le> lo" "hi \<le> 0xBF"
  then have "0x80 \<le> b" "b \<le> 0xBF" by auto
  then have "128 \<le> unat b" "unat b < 192" by (auto simp: word_le_nat_alt)
  then have "unat b div 64 = 2" by simp
  then have "drop_bit 6 b = 2" by (auto simp: word_unat_eq_iff drop_bit_eq_div unat_div)
  moreover have "(0xC0 :: u8) = NOT (mask 6)" by (simp add: mask_eq_exp_minus_1)
  moreover have "b AND NOT (mask 6) = push_bit 6 (drop_bit 6 b)"
    by (rule bit_word_eqI) (auto simp: bit_simps)
  ultimately show ?thesis by (simp add: is_continuation_def)
qed

lemma utf8_conts_ranges: "utf8_conts b = Some rs \<Longrightarrow> list_all (\<lambda>(lo, hi). 0x80 \<le> lo \<and> hi \<le> 0xBF) rs"
  by (auto simp: utf8_conts_def split: if_splits)

lemma conts_matched_conts:
  "conts_matched rs bs = length rs \<Longrightarrow> list_all (\<lambda>(lo, hi). 0x80 \<le> lo \<and> hi \<le> 0xBF) rs \<Longrightarrow> i < length rs \<Longrightarrow>
     is_continuation (bs ! i)"
proof (induction rs bs arbitrary: i rule: conts_matched.induct)
  case (3 lo hi rs b bs)
  then have m: "lo \<le> b" "b \<le> hi" "conts_matched rs bs = length rs" by (simp_all split: if_splits)
  show ?case
  proof (cases i)
    case 0
    then show ?thesis using cont_range [OF m(1,2)] "3.prems"(2) by simp
  next
    case (Suc k)
    then show ?thesis using "3.IH" [of k] m "3.prems"(2,3) by simp
  qed
next
  case (1 bs)
  from "1.prems"(3) have False by simp
  then show ?case ..
next
  case (2 r rs)
  from "2.prems"(1) have False by simp
  then show ?case ..
qed

lemma utf8_step_cont:
  assumes "bs \<noteq> []" and "fst (utf8_step bs)" and "0 < i" and "i < snd (utf8_step bs)"
  shows "is_continuation (bs ! i)"
proof -
  obtain b cs where b: "bs = b # cs" using assms(1) by (cases bs) auto
  obtain rs where rs: "utf8_conts b = Some rs"
    using assms(2) unfolding b by (cases "utf8_conts b") auto
  then have m: "conts_matched rs cs = length rs" "snd (utf8_step bs) = Suc (length rs)"
    using assms(2) unfolding b by simp_all
  obtain k where "i = Suc k" "k < length rs" using assms(3,4) m(2) by (cases i) auto
  then show ?thesis using conts_matched_conts [OF m(1) utf8_conts_ranges [OF rs]] b by simp
qed

lemma utf8_valid_take:
  "utf8_valid bs \<Longrightarrow> i \<le> length bs \<Longrightarrow> i = 0 \<or> i = length bs \<or> \<not> is_continuation (bs ! i) \<Longrightarrow> utf8_valid (take i bs)"
proof (induction bs arbitrary: i rule: utf8_valid.induct)
  case (1 bs)
  let ?n = "snd (utf8_step bs)"
  show ?case
  proof (cases "bs = [] \<or> i = 0")
    case True
    moreover have "utf8_valid []" by (simp add: utf8_valid.simps)
    ultimately show ?thesis by auto
  next
    case False
    then have ne: "bs \<noteq> []" and i0: "0 < i" by simp_all
    have s: "fst (utf8_step bs)" and v: "utf8_valid (drop ?n bs)"
      using "1.prems"(1) unfolding utf8_valid_unfold [OF ne] by simp_all
    have n: "?n \<le> i"
    proof (rule ccontr)
      assume "\<not> ?n \<le> i"
      then have i: "i < ?n" by simp
      then have "i < length bs" using utf8_step_le [OF ne] by simp
      then show False using utf8_step_cont [OF ne s i0 i] "1.prems"(3) i0 by simp
    qed
    have t: "take i bs = take ?n bs @ take (i - ?n) (drop ?n bs)"
      using take_add [of ?n "i - ?n" bs] n by simp
    have nth: "drop ?n bs ! (i - ?n) = bs ! i" if "i < length bs" using n that by simp
    have "i - ?n = 0 \<or> i - ?n = length (drop ?n bs) \<or> \<not> is_continuation (drop ?n bs ! (i - ?n))"
      using "1.prems"(2,3) nth i0 by (cases "i = length bs") simp_all
    then have w: "utf8_valid (take (i - ?n) (drop ?n bs))"
      using "1.IH" [OF ne v] "1.prems"(2) by simp
    have "take i bs \<noteq> []" using ne i0 by simp
    then show ?thesis
      using utf8_step_take_append [OF ne s, of "take (i - ?n) (drop ?n bs)"] s n "1.prems"(2) w
      by (simp add: utf8_valid_unfold t [symmetric]) (simp add: drop_take)
  qed
qed

lemma valid_string_take: "valid_string s \<Longrightarrow> is_char_boundary s i \<Longrightarrow> valid_string (take i s)"
  using utf8_valid_take [of "as_bytes s" i]
  by (auto simp: valid_string_def is_char_boundary_def as_bytes_def take_map split: if_splits)

section \<open>Unsigned integers as text\<close>

text \<open>
  \<open>to_digit\<close> is \<open>char::to_digit\<close>; \<open>parse_uint\<close> is \<open>from_str_radix\<close> of an unsigned type whose largest
  value is \<open>limit\<close>: one leading plus sign is allowed, at least one digit is required, and an
  overflow is an error. \<open>str::parse\<close> is the radix-10 case.
\<close>

definition to_digit :: "nat \<Rightarrow> char \<Rightarrow> nat option" where
  "to_digit r c =
     (let n = of_char c :: nat;
          d = (if 48 \<le> n \<and> n \<le> 57 then n - 48
               else if 97 \<le> n \<and> n \<le> 122 then n - 87
               else if 65 \<le> n \<and> n \<le> 90 then n - 55 else r)
      in if d < r then Some d else None)"

fun parse_digits :: "nat \<Rightarrow> nat \<Rightarrow> string \<Rightarrow> nat option" where
  "parse_digits r acc [] = Some acc"
| "parse_digits r acc (c # cs) =
     (case to_digit r c of None \<Rightarrow> None | Some d \<Rightarrow> parse_digits r (acc * r + d) cs)"

definition parse_uint :: "nat \<Rightarrow> nat \<Rightarrow> string \<Rightarrow> nat option" where
  "parse_uint r limit s =
     (let ds = (case s of [] \<Rightarrow> [] | c # cs \<Rightarrow> if c = CHR ''+'' then cs else s)
      in if ds = [] then None
         else case parse_digits r 0 ds of
                None \<Rightarrow> None
              | Some n \<Rightarrow> if n \<le> limit then Some n else None)"

definition parse_u16 :: "string \<Rightarrow> u16 option" where
  "parse_u16 s = map_option word_of_nat (parse_uint 10 (2 ^ 16 - 1) s)"

definition parse_u64 :: "string \<Rightarrow> u64 option" where
  "parse_u64 s = map_option word_of_nat (parse_uint 10 (2 ^ 64 - 1) s)"

definition digit_char :: "nat \<Rightarrow> char" where
  "digit_char d = char_of (48 + d)"

fun nat_string :: "nat \<Rightarrow> string" where
  "nat_string n = (if n < 10 then [digit_char n] else nat_string (n div 10) @ [digit_char (n mod 10)])"

declare nat_string.simps [simp del]

definition uint_string :: "'a::len word \<Rightarrow> string" where
  "uint_string w = nat_string (unat w)"

text \<open>The text of a \<open>Utf8Error\<close> for bytes that start at index \<open>i\<close>.\<close>

definition utf8_cut_short :: "bytes \<Rightarrow> bool" where
  "utf8_cut_short bs = (case bs of [] \<Rightarrow> False | b # _ \<Rightarrow> utf8_conts b \<noteq> None \<and> snd (utf8_step bs) = length bs)"

function utf8_error :: "nat \<Rightarrow> bytes \<Rightarrow> string" where
  "utf8_error i bs =
     (if bs = [] then []
      else if fst (utf8_step bs) then utf8_error (i + snd (utf8_step bs)) (drop (snd (utf8_step bs)) bs)
      else if utf8_cut_short bs then ''incomplete utf-8 byte sequence from index '' @ nat_string i
      else ''invalid utf-8 sequence of '' @ nat_string (snd (utf8_step bs)) @ '' bytes from index '' @ nat_string i)"
  by pat_completeness auto
termination
  by (relation "measure (length \<circ> snd)") (auto intro!: diff_less utf8_step_pos)

declare utf8_error.simps [simp del]

lemma to_digit_digit_char [simp]: "d < 10 \<Longrightarrow> to_digit 10 (digit_char d) = Some d"
  by (simp add: to_digit_def digit_char_def Let_def)

lemma digit_char_not_plus: "d < 10 \<Longrightarrow> digit_char d \<noteq> CHR ''+''"
proof
  assume d: "d < 10" and eq: "digit_char d = CHR ''+''"
  have "(of_char (digit_char d) :: nat) = of_char (CHR ''+'')" using eq by simp
  then show False using d by (simp add: digit_char_def)
qed

lemma parse_digits_append:
  "parse_digits r acc (xs @ ys) =
     (case parse_digits r acc xs of None \<Rightarrow> None | Some n \<Rightarrow> parse_digits r n ys)"
  by (induction r acc xs rule: parse_digits.induct) (auto split: option.splits)

lemma parse_digits_nat_string: "parse_digits 10 0 (nat_string n) = Some n"
proof (induction n rule: nat_string.induct)
  case (1 n)
  show ?case
  proof (cases "n < 10")
    case True
    then show ?thesis by (simp add: nat_string.simps [of n])
  next
    case False
    with 1 show ?thesis by (simp add: nat_string.simps [of n] parse_digits_append)
  qed
qed

lemma nat_string_Cons: "\<exists>d cs. nat_string n = digit_char d # cs \<and> d < 10"
proof (induction n rule: nat_string.induct)
  case (1 n)
  show ?case
  proof (cases "n < 10")
    case True
    then show ?thesis by (auto simp: nat_string.simps [of n])
  next
    case False
    with 1 obtain d cs where "nat_string (n div 10) = digit_char d # cs" "d < 10" by blast
    with False show ?thesis by (auto simp: nat_string.simps [of n])
  qed
qed

lemma nat_string_not_Nil [simp]: "nat_string n \<noteq> []"
  using nat_string_Cons [of n] by auto

lemma parse_uint_nat_string [codec_laws]: "n \<le> limit \<Longrightarrow> parse_uint 10 limit (nat_string n) = Some n"
proof -
  assume n: "n \<le> limit"
  obtain d cs where eq: "nat_string n = digit_char d # cs" and d: "d < 10"
    using nat_string_Cons by blast
  have "parse_digits 10 0 (digit_char d # cs) = Some n"
    using parse_digits_nat_string [of n] eq by simp
  with n d show ?thesis by (simp add: eq parse_uint_def digit_char_not_plus del: parse_digits.simps)
qed

lemma parse_u64_uint_string [simp, codec_laws]: "parse_u64 (uint_string w) = Some w"
proof -
  have "unat w \<le> 2 ^ 64 - 1" using unat_less_word [of w] by simp
  then show ?thesis by (simp add: parse_u64_def uint_string_def parse_uint_nat_string)
qed

lemma parse_u16_uint_string [simp, codec_laws]: "parse_u16 (uint_string w) = Some w"
proof -
  have "unat w \<le> 2 ^ 16 - 1" using unat_less_word [of w] by simp
  then show ?thesis by (simp add: parse_u16_def uint_string_def parse_uint_nat_string)
qed

lemma parse_uint_le: "parse_uint r limit s = Some n \<Longrightarrow> n \<le> limit"
  by (auto simp: parse_uint_def Let_def split: if_splits option.splits)

section \<open>Searching and splitting strings\<close>

definition starts_with :: "string \<Rightarrow> string \<Rightarrow> bool" where
  "starts_with s p = (take (length p) s = p)"

definition ends_with :: "string \<Rightarrow> string \<Rightarrow> bool" where
  "ends_with s p = starts_with (rev s) (rev p)"

definition strip_prefix :: "string \<Rightarrow> string \<Rightarrow> string option" where
  "strip_prefix s p = (if starts_with s p then Some (drop (length p) s) else None)"

definition strip_suffix :: "string \<Rightarrow> string \<Rightarrow> string option" where
  "strip_suffix s p = (if ends_with s p then Some (take (length s - length p) s) else None)"

definition split_once :: "string \<Rightarrow> char \<Rightarrow> (string \<times> string) option" where
  "split_once s c =
     (if c \<in> set s then Some (takeWhile (\<lambda>x. x \<noteq> c) s, tl (dropWhile (\<lambda>x. x \<noteq> c) s)) else None)"

definition rsplit_once :: "string \<Rightarrow> char \<Rightarrow> (string \<times> string) option" where
  "rsplit_once s c = map_option (\<lambda>(a, b). (rev b, rev a)) (split_once (rev s) c)"

function split_char :: "char \<Rightarrow> string \<Rightarrow> string list" where
  "split_char c s =
     (if c \<in> set s
      then takeWhile (\<lambda>x. x \<noteq> c) s # split_char c (tl (dropWhile (\<lambda>x. x \<noteq> c) s))
      else [s])"
  by pat_completeness auto
termination
proof (relation "measure (\<lambda>(c, s). length s)", goal_cases)
  case 1
  show ?case by simp
next
  case (2 c s)
  then have "length (dropWhile (\<lambda>x. x \<noteq> c) s) \<le> length s" "dropWhile (\<lambda>x. x \<noteq> c) s \<noteq> []"
    by (auto simp: length_dropWhile_le)
  then have "length (tl (dropWhile (\<lambda>x. x \<noteq> c) s)) < length s"
    by (cases "dropWhile (\<lambda>x. x \<noteq> c) s") auto
  then show ?case by simp
qed

declare split_char.simps [simp del]

lemma split_once_append: "c \<notin> set a \<Longrightarrow> split_once (a @ c # b) c = Some (a, b)"
  by (auto simp: split_once_def takeWhile_append dropWhile_append)

lemma split_once_eq:
  assumes "split_once s c = Some (a, b)"
  shows "s = a @ c # b" and "c \<notin> set a"
proof -
  have c: "c \<in> set s" and a: "a = takeWhile (\<lambda>x. x \<noteq> c) s"
    and b: "b = tl (dropWhile (\<lambda>x. x \<noteq> c) s)"
    using assms by (auto simp: split_once_def split: if_splits)
  obtain y ys where d: "dropWhile (\<lambda>x. x \<noteq> c) s = y # ys"
    using c by (cases "dropWhile (\<lambda>x. x \<noteq> c) s") auto
  have "y = c" using d hd_dropWhile [of "\<lambda>x. x \<noteq> c" s] by simp
  then show "s = a @ c # b" using takeWhile_dropWhile_id [of "\<lambda>x. x \<noteq> c" s] a b d by simp
  show "c \<notin> set a" using a set_takeWhileD by fastforce
qed

lemma rsplit_once_append: "c \<notin> set b \<Longrightarrow> rsplit_once (a @ c # b) c = Some (a, b)"
  by (simp add: rsplit_once_def split_once_append)

lemma rsplit_once_eq:
  assumes "rsplit_once s c = Some (a, b)"
  shows "s = a @ c # b" and "c \<notin> set b"
proof -
  obtain x y where xy: "split_once (rev s) c = Some (x, y)" and a: "a = rev y" and b: "b = rev x"
    using assms by (auto simp: rsplit_once_def)
  have "rev s = x @ c # y" using split_once_eq(1) [OF xy] .
  then have "s = rev (x @ c # y)" by (metis rev_rev_ident)
  then show "s = a @ c # b" using a b by simp
  show "c \<notin> set b" using split_once_eq(2) [OF xy] b by simp
qed

lemma rsplit_once_None: "rsplit_once s c = None \<longleftrightarrow> c \<notin> set s"
  by (simp add: rsplit_once_def split_once_def)

lemma starts_with_append [simp]: "starts_with (p @ s) p"
  by (simp add: starts_with_def)

lemma starts_with_iff: "starts_with s p \<longleftrightarrow> (\<exists>t. s = p @ t)"
  by (metis append_take_drop_id starts_with_append starts_with_def)

lemma strip_prefix_append [simp]: "strip_prefix (p @ s) p = Some s"
  by (simp add: strip_prefix_def)

section \<open>Letter case and white space\<close>

definition ascii_lower :: "char \<Rightarrow> char" where
  "ascii_lower c =
     (let n = of_char c :: nat in if 65 \<le> n \<and> n \<le> 90 then char_of (n + 32) else c)"

definition to_ascii_lowercase :: "string \<Rightarrow> string" where
  "to_ascii_lowercase s = map ascii_lower s"

definition eq_ignore_ascii_case :: "string \<Rightarrow> string \<Rightarrow> bool" where
  "eq_ignore_ascii_case s t = (to_ascii_lowercase s = to_ascii_lowercase t)"

text \<open>The encodings of the characters with the Unicode property \<open>White_Space\<close>, which \<open>trim\<close> removes.\<close>

definition whitespace_seqs :: "string list" where
  "whitespace_seqs =
     map (\<lambda>n. [char_of n]) [9, 10, 11, 12, 13, 32 :: nat]
     @ map of_bytes
         ([[0xC2, 0x85], [0xC2, 0xA0], [0xE1, 0x9A, 0x80], [0xE2, 0x80, 0xA8], [0xE2, 0x80, 0xA9],
           [0xE2, 0x80, 0xAF], [0xE2, 0x81, 0x9F], [0xE3, 0x80, 0x80]]
          @ map (\<lambda>k. [0xE2, 0x80, word_of_nat (0x80 + k)]) [0..<11])"

function trim_start_by :: "string list \<Rightarrow> string \<Rightarrow> string" where
  "trim_start_by ws s =
     (case find (\<lambda>w. w \<noteq> [] \<and> starts_with s w) ws of
        None \<Rightarrow> s
      | Some w \<Rightarrow> if s = [] then s else trim_start_by ws (drop (length w) s))"
  by pat_completeness auto
termination
  by (relation "measure (\<lambda>(ws, s). length s)") (auto simp: find_Some_iff)

declare trim_start_by.simps [simp del]

definition trim_start :: "string \<Rightarrow> string" where
  "trim_start s = trim_start_by whitespace_seqs s"

definition trim_end :: "string \<Rightarrow> string" where
  "trim_end s = rev (trim_start_by (map rev whitespace_seqs) (rev s))"

definition trim :: "string \<Rightarrow> string" where
  "trim s = trim_end (trim_start s)"

end
