(* ===== verification/Auth_Headers.thy ===== *)
theory Auth_Headers
  imports Rust_Std
begin

text \<open>
  The authentication headers of \<open>hysteria-protocol/src/auth.rs\<close>: the request a client sends and the
  response of the server, written to and read from header values.
\<close>

section \<open>Definitions\<close>

abbreviation (input) AUTH_HOST :: string where
  "AUTH_HOST \<equiv> ''hysteria''"

abbreviation (input) AUTH_PATH :: string where
  "AUTH_PATH \<equiv> ''/auth''"

abbreviation (input) HEADER_PADDING :: string where
  "HEADER_PADDING \<equiv> ''Hysteria-Padding''"

abbreviation (input) AUTH_STATUS_OK :: u16 where
  "AUTH_STATUS_OK \<equiv> 233"

abbreviation (input) HEADER_AUTH :: string where
  "HEADER_AUTH \<equiv> ''Hysteria-Auth''"

abbreviation (input) HEADER_UDP_ENABLED :: string where
  "HEADER_UDP_ENABLED \<equiv> ''Hysteria-UDP''"

abbreviation (input) HEADER_CC_RX :: string where
  "HEADER_CC_RX \<equiv> ''Hysteria-CC-RX''"

record auth_request =
  auth_secret :: string
  auth_rx :: u64

record auth_response =
  udp_enabled :: bool
  rx_rate :: u64
  rx_auto :: bool

definition auth_request_from_header_values :: "string option \<Rightarrow> string option \<Rightarrow> auth_request" where
  "auth_request_from_header_values auth rx =
     \<lparr>auth_secret = unwrap_or [] auth,
      auth_rx = unwrap_or 0 (Option.bind rx (\<lambda>v. parse_u64 (unwrap_or v (strip_prefix v ''+''))))\<rparr>"

definition auth_request_header_values :: "auth_request \<Rightarrow> (string \<times> string) list" where
  "auth_request_header_values r =
     [(HEADER_AUTH, auth_secret r), (HEADER_CC_RX, uint_string (auth_rx r))]"

definition parse_go_bool :: "string \<Rightarrow> bool option" where
  "parse_go_bool v =
     (if v \<in> set [''1'', ''t'', ''T'', ''true'', ''TRUE'', ''True''] then Some True
      else if v \<in> set [''0'', ''f'', ''F'', ''false'', ''FALSE'', ''False''] then Some False
      else None)"

definition auth_response_from_header_values :: "string option \<Rightarrow> string option \<Rightarrow> auth_response" where
  "auth_response_from_header_values udp rx =
     (let rx_value = unwrap_or [] rx in
      \<lparr>udp_enabled = unwrap_or False (Option.bind udp parse_go_bool),
       rx_rate = (if rx_value = ''auto'' then 0 else unwrap_or 0 (parse_u64 rx_value)),
       rx_auto = (rx_value = ''auto'')\<rparr>)"

definition auth_response_header_values :: "auth_response \<Rightarrow> (string \<times> string) list" where
  "auth_response_header_values r =
     [(HEADER_UDP_ENABLED, if udp_enabled r then ''true'' else ''false''),
      (HEADER_CC_RX, if rx_auto r then ''auto'' else uint_string (rx_rate r))]"

section \<open>Lemmas\<close>

lemma strip_plus_uint_string [simp]: "strip_prefix (uint_string w) ''+'' = None"
proof -
  obtain d cs where "nat_string (unat w) = digit_char d # cs" "d < 10"
    using nat_string_Cons by blast
  then show ?thesis
    using digit_char_not_plus [of d] by (simp add: uint_string_def strip_prefix_def starts_with_def)
qed

lemma uint_string_not_auto [simp]: "uint_string w \<noteq> ''auto''"
proof
  assume eq: "uint_string w = ''auto''"
  obtain d cs where "nat_string (unat w) = digit_char d # cs" and d: "d < 10"
    using nat_string_Cons by blast
  with eq have "digit_char d = CHR ''a''" by (simp add: uint_string_def)
  then have "(of_char (digit_char d) :: nat) = of_char (CHR ''a'')" by simp
  with d show False by (simp add: digit_char_def)
qed

section \<open>Properties\<close>

text \<open>
  Reading back the header values of a request or of a response gives the request, respectively
  the response; a response that asks for automatic congestion control carries no rate, so its rate
  reads as zero.
\<close>

lemma auth_headers_roundtrip:
  "auth_request_from_header_values
     (map_of (auth_request_header_values q) HEADER_AUTH)
     (map_of (auth_request_header_values q) HEADER_CC_RX) = q \<and>
   auth_response_from_header_values
     (map_of (auth_response_header_values r) HEADER_UDP_ENABLED)
     (map_of (auth_response_header_values r) HEADER_CC_RX) =
       (if rx_auto r then r\<lparr>rx_rate := 0\<rparr> else r)"
proof
  show "auth_request_from_header_values
     (map_of (auth_request_header_values q) HEADER_AUTH)
     (map_of (auth_request_header_values q) HEADER_CC_RX) = q"
    by (simp add: auth_request_from_header_values_def auth_request_header_values_def
        )
  show "auth_response_from_header_values
     (map_of (auth_response_header_values r) HEADER_UDP_ENABLED)
     (map_of (auth_response_header_values r) HEADER_CC_RX) =
       (if rx_auto r then r\<lparr>rx_rate := 0\<rparr> else r)"
    by (cases r) (simp add: auth_response_from_header_values_def auth_response_header_values_def
        parse_go_bool_def Let_def)
qed

text \<open>
  A bandwidth header with two plus signs is read as a number although it is malformed: the
  explicit removal of one sign and the sign accepted by the integer parser add up.
\<close>

lemma auth_rx_double_plus:
  "auth_rx (auth_request_from_header_values a (Some (''++'' @ uint_string w))) = w"
proof -
  have ns: "nat_string (unat w) \<noteq> []" by simp
  have le: "unat w \<le> 2 ^ 64 - 1" using unat_less_word [of w] by simp
  have "parse_uint 10 (2 ^ 64 - 1) (CHR ''+'' # nat_string (unat w)) = Some (unat w)"
    using le ns by (simp add: parse_uint_def parse_digits_nat_string)
  then show ?thesis
    by (simp add: auth_request_from_header_values_def strip_prefix_def starts_with_def
        parse_u64_def uint_string_def)
qed

end
