(* ===== verification/Congestion.thy ===== *)
theory Congestion
  imports Complex_Main Prelude
begin

text \<open>
  Congestion control: the Brutal controller and the adaptive wrapper of
  \<open>hysteria-transport/src/congestion.rs\<close>, and the NewReno controller of the vendored
  \<open>quinn-proto/src/congestion/new_reno.rs\<close>, which is one of the two fallbacks the wrapper delegates to. The
  locale \<open>congestion_controller\<close> is the contract of the trait \<open>Controller\<close>. The other fallback, BBR, is an
  argument (a step function and a window over a state of any type).

  \<open>Instant\<close> and \<open>Duration\<close> values are natural numbers of nanoseconds. The control block, which the
  wrapper, Brutal and their clones share by reference, is passed as a separate value. Additions of the
  release build wrap.
\<close>

type_synonym u128 = "128 word"

section \<open>The controller interface\<close>

datatype cc_event =
    Sent nat u64 u64 u64
  | BeginCongestionEvent u64
  | PacketLost u64 u64
  | Acked (ack_now: nat) (ack_sent: nat) (ack_number: u64) (ack_bytes: u64) (ack_in_flight: u64)
      (ack_app_limited: bool) (ack_rtt: nat)
  | EndAcks nat u64 bool "u64 option"
  | CongestionEvent nat nat bool u64 u64 "u64 option" "u64 option"
  | MtuUpdate u16

record controller_metrics =
  congestion_window :: u64
  metrics_ssthresh :: "u64 option"
  pacing_rate :: "u64 option"

section \<open>Brutal\<close>

abbreviation (input) SAMPLE_SLOT_COUNT :: u64 where
  "SAMPLE_SLOT_COUNT \<equiv> 5"

abbreviation (input) MIN_SAMPLE_COUNT :: u64 where
  "MIN_SAMPLE_COUNT \<equiv> 50"

abbreviation (input) MIN_ACK_RATE_NUMERATOR :: u64 where
  "MIN_ACK_RATE_NUMERATOR \<equiv> 4"

abbreviation (input) MIN_ACK_RATE_DENOMINATOR :: u64 where
  "MIN_ACK_RATE_DENOMINATOR \<equiv> 5"

abbreviation (input) CONGESTION_WINDOW_MULTIPLIER :: u128 where
  "CONGESTION_WINDOW_MULTIPLIER \<equiv> 2"

abbreviation (input) INITIAL_WINDOW :: u64 where
  "INITIAL_WINDOW \<equiv> 10240"

record brutal_control =
  bc_enabled :: bool
  bc_bandwidth :: u64
  bc_disable_loss_compensation :: bool

record packet_info =
  pi_timestamp :: "u64 option"
  pi_ack_count :: u64
  pi_loss_count :: u64

record brutal =
  br_origin :: nat
  br_mtu :: u64
  smoothed_rtt :: nat
  slots :: "packet_info list"
  ack_rate_numerator :: u64
  ack_rate_denominator :: u64

abbreviation (input) packet_info_default :: packet_info where
  "packet_info_default \<equiv> \<lparr>pi_timestamp = None, pi_ack_count = 0, pi_loss_count = 0\<rparr>"

definition brutal_new :: "nat \<Rightarrow> u16 \<Rightarrow> brutal" where
  "brutal_new origin mtu =
     \<lparr>br_origin = origin, br_mtu = ucast mtu, smoothed_rtt = 0,
      slots = replicate (unat SAMPLE_SLOT_COUNT) packet_info_default,
      ack_rate_numerator = 1, ack_rate_denominator = 1\<rparr>"

definition window_counts :: "packet_info list \<Rightarrow> u64 \<Rightarrow> u64 \<times> u64" where
  "window_counts infos minimum_timestamp =
     foldl (\<lambda>(ack, loss) info. (saturating_add ack (pi_ack_count info), saturating_add loss (pi_loss_count info)))
       (0, 0)
       (filter (\<lambda>info. case pi_timestamp info of None \<Rightarrow> False | Some t \<Rightarrow> minimum_timestamp \<le> t) infos)"

definition set_ack_rate :: "u64 \<Rightarrow> u64 \<Rightarrow> brutal \<Rightarrow> brutal" where
  "set_ack_rate num den b = b\<lparr>ack_rate_numerator := num, ack_rate_denominator := den\<rparr>"

definition update_ack_rate :: "brutal_control \<Rightarrow> brutal \<Rightarrow> u64 \<Rightarrow> brutal" where
  "update_ack_rate ctl b timestamp =
     (if bc_disable_loss_compensation ctl then set_ack_rate 1 1 b
      else let minimum_timestamp = saturating_sub timestamp SAMPLE_SLOT_COUNT;
               (acknowledgements, losses) = window_counts (slots b) minimum_timestamp;
               samples = saturating_add acknowledgements losses in
           if samples < MIN_SAMPLE_COUNT then set_ack_rate 1 1 b
           else if saturating_mul acknowledgements MIN_ACK_RATE_DENOMINATOR
                   < saturating_mul samples MIN_ACK_RATE_NUMERATOR
           then set_ack_rate MIN_ACK_RATE_NUMERATOR MIN_ACK_RATE_DENOMINATOR b
           else set_ack_rate acknowledgements samples b)"

definition brutal_record :: "brutal_control \<Rightarrow> brutal \<Rightarrow> nat \<Rightarrow> u64 \<Rightarrow> u64 \<Rightarrow> brutal" where
  "brutal_record ctl b now acknowledgements losses =
     (let timestamp = word_of_nat ((now - br_origin b) div 1000000000);
          slot = unat (timestamp mod SAMPLE_SLOT_COUNT);
          info = slots b ! slot;
          info' = (if pi_timestamp info = Some timestamp
                   then info\<lparr>pi_ack_count := saturating_add (pi_ack_count info) acknowledgements,
                             pi_loss_count := saturating_add (pi_loss_count info) losses\<rparr>
                   else \<lparr>pi_timestamp = Some timestamp, pi_ack_count = acknowledgements, pi_loss_count = losses\<rparr>) in
      update_ack_rate ctl (b\<lparr>slots := (slots b)[slot := info']\<rparr>) timestamp)"

definition u64_clamp :: "u128 \<Rightarrow> u64" where
  "u64_clamp x = (case try_from_word x of None \<Rightarrow> - 1 | Some y \<Rightarrow> y)"

definition target_window :: "brutal_control \<Rightarrow> brutal \<Rightarrow> u64" where
  "target_window ctl b =
     (if smoothed_rtt b = 0 then INITIAL_WINDOW
      else let numerator =
                 saturating_mul (saturating_mul (saturating_mul (ucast (bc_bandwidth ctl)) (word_of_nat (smoothed_rtt b)))
                   CONGESTION_WINDOW_MULTIPLIER) (ucast (ack_rate_denominator b));
               denominator = saturating_mul (1000000000 :: u128) (ucast (max (ack_rate_numerator b) 1)) in
           max (u64_clamp (numerator div denominator)) (br_mtu b))"

definition brutal_on_ack :: "brutal_control \<Rightarrow> brutal \<Rightarrow> nat \<Rightarrow> nat \<Rightarrow> brutal" where
  "brutal_on_ack ctl b now rtt = brutal_record ctl (b\<lparr>smoothed_rtt := rtt\<rparr>) now 1 0"

definition brutal_on_congestion_event :: "brutal_control \<Rightarrow> brutal \<Rightarrow> nat \<Rightarrow> u64 \<Rightarrow> brutal" where
  "brutal_on_congestion_event ctl b now lost_packets =
     (if 0 < lost_packets then brutal_record ctl b now 0 lost_packets else b)"

definition brutal_on_mtu_update :: "brutal \<Rightarrow> u16 \<Rightarrow> brutal" where
  "brutal_on_mtu_update b new_mtu = b\<lparr>br_mtu := ucast new_mtu\<rparr>"

definition brutal_metrics :: "brutal_control \<Rightarrow> brutal \<Rightarrow> controller_metrics" where
  "brutal_metrics ctl b =
     (let pacing_bytes_per_second =
            saturating_mul (ucast (bc_bandwidth ctl) :: u128) (ucast (ack_rate_denominator b))
              div ucast (max (ack_rate_numerator b) 1) in
      \<lparr>congestion_window = target_window ctl b, metrics_ssthresh = None,
       pacing_rate = Some (saturating_mul (u64_clamp pacing_bytes_per_second) 8)\<rparr>)"

text \<open>Brutal overrides three handlers of the trait; the others keep the empty default bodies.\<close>

fun brutal_handle :: "brutal_control \<Rightarrow> brutal \<Rightarrow> cc_event \<Rightarrow> brutal" where
  "brutal_handle ctl b (Acked now _ _ _ _ _ rtt) = brutal_on_ack ctl b now rtt"
| "brutal_handle ctl b (CongestionEvent now _ _ _ lost_packets _ _) = brutal_on_congestion_event ctl b now lost_packets"
| "brutal_handle ctl b (MtuUpdate mtu) = brutal_on_mtu_update b mtu"
| "brutal_handle ctl b _ = b"

section \<open>NewReno\<close>

record new_reno =
  nr_initial_window :: u64
  nr_current_mtu :: u64
  nr_window :: u64
  nr_ssthresh :: u64
  nr_recovery_start_time :: nat
  nr_bytes_acked :: u64

abbreviation (input) BASE_DATAGRAM_SIZE :: u64 where
  "BASE_DATAGRAM_SIZE \<equiv> 1200"

definition new_reno_default_initial_window :: u64 where
  "new_reno_default_initial_window = min (max 14720 (2 * BASE_DATAGRAM_SIZE)) (10 * BASE_DATAGRAM_SIZE)"

definition new_reno_new :: "nat \<Rightarrow> u16 \<Rightarrow> new_reno" where
  "new_reno_new now mtu =
     \<lparr>nr_initial_window = new_reno_default_initial_window, nr_current_mtu = ucast mtu,
      nr_window = new_reno_default_initial_window, nr_ssthresh = - 1, nr_recovery_start_time = now,
      nr_bytes_acked = 0\<rparr>"

abbreviation (input) minimum_window :: "new_reno \<Rightarrow> u64" where
  "minimum_window s \<equiv> 2 * nr_current_mtu s"

text \<open>
  \<open>(window as f32 * 0.5) as u64\<close>: the conversion rounds to 24 significant bits, ties to even; halving
  is exact and the conversion back truncates.
\<close>

fun bit_length :: "nat \<Rightarrow> nat" where
  "bit_length n = (if n = 0 then 0 else Suc (bit_length (n div 2)))"

declare bit_length.simps [simp del]

definition f32_round :: "nat \<Rightarrow> nat" where
  "f32_round n =
     (let e = bit_length n - 24; q = n div 2 ^ e; r = n mod 2 ^ e in
      if 2 ^ e < 2 * r \<or> (2 * r = 2 ^ e \<and> e \<noteq> 0 \<and> odd q) then (q + 1) * 2 ^ e else q * 2 ^ e)"

abbreviation (input) halve_f32 :: "u64 \<Rightarrow> u64" where
  "halve_f32 w \<equiv> word_of_nat (f32_round (unat w) div 2)"

definition new_reno_on_ack :: "new_reno \<Rightarrow> nat \<Rightarrow> u64 \<Rightarrow> bool \<Rightarrow> new_reno" where
  "new_reno_on_ack s sent bytes app_limited =
     (if app_limited \<or> sent \<le> nr_recovery_start_time s then s
      else if nr_window s < nr_ssthresh s then
        let s1 = s\<lparr>nr_window := nr_window s + bytes\<rparr> in
        if nr_ssthresh s1 \<le> nr_window s1 then s1\<lparr>nr_bytes_acked := nr_window s1 - nr_ssthresh s1\<rparr> else s1
      else
        let s1 = s\<lparr>nr_bytes_acked := nr_bytes_acked s + bytes\<rparr> in
        if nr_window s1 \<le> nr_bytes_acked s1
        then s1\<lparr>nr_bytes_acked := nr_bytes_acked s1 - nr_window s1, nr_window := nr_window s1 + nr_current_mtu s1\<rparr>
        else s1)"

definition new_reno_on_congestion_event :: "new_reno \<Rightarrow> nat \<Rightarrow> nat \<Rightarrow> bool \<Rightarrow> new_reno" where
  "new_reno_on_congestion_event s now sent persistent =
     (if sent \<le> nr_recovery_start_time s then s
      else let w = max (halve_f32 (nr_window s)) (minimum_window s);
               s1 = s\<lparr>nr_recovery_start_time := now, nr_window := w, nr_ssthresh := w\<rparr> in
           if persistent then s1\<lparr>nr_window := minimum_window s1\<rparr> else s1)"

definition new_reno_on_mtu_update :: "new_reno \<Rightarrow> u16 \<Rightarrow> new_reno" where
  "new_reno_on_mtu_update s new_mtu =
     (let s1 = s\<lparr>nr_current_mtu := ucast new_mtu\<rparr> in s1\<lparr>nr_window := max (nr_window s1) (minimum_window s1)\<rparr>)"

abbreviation (input) new_reno_metrics :: "new_reno \<Rightarrow> controller_metrics" where
  "new_reno_metrics s \<equiv> \<lparr>congestion_window = nr_window s, metrics_ssthresh = Some (nr_ssthresh s), pacing_rate = None\<rparr>"

fun new_reno_handle :: "new_reno \<Rightarrow> cc_event \<Rightarrow> new_reno" where
  "new_reno_handle s (Acked _ sent _ bytes _ app_limited _) = new_reno_on_ack s sent bytes app_limited"
| "new_reno_handle s (CongestionEvent now sent persistent _ _ _ _) = new_reno_on_congestion_event s now sent persistent"
| "new_reno_handle s (MtuUpdate mtu) = new_reno_on_mtu_update s mtu"
| "new_reno_handle s _ = s"

section \<open>The adaptive wrapper\<close>

datatype bbr_profile = Conservative | Standard | Aggressive

datatype congestion_algorithm = Bbr bbr_profile | Reno

record congestion_settings =
  cs_algorithm :: congestion_algorithm
  cs_disable_loss_compensation :: bool

abbreviation (input) congestion_settings_default :: congestion_settings where
  "congestion_settings_default \<equiv> \<lparr>cs_algorithm = Bbr Standard, cs_disable_loss_compensation = False\<rparr>"

text \<open>The settings the factory gives to the BBR controller, which is built outside the wrapper.\<close>

record bbr_config =
  bbr_initial_window :: u64
  high_gain :: rat
  high_cwnd_gain :: rat
  congestion_window_gain :: rat
  startup_rounds_without_growth :: nat
  drain_to_target :: bool
  enable_ack_aggregation_during_startup :: bool
  expire_ack_aggregation_in_startup :: bool
  detect_overshooting :: bool
  bytes_lost_multiplier :: nat
  enable_overestimate_avoidance :: bool
  reduce_extra_acked_on_bandwidth_increase :: bool

definition bbr_config_for :: "bbr_profile \<Rightarrow> u16 \<Rightarrow> bbr_config" where
  "bbr_config_for profile mtu =
     (let initial = ucast mtu * 32 in
      case profile of
        Conservative \<Rightarrow>
          \<lparr>bbr_initial_window = initial, high_gain = 225 / 100, high_cwnd_gain = 175 / 100,
           congestion_window_gain = 175 / 100, startup_rounds_without_growth = 2, drain_to_target = True,
           enable_ack_aggregation_during_startup = False, expire_ack_aggregation_in_startup = False,
           detect_overshooting = True, bytes_lost_multiplier = 1, enable_overestimate_avoidance = True,
           reduce_extra_acked_on_bandwidth_increase = True\<rparr>
      | Standard \<Rightarrow>
          \<lparr>bbr_initial_window = initial, high_gain = 2885 / 1000, high_cwnd_gain = 2,
           congestion_window_gain = 2, startup_rounds_without_growth = 3, drain_to_target = False,
           enable_ack_aggregation_during_startup = False, expire_ack_aggregation_in_startup = False,
           detect_overshooting = False, bytes_lost_multiplier = 2, enable_overestimate_avoidance = False,
           reduce_extra_acked_on_bandwidth_increase = False\<rparr>
      | Aggressive \<Rightarrow>
          \<lparr>bbr_initial_window = initial, high_gain = 3, high_cwnd_gain = 225 / 100,
           congestion_window_gain = 25 / 10, startup_rounds_without_growth = 4, drain_to_target = False,
           enable_ack_aggregation_during_startup = True, expire_ack_aggregation_in_startup = True,
           detect_overshooting = False, bytes_lost_multiplier = 2, enable_overestimate_avoidance = False,
           reduce_extra_acked_on_bandwidth_increase = False\<rparr>)"

record 'f adaptive_congestion =
  ad_control :: brutal_control
  ad_brutal :: brutal
  ad_fallback :: 'f

definition adaptive_build ::
  "(bbr_config \<Rightarrow> nat \<Rightarrow> u16 \<Rightarrow> 'f) \<Rightarrow> (nat \<Rightarrow> u16 \<Rightarrow> 'f) \<Rightarrow> congestion_settings \<Rightarrow> nat \<Rightarrow> u16 \<Rightarrow>
     'f adaptive_congestion" where
  "adaptive_build build_bbr build_reno settings now current_mtu =
     (let fallback = (case cs_algorithm settings of
                        Bbr profile \<Rightarrow> build_bbr (bbr_config_for profile current_mtu) now current_mtu
                      | Reno \<Rightarrow> build_reno now current_mtu);
          control = \<lparr>bc_enabled = False, bc_bandwidth = 0,
                     bc_disable_loss_compensation = cs_disable_loss_compensation settings\<rparr> in
      \<lparr>ad_control = control, ad_brutal = brutal_new now current_mtu, ad_fallback = fallback\<rparr>)"

datatype bandwidth_error = ZeroBandwidth

definition set_brutal_bandwidth ::
  "'f adaptive_congestion \<Rightarrow> u64 \<Rightarrow> bandwidth_error + 'f adaptive_congestion" where
  "set_brutal_bandwidth a bytes_per_second =
     (if bytes_per_second = 0 then Inl ZeroBandwidth
      else Inr (a\<lparr>ad_control := (ad_control a)\<lparr>bc_bandwidth := bytes_per_second, bc_enabled := True\<rparr>\<rparr>))"

abbreviation (input) brutal_enabled :: "'f adaptive_congestion \<Rightarrow> bool" where
  "brutal_enabled a \<equiv> bc_enabled (ad_control a)"

definition to_brutal :: "cc_event \<Rightarrow> 'f adaptive_congestion \<Rightarrow> 'f adaptive_congestion" where
  "to_brutal e a = a\<lparr>ad_brutal := brutal_handle (ad_control a) (ad_brutal a) e\<rparr>"

definition to_fallback :: "('f \<Rightarrow> cc_event \<Rightarrow> 'f) \<Rightarrow> cc_event \<Rightarrow> 'f adaptive_congestion \<Rightarrow> 'f adaptive_congestion" where
  "to_fallback fb e a = a\<lparr>ad_fallback := fb (ad_fallback a) e\<rparr>"

fun adaptive_handle ::
  "('f \<Rightarrow> cc_event \<Rightarrow> 'f) \<Rightarrow> 'f adaptive_congestion \<Rightarrow> cc_event \<Rightarrow> 'f adaptive_congestion" where
  "adaptive_handle fb a (PacketLost n bytes) = to_fallback fb (PacketLost n bytes) (to_brutal (PacketLost n bytes) a)"
| "adaptive_handle fb a (MtuUpdate mtu) = to_fallback fb (MtuUpdate mtu) (to_brutal (MtuUpdate mtu) a)"
| "adaptive_handle fb a e = (if brutal_enabled a then to_brutal e a else to_fallback fb e a)"

definition adaptive_window :: "('f \<Rightarrow> u64) \<Rightarrow> 'f adaptive_congestion \<Rightarrow> u64" where
  "adaptive_window fb_window a =
     (if brutal_enabled a then target_window (ad_control a) (ad_brutal a) else fb_window (ad_fallback a))"

abbreviation (input) adaptive_metrics :: "('f \<Rightarrow> controller_metrics) \<Rightarrow> 'f adaptive_congestion \<Rightarrow> controller_metrics" where
  "adaptive_metrics fb_metrics a \<equiv> (if brutal_enabled a then brutal_metrics (ad_control a) (ad_brutal a) else fb_metrics (ad_fallback a))"

abbreviation (input) adaptive_initial_window :: "('f \<Rightarrow> u64) \<Rightarrow> 'f adaptive_congestion \<Rightarrow> u64" where
  "adaptive_initial_window fb_initial a \<equiv> fb_initial (ad_fallback a)"

text \<open>Controller events mixed with switches of the bandwidth.\<close>

datatype ad_event = Cc cc_event | SetBandwidth u64

fun adaptive_step :: "('f \<Rightarrow> cc_event \<Rightarrow> 'f) \<Rightarrow> 'f adaptive_congestion \<Rightarrow> ad_event \<Rightarrow> 'f adaptive_congestion" where
  "adaptive_step fb a (Cc e) = adaptive_handle fb a e"
| "adaptive_step fb a (SetBandwidth b) = (case set_brutal_bandwidth a b of Inl _ \<Rightarrow> a | Inr a' \<Rightarrow> a')"

section \<open>The contract of a controller\<close>

primrec admissible_run :: "('s \<Rightarrow> 'e \<Rightarrow> bool) \<Rightarrow> ('s \<Rightarrow> 'e \<Rightarrow> 's) \<Rightarrow> 's \<Rightarrow> 'e list \<Rightarrow> bool" where
  "admissible_run adm step s [] = True"
| "admissible_run adm step s (e # es) = (adm s e \<and> admissible_run adm step (step s e) es)"

fun mtu_ok :: "cc_event \<Rightarrow> bool" where
  "mtu_ok (MtuUpdate mtu) = (0 < mtu)"
| "mtu_ok _ = True"

fun reaches_both :: "cc_event \<Rightarrow> bool" where
  "reaches_both (PacketLost _ _) = True"
| "reaches_both (MtuUpdate _) = True"
| "reaches_both _ = False"

text \<open>
  What a connection needs of its controller: whatever is reported to it, as long as the reports are
  admissible, the window stays positive, so that the connection can go on sending.
\<close>

fun ad_admissible :: "('f \<Rightarrow> cc_event \<Rightarrow> bool) \<Rightarrow> 'f adaptive_congestion \<Rightarrow> ad_event \<Rightarrow> bool" where
  "ad_admissible adm a (Cc e) = (mtu_ok e \<and> (adm (ad_fallback a) e \<or> (brutal_enabled a \<and> \<not> reaches_both e)))"
| "ad_admissible adm a (SetBandwidth b) = True"

lemma adaptive_handle_eq:
  "adaptive_handle fb a e =
     (if reaches_both e then to_fallback fb e (to_brutal e a)
      else if brutal_enabled a then to_brutal e a else to_fallback fb e a)"
  by (cases e) simp_all

lemma ucast_u16_pos: "0 < mtu \<Longrightarrow> 0 < (ucast (mtu :: u16) :: u64)"
  by (simp add: word_less_nat_alt unat_ucast_up)

lemma br_mtu_record [simp]: "br_mtu (brutal_record ctl b now n m) = br_mtu b"
  by (simp add: brutal_record_def update_ack_rate_def set_ack_rate_def Let_def split_beta)

lemma br_mtu_handle: "0 < br_mtu b \<Longrightarrow> mtu_ok e \<Longrightarrow> 0 < br_mtu (brutal_handle ctl b e)"
  by (cases e) (simp_all add: brutal_on_ack_def brutal_on_congestion_event_def brutal_on_mtu_update_def ucast_u16_pos)

lemma target_window_ge: "smoothed_rtt b = 0 \<or> br_mtu b \<le> target_window ctl b"
  by (simp add: target_window_def Let_def)

lemma target_window_pos: "0 < br_mtu b \<Longrightarrow> 0 < target_window ctl b"
proof (cases "smoothed_rtt b = 0")
  case True
  then show ?thesis by (simp add: target_window_def )
next
  case False
  moreover assume "0 < br_mtu b"
  ultimately show ?thesis using target_window_ge [of b ctl] by auto
qed

locale congestion_controller =
  fixes handle :: "'s \<Rightarrow> cc_event \<Rightarrow> 's"
    and window :: "'s \<Rightarrow> u64"
    and inv :: "'s \<Rightarrow> bool"
    and admissible :: "'s \<Rightarrow> cc_event \<Rightarrow> bool"
  assumes inv_handle: "inv s \<Longrightarrow> admissible s e \<Longrightarrow> inv (handle s e)"
    and window_pos: "inv s \<Longrightarrow> 0 < window s"
begin

lemma window_pos_run:
  "inv s \<Longrightarrow> admissible_run admissible handle s es \<Longrightarrow> 0 < window (foldl handle s es)"
  by (induction es arbitrary: s) (auto simp: window_pos inv_handle)

lemma adaptive_inv_step:
  "inv (ad_fallback a) \<and> 0 < br_mtu (ad_brutal a) \<Longrightarrow> ad_admissible admissible a e \<Longrightarrow>
   inv (ad_fallback (adaptive_step handle a e)) \<and> 0 < br_mtu (ad_brutal (adaptive_step handle a e))"
  by (cases e)
    (auto simp: adaptive_handle_eq to_brutal_def to_fallback_def set_brutal_bandwidth_def inv_handle br_mtu_handle)

lemma adaptive_window_pos:
  "inv (ad_fallback a) \<Longrightarrow> 0 < br_mtu (ad_brutal a) \<Longrightarrow>
   admissible_run (ad_admissible admissible) (adaptive_step handle) a es \<Longrightarrow>
   0 < adaptive_window window (foldl (adaptive_step handle) a es)"
proof (induction es arbitrary: a)
  case Nil
  then show ?case by (simp add: adaptive_window_def window_pos target_window_pos)
next
  case (Cons e es)
  then show ?case using adaptive_inv_step [of a e] by simp
qed

end

interpretation brutal_cc: congestion_controller "brutal_handle ctl" "target_window ctl"
  "\<lambda>b. 0 < br_mtu b" "\<lambda>b e. mtu_ok e" for ctl
  by unfold_locales (simp_all add: br_mtu_handle target_window_pos)

subsection \<open>NewReno meets it while its counters do not overflow\<close>

definition new_reno_inv :: "new_reno \<Rightarrow> bool" where
  "new_reno_inv s \<longleftrightarrow> 0 < unat (nr_current_mtu s) \<and> unat (nr_current_mtu s) < 2 ^ 16 \<and> 0 < nr_window s"

fun new_reno_admissible :: "new_reno \<Rightarrow> cc_event \<Rightarrow> bool" where
  "new_reno_admissible s (Acked _ _ _ bytes _ _ _) =
     (unat (nr_window s) + unat bytes < 2 ^ 64 \<and> unat (nr_window s) + unat (nr_current_mtu s) < 2 ^ 64)"
| "new_reno_admissible s e = mtu_ok e"

lemma unat_add_small: "unat x + unat y < 2 ^ 64 \<Longrightarrow> unat (x + y :: u64) = unat x + unat y"
  by (simp add: unat_word_ariths)

lemma minimum_window_pos: "new_reno_inv s \<Longrightarrow> 0 < minimum_window s"
  by (simp add: new_reno_inv_def word_less_nat_alt unat_word_ariths)

lemma new_reno_on_ack_inv:
  assumes "new_reno_inv s" and "unat (nr_window s) + unat bytes < 2 ^ 64"
    and "unat (nr_window s) + unat (nr_current_mtu s) < 2 ^ 64"
  shows "new_reno_inv (new_reno_on_ack s sent bytes app_limited)"
proof -
  have w: "0 < unat (nr_window s)" using assms(1) by (simp add: new_reno_inv_def word_less_nat_alt)
  have "0 < nr_window s + bytes" "0 < nr_window s + nr_current_mtu s"
    unfolding word_less_nat_alt using w unat_add_small [OF assms(2)] unat_add_small [OF assms(3)] by simp_all
  then show ?thesis using assms(1) by (simp add: new_reno_on_ack_def new_reno_inv_def Let_def)
qed

lemma max_pos_word: "0 < (b :: u64) \<Longrightarrow> 0 < max a b"
  by (simp add: less_max_iff_disj)

lemma new_reno_on_congestion_event_inv:
  assumes "new_reno_inv s"
  shows "new_reno_inv (new_reno_on_congestion_event s now sent persistent)"
proof -
  have "0 < max (halve_f32 (nr_window s)) (minimum_window s)"
    by (rule max_pos_word) (rule minimum_window_pos [OF assms])
  then show ?thesis
    using assms minimum_window_pos [OF assms]
    by (simp add: new_reno_on_congestion_event_def new_reno_inv_def Let_def )
qed

lemma new_reno_on_mtu_update_inv:
  assumes "new_reno_inv s" and "0 < mtu"
  shows "new_reno_inv (new_reno_on_mtu_update s mtu)"
proof -
  have "0 < nr_window s" using assms by (simp add: new_reno_inv_def)
  then have "0 < max (nr_window s) w" for w by (simp add: less_max_iff_disj)
  moreover have "unat (ucast mtu :: u64) = unat mtu" by (rule unat_ucast_up) simp
  moreover have "unat mtu < 2 ^ 16" using unat_less_word [of mtu] by simp
  ultimately show ?thesis
    using assms by (simp add: new_reno_on_mtu_update_def new_reno_inv_def Let_def word_less_nat_alt)
qed

lemma new_reno_handle_inv:
  "new_reno_inv s \<Longrightarrow> new_reno_admissible s e \<Longrightarrow> new_reno_inv (new_reno_handle s e)"
  by (cases e) (simp_all add: new_reno_on_ack_inv new_reno_on_congestion_event_inv new_reno_on_mtu_update_inv)

interpretation reno_cc: congestion_controller new_reno_handle nr_window new_reno_inv new_reno_admissible
  by unfold_locales (rule new_reno_handle_inv, simp_all add: new_reno_inv_def)

section \<open>The compensation of losses\<close>

definition rate_ok :: "brutal \<Rightarrow> bool" where
  "rate_ok b \<longleftrightarrow> 0 < ack_rate_numerator b \<and> ack_rate_numerator b \<le> ack_rate_denominator b"

lemma rate_ok_set: "0 < n \<Longrightarrow> n \<le> d \<Longrightarrow> rate_ok (set_ack_rate n d b)"
  by (simp add: rate_ok_def set_ack_rate_def)

lemma saturating_add_ge: "x \<le> saturating_add x (y :: 'a::len word)"
  unfolding word_le_nat_alt unat_saturating_add using unat_le_max [of x] by simp

lemma rate_ok_update [inv_intros]: "rate_ok (update_ack_rate ctl b t)"
proof -
  obtain ack loss where c: "window_counts (slots b) (saturating_sub t SAMPLE_SLOT_COUNT) = (ack, loss)"
    by (cases "window_counts (slots b) (saturating_sub t SAMPLE_SLOT_COUNT)")
  define n where "n = saturating_add ack loss"
  have "0 < ack" if "\<not> n < MIN_SAMPLE_COUNT"
    "\<not> saturating_mul ack MIN_ACK_RATE_DENOMINATOR < saturating_mul n MIN_ACK_RATE_NUMERATOR"
  proof (rule ccontr)
    assume "\<not> 0 < ack"
    then have "ack = 0" by (simp add: word_neq_0_conv [symmetric])
    then show False
      using that by (simp add: word_less_nat_alt unat_saturating_mul           not_less)
  qed
  moreover have "ack \<le> n" unfolding n_def by (rule saturating_add_ge)
  moreover have "rate_ok (set_ack_rate 1 1 b)" "rate_ok (set_ack_rate MIN_ACK_RATE_NUMERATOR MIN_ACK_RATE_DENOMINATOR b)"
    by (simp_all add: rate_ok_def set_ack_rate_def         word_less_nat_alt word_le_nat_alt)
  ultimately show ?thesis
    by (simp add: update_ack_rate_def c n_def [symmetric] rate_ok_set)
qed

lemma rate_ok_record [inv_intros]: "rate_ok (brutal_record ctl b now n m)"
  by (simp add: brutal_record_def Let_def rate_ok_update)

lemma rate_ok_mtu [inv_intros]: "rate_ok b \<Longrightarrow> rate_ok (brutal_on_mtu_update b mtu)"
  by (simp add: brutal_on_mtu_update_def rate_ok_def)

lemma rate_ok_handle [inv_intros]: "rate_ok b \<Longrightarrow> rate_ok (brutal_handle ctl b e)"
  by (cases e) (simp_all add: brutal_on_ack_def brutal_on_congestion_event_def inv_intros)

interpretation brutal_rate: step_invariant "brutal_handle ctl" rate_ok for ctl
  by unfold_locales (rule rate_ok_handle)

definition slot_samples :: "packet_info list \<Rightarrow> nat" where
  "slot_samples infos = sum_list (map (\<lambda>i. unat (pi_ack_count i) + unat (pi_loss_count i)) infos)"

lemma slot_samples_filter: "slot_samples (filter P infos) \<le> slot_samples infos"
  by (induction infos) (simp_all add: slot_samples_def)

lemma slot_samples_update:
  "i < length infos \<Longrightarrow>
     slot_samples (infos[i := v]) \<le> slot_samples infos + (unat (pi_ack_count v) + unat (pi_loss_count v))"
proof (induction infos arbitrary: i)
  case Nil
  then show ?case by simp
next
  case (Cons x infos)
  then show ?case using Cons.IH [of "i - 1"] by (cases i) (simp_all add: slot_samples_def)
qed

lemma first_record_samples:
  "slot_samples (slots (brutal_record ctl (brutal_new origin mtu) now n m)) \<le> unat n + unat m"
proof -
  define t :: u64 where "t = word_of_nat ((now - origin) div 1000000000)"
  have i: "unat (t mod SAMPLE_SLOT_COUNT) < unat SAMPLE_SLOT_COUNT"
    by (simp add: unat_mod )
  have "slots (brutal_record ctl (brutal_new origin mtu) now n m) =
      (replicate (unat SAMPLE_SLOT_COUNT) packet_info_default)
        [unat (t mod SAMPLE_SLOT_COUNT) := \<lparr>pi_timestamp = Some t, pi_ack_count = n, pi_loss_count = m\<rparr>]"
    using i by (simp add: brutal_record_def update_ack_rate_def set_ack_rate_def brutal_new_def Let_def
        split_beta t_def [symmetric])
  moreover have "slot_samples (replicate k packet_info_default) = 0" for k
    by (induction k) (simp_all add: slot_samples_def )
  ultimately show ?thesis
    using slot_samples_update [of "unat (t mod SAMPLE_SLOT_COUNT)" "replicate (unat SAMPLE_SLOT_COUNT) packet_info_default"
        "\<lparr>pi_timestamp = Some t, pi_ack_count = n, pi_loss_count = m\<rparr>"] i
    by simp
qed

lemma window_counts_foldl:
  fixes ack loss :: u64
  shows "foldl (\<lambda>(ack, loss) info. (saturating_add ack (pi_ack_count info), saturating_add loss (pi_loss_count info)))
       (ack, loss) infos = (ack', loss') \<Longrightarrow>
     unat ack' + unat loss' \<le> unat ack + unat loss + slot_samples infos"
proof (induction infos arbitrary: ack loss)
  case Nil
  then show ?case by (simp add: slot_samples_def)
next
  case (Cons i infos)
  then show ?case
    using Cons.IH [of "saturating_add ack (pi_ack_count i)" "saturating_add loss (pi_loss_count i)"]
    by (simp add: unat_saturating_add slot_samples_def)
qed

lemma window_counts_le:
  "window_counts infos t = (ack, loss) \<Longrightarrow> unat ack + unat loss \<le> slot_samples infos"
  unfolding window_counts_def
  by (rule order_trans [OF _ slot_samples_filter]) (drule window_counts_foldl, simp)

lemma update_rate_bound:
  assumes "slot_samples (slots b) < 2 ^ 61"
  shows "4 * unat (ack_rate_denominator (update_ack_rate ctl b t)) \<le> 5 * unat (ack_rate_numerator (update_ack_rate ctl b t))"
proof -
  obtain ack loss where c: "window_counts (slots b) (saturating_sub t SAMPLE_SLOT_COUNT) = (ack, loss)"
    by (cases "window_counts (slots b) (saturating_sub t SAMPLE_SLOT_COUNT)")
  define n where "n = saturating_add ack loss"
  have le: "unat ack + unat loss < 2 ^ 61" using window_counts_le [OF c] assms by simp
  then have n: "unat n = unat ack + unat loss" by (simp add: n_def unat_saturating_add)
  have "4 * unat n \<le> 5 * unat ack"
    if "\<not> saturating_mul ack MIN_ACK_RATE_DENOMINATOR < saturating_mul n MIN_ACK_RATE_NUMERATOR"
    using that le n
    by (simp add: word_less_nat_alt unat_saturating_mul )
  then show ?thesis
    by (simp add: update_ack_rate_def c n_def [symmetric] set_ack_rate_def         )
qed

lemma unat_u64_clamp: "unat (u64_clamp x) = min (unat x) (2 ^ 64 - 1)"
proof (cases "unat x < 2 ^ 64")
  case True
  then have "unat (ucast x :: u64) = unat x" by (simp add: unsigned_ucast_eq take_bit_nat_eq_self)
  with True show ?thesis by (simp add: u64_clamp_def try_from_word_def)
next
  case False
  then show ?thesis by (simp add: u64_clamp_def try_from_word_def unat_max_word)
qed

lemma pacing_rate_eq:
  assumes "rate_ok b"
  shows "pacing_rate (brutal_metrics ctl b) = Some p \<longleftrightarrow>
    unat p = min (8 * (unat (bc_bandwidth ctl) * unat (ack_rate_denominator b) div unat (ack_rate_numerator b))) (2 ^ 64 - 1)"
proof -
  let ?bw = "bc_bandwidth ctl" and ?n = "ack_rate_numerator b" and ?d = "ack_rate_denominator b"
  have up: "unat (ucast w :: u128) = unat w" for w :: u64 by (rule unat_ucast_up) simp
  have "unat ?bw * unat ?d < 2 ^ 64 * 2 ^ 64"
    using unat_less_word [of ?bw] unat_less_word [of ?d] by (intro mult_strict_mono) simp_all
  then have "unat ?bw * unat ?d \<le> 2 ^ 128 - 1" by simp
  moreover have "1 \<le> ?n" using assms by (simp add: rate_ok_def word_le_nat_alt word_less_nat_alt)
  then have "max ?n 1 = ?n" by (rule max_absorb1)
  ultimately have "unat (saturating_mul (ucast ?bw :: u128) (ucast ?d) div ucast (max ?n 1)) =
      unat ?bw * unat ?d div unat ?n"
    by (simp add: unat_div unat_saturating_mul up)
  then have "pacing_rate (brutal_metrics ctl b) = Some q \<Longrightarrow>
      unat q = min (8 * (unat ?bw * unat ?d div unat ?n)) (2 ^ 64 - 1)" for q
    by (auto simp: brutal_metrics_def Let_def unat_saturating_mul unat_u64_clamp)
  moreover obtain q where "pacing_rate (brutal_metrics ctl b) = Some q"
    by (simp add: brutal_metrics_def Let_def)
  ultimately show ?thesis by (metis option.inject unsigned_word_eqI)
qed

lemma compensated_bounds:
  fixes bw n d :: nat
  assumes "0 < n" and "n \<le> d" and "4 * d \<le> 5 * n"
  shows "bw \<le> bw * d div n" and "4 * (bw * d div n) \<le> 5 * bw"
proof -
  have "bw * n \<le> bw * d" using assms(2) by simp
  then show "bw \<le> bw * d div n" using assms(1) by (simp add: less_eq_div_iff_mult_less_eq)
  have "4 * (bw * d div n) * n \<le> 4 * (bw * d)" by (simp add: mult.assoc)
  also have "\<dots> = bw * (4 * d)" by simp
  also have "\<dots> \<le> bw * (5 * n)" using assms(3) by (intro mult_left_mono) simp_all
  finally have "4 * (bw * d div n) * n \<le> 5 * bw * n" by (simp add: mult.assoc mult.left_commute)
  then show "4 * (bw * d div n) \<le> 5 * bw" using assms(1) by simp
qed

section \<open>Properties\<close>

text \<open>
  C34: After any sequence of events the acknowledgement rate Brutal divides by is a fraction between
  zero (excluded) and one, so no division by zero and no negative compensation occurs, and once a round
  trip time is known the window is at least one datagram.
\<close>

theorem brutal_rate_sane:
  "let b = foldl (brutal_handle ctl) (brutal_new origin mtu) events in
   0 < ack_rate_numerator b \<and> ack_rate_numerator b \<le> ack_rate_denominator b \<and>
   (smoothed_rtt b = 0 \<or> br_mtu b \<le> target_window ctl b)"
proof -
  have "rate_ok (brutal_new origin mtu)" by (simp add: rate_ok_def brutal_new_def)
  then have "rate_ok (foldl (brutal_handle ctl) (brutal_new origin mtu) events)"
    by (rule brutal_rate.inv_run)
  then show ?thesis using target_window_ge by (simp add: rate_ok_def Let_def)
qed

text \<open>
  While fewer than \<open>2 ^ 61\<close> packets are counted in the sample slots, the pacing rate after a sample,
  in bits per second, is at least the configured bandwidth and at most five quarters of it.
\<close>

lemma brutal_pacing_bounds:
  assumes "slot_samples (slots (brutal_record ctl b now acks losses)) < 2 ^ 61"
  shows "\<exists>p. pacing_rate (brutal_metrics ctl (brutal_record ctl b now acks losses)) = Some p \<and>
     min (8 * unat (bc_bandwidth ctl)) (2 ^ 64 - 1) \<le> unat p \<and> unat p \<le> 10 * unat (bc_bandwidth ctl)"
proof -
  define b' where "b' = brutal_record ctl b now acks losses"
  let ?n = "unat (ack_rate_numerator b')" and ?d = "unat (ack_rate_denominator b')"
    and ?bw = "unat (bc_bandwidth ctl)"
  obtain b1 t where b1: "b' = update_ack_rate ctl b1 t"
    by (auto simp: b'_def brutal_record_def Let_def)
  have "slots b' = slots b1"
    by (simp add: b1 update_ack_rate_def set_ack_rate_def Let_def split_beta)
  then have four: "4 * ?d \<le> 5 * ?n" using assms update_rate_bound [of b1 ctl t] b1 b'_def by simp
  have ok: "rate_ok b'" unfolding b1 by (rule rate_ok_update)
  then have "0 < ?n" "?n \<le> ?d" by (simp_all add: rate_ok_def word_less_nat_alt word_le_nat_alt)
  note bounds = compensated_bounds [OF this four, of ?bw]
  obtain p where p: "pacing_rate (brutal_metrics ctl b') = Some p"
    by (simp add: brutal_metrics_def Let_def)
  then have "unat p = min (8 * (?bw * ?d div ?n)) (2 ^ 64 - 1)" using pacing_rate_eq [OF ok] by simp
  then have "min (8 * ?bw) (2 ^ 64 - 1) \<le> unat p \<and> unat p \<le> 10 * ?bw" using bounds by linarith
  then show ?thesis using p by (auto simp: b'_def)
qed

text \<open>
  The adaptive controller delegates exactly: until a bandwidth is set the fallback sees every
  event and Brutal only losses of tracked packets and changes of the MTU; afterwards Brutal sees every
  event and the fallback only those two kinds.
\<close>

lemma adaptive_delegation:
  "let a' = foldl (adaptive_handle fb) a events in
   ad_control a' = ad_control a \<and>
   ad_fallback a' = foldl fb (ad_fallback a) (if brutal_enabled a then filter reaches_both events else events) \<and>
   ad_brutal a' = foldl (brutal_handle (ad_control a)) (ad_brutal a)
     (if brutal_enabled a then events else filter reaches_both events)"
proof (induction events arbitrary: a)
  case Nil
  show ?case by simp
next
  case (Cons e events)
  then show ?case
    by (simp add: Let_def adaptive_handle_eq to_brutal_def to_fallback_def )
qed

text \<open>
  With NewReno as the fallback, whatever admissible events are reported (nonzero MTUs, no
  overflow of its byte counters) and whenever Brutal is switched on, the window of the adaptive
  controller is positive.
\<close>

lemma adaptive_window_positive:
  assumes "cs_algorithm settings = Reno" and "0 < mtu"
    and "admissible_run (ad_admissible new_reno_admissible) (adaptive_step new_reno_handle)
           (adaptive_build build_bbr new_reno_new settings now mtu) events"
  shows "0 < adaptive_window nr_window
     (foldl (adaptive_step new_reno_handle) (adaptive_build build_bbr new_reno_new settings now mtu) events)"
proof (rule reno_cc.adaptive_window_pos [OF _ _ assms(3)])
  have m: "unat (ucast mtu :: u64) = unat mtu" by (rule unat_ucast_up) simp
  have "unat mtu < 2 ^ 16" using unat_less_word [of mtu] by simp
  then show "new_reno_inv (ad_fallback (adaptive_build build_bbr new_reno_new settings now mtu))"
    using assms(1,2) m
    by (simp add: adaptive_build_def Let_def new_reno_inv_def new_reno_new_def word_less_nat_alt
        new_reno_default_initial_window_def )
  show "0 < br_mtu (ad_brutal (adaptive_build build_bbr new_reno_new settings now mtu))"
    using assms(2) by (simp add: adaptive_build_def Let_def brutal_new_def ucast_u16_pos)
qed

end
