(* ===== verification/Salamander.thy ===== *)
theory Salamander
  imports Rust_Std
begin

text \<open>
  The Salamander obfuscator of \<open>hysteria-obfs/src/salamander.rs\<close>: a random salt followed by the payload
  XORed with a hash of password and salt. BLAKE2b is a parameter: \<open>blake n input\<close> is the digest of
  \<open>n\<close> bytes of the input fed to the hasher. The locale \<open>packet_codec\<close> is what its clients (Gecko and the
  obfuscated sockets) rely on.
\<close>

section \<open>Definitions\<close>

definition SALT_LENGTH :: usize where
  "SALT_LENGTH = 8"

abbreviation (input) KEY_LENGTH :: usize where
  "KEY_LENGTH \<equiv> 32"

abbreviation (input) MIN_PASSWORD_LENGTH :: usize where
  "MIN_PASSWORD_LENGTH \<equiv> 4"

datatype salamander_error = PasswordTooShort | PacketTooShort

record salamander =
  password :: bytes

definition salamander_new :: "bytes \<Rightarrow> salamander_error + salamander" where
  "salamander_new pw =
     (if length pw < MIN_PASSWORD_LENGTH then Inl PasswordTooShort else Inr \<lparr>password = pw\<rparr>)"

abbreviation (input) packet_key :: "(nat \<Rightarrow> bytes \<Rightarrow> bytes) \<Rightarrow> salamander \<Rightarrow> bytes \<Rightarrow> bytes" where
  "packet_key blake s salt \<equiv> blake KEY_LENGTH (password s @ salt)"

definition obfuscate :: "(nat \<Rightarrow> bytes \<Rightarrow> bytes) \<Rightarrow> salamander \<Rightarrow> bytes \<Rightarrow> bytes \<Rightarrow> bytes" where
  "obfuscate blake s payload salt = salt @ xor_stream (packet_key blake s salt) KEY_LENGTH payload"

definition deobfuscate ::
  "(nat \<Rightarrow> bytes \<Rightarrow> bytes) \<Rightarrow> salamander \<Rightarrow> bytes \<Rightarrow> salamander_error + bytes" where
  "deobfuscate blake s packet =
     (if length packet \<le> SALT_LENGTH then Inl PacketTooShort
      else let salt = take SALT_LENGTH packet; payload = drop SALT_LENGTH packet in
           Inr (xor_stream (packet_key blake s salt) KEY_LENGTH payload))"

section \<open>The contract of a packet obfuscator\<close>

locale packet_codec =
  fixes enc :: "'seed \<Rightarrow> bytes \<Rightarrow> bytes"
    and dec :: "bytes \<Rightarrow> 'e + bytes"
    and good_seed :: "'seed \<Rightarrow> bool"
    and overhead :: nat
  assumes dec_enc: "good_seed r \<Longrightarrow> p \<noteq> [] \<Longrightarrow> dec (enc r p) = Inr p"
    and enc_length: "good_seed r \<Longrightarrow> length (enc r p) = overhead + length p"
    and dec_length: "dec w = Inr p \<Longrightarrow> length w = overhead + length p \<and> p \<noteq> []"
begin

lemma enc_inject:
  "good_seed r \<Longrightarrow> good_seed r' \<Longrightarrow> p \<noteq> [] \<Longrightarrow> q \<noteq> [] \<Longrightarrow> enc r p = enc r' q \<Longrightarrow> p = q"
  using dec_enc [of r p] dec_enc [of r' q] by simp

lemma dec_enc_map:
  "(\<And>i. i < length ps \<Longrightarrow> good_seed (rs ! i) \<and> ps ! i \<noteq> []) \<Longrightarrow> length rs = length ps \<Longrightarrow>
   map dec (map2 enc rs ps) = map Inr ps"
  by (rule nth_equalityI) (simp_all add: dec_enc)

end

interpretation sal: packet_codec "\<lambda>salt p. obfuscate blake s p salt" "deobfuscate blake s"
  "\<lambda>salt. length salt = SALT_LENGTH" SALT_LENGTH for blake s
proof (unfold_locales, goal_cases)
  case (1 salt p)
  then show ?case by (simp add: deobfuscate_def obfuscate_def)
next
  case (2 salt p)
  then show ?case by (simp add: obfuscate_def)
next
  case (3 w p)
  then have "SALT_LENGTH < length w" "length p = length w - SALT_LENGTH"
    by (auto simp: deobfuscate_def Let_def split: if_splits)
  then show ?case by auto
qed

section \<open>Properties\<close>

text \<open>
  With a salt of eight bytes, deobfuscating an obfuscated non-empty payload under the same password
  gives the payload back, whatever the hash function, and the packet is eight bytes longer.
\<close>

lemma salamander_roundtrip:
  assumes "length salt = SALT_LENGTH" and "payload \<noteq> []"
  shows "deobfuscate blake s (obfuscate blake s payload salt) = Inr payload \<and>
         length (obfuscate blake s payload salt) = SALT_LENGTH + length payload"
  using sal.dec_enc [OF assms] sal.enc_length [OF assms(1)] by simp

end
