(* ===== verification/Gecko.thy ===== *)
theory Gecko
  imports Salamander
begin

unbundle bit_operations_syntax

text \<open>
  The Gecko packet obfuscator of \<open>hysteria-obfs/src/gecko.rs\<close>: QUIC long-header packets are cut into two
  to eight padded frames, each obfuscated by Salamander; the receiver collects the frames of a message
  per source in a bounded table. The random source is the parameter \<open>fill\<close> (\<open>fill r n\<close> gives \<open>n\<close> bytes or
  fails), \<open>Instant\<close> values are natural numbers of nanoseconds.
\<close>

section \<open>Definitions\<close>

definition FRAGMENT_FLAG :: u8 where
  "FRAGMENT_FLAG = 0x80"

definition HEADER_SIZE :: usize where
  "HEADER_SIZE = 5"

definition MIN_FRAGMENT_COUNT :: u8 where
  "MIN_FRAGMENT_COUNT = 2"

definition MAX_FRAGMENT_COUNT :: u8 where
  "MAX_FRAGMENT_COUNT = 8"

abbreviation (input) BUFFER_SIZE :: usize where
  "BUFFER_SIZE \<equiv> 2048"

definition MAX_REASSEMBLIES :: usize where
  "MAX_REASSEMBLIES = 4096"

definition MAX_REASSEMBLIES_PER_SOURCE :: usize where
  "MAX_REASSEMBLIES_PER_SOURCE = 8"

abbreviation (input) REASSEMBLY_TTL :: nat where
  "REASSEMBLY_TTL \<equiv> 8 * 1000000000"

abbreviation (input) DEFAULT_MIN_PACKET_SIZE :: usize where
  "DEFAULT_MIN_PACKET_SIZE \<equiv> 512"

abbreviation (input) DEFAULT_MAX_PACKET_SIZE :: usize where
  "DEFAULT_MAX_PACKET_SIZE \<equiv> 1200"

record gecko_options =
  min_packet_size :: usize
  max_packet_size :: usize

abbreviation (input) gecko_options_default :: gecko_options where
  "gecko_options_default \<equiv> \<lparr>min_packet_size = DEFAULT_MIN_PACKET_SIZE, max_packet_size = DEFAULT_MAX_PACKET_SIZE\<rparr>"

datatype gecko_error =
    MissingPassword
  | InvalidPacketSizeRange
  | InvalidFragmentCount u8
  | InvalidChunkIndex u8 u8
  | TruncatedFrame
  | RandomSource
  | SalamanderFailed salamander_error

record gecko_frame =
  message_id :: u8
  chunk_index :: u8
  total_chunks :: u8
  padding :: bytes
  payload :: bytes

definition validate_fragment :: "u8 \<Rightarrow> u8 \<Rightarrow> gecko_error + unit" where
  "validate_fragment index count =
     (if \<not> (MIN_FRAGMENT_COUNT \<le> count \<and> count \<le> MAX_FRAGMENT_COUNT) then Inl (InvalidFragmentCount count)
      else if count \<le> index then Inl (InvalidChunkIndex index count)
      else Inr ())"

definition gecko_frame_encode :: "gecko_frame \<Rightarrow> gecko_error + bytes" where
  "gecko_frame_encode f =
     and_then (validate_fragment (chunk_index f) (total_chunks f)) (\<lambda>_.
     and_then (ok_or TruncatedFrame (try_from_nat (length (padding f)) :: u16 option)) (\<lambda>padding_len.
     Inr (FRAGMENT_FLAG # message_id f # (push_bit 4 (chunk_index f) OR (total_chunks f AND 0x0f)) #
          be_bytes 2 padding_len @ padding f @ payload f)))"

definition gecko_frame_decode :: "bytes \<Rightarrow> gecko_error + gecko_frame" where
  "gecko_frame_decode input =
     (if length input < HEADER_SIZE then Inl TruncatedFrame
      else if input ! 0 AND FRAGMENT_FLAG = 0 then Inl (InvalidFragmentCount 0)
      else let index = drop_bit 4 (input ! 2); count = input ! 2 AND 0x0f in
        and_then (validate_fragment index count) (\<lambda>_.
        let padding_len = unat (from_be_bytes [input ! 3, input ! 4] :: u16);
            payload_offset = HEADER_SIZE + padding_len in
        if length input < payload_offset then Inl TruncatedFrame
        else Inr \<lparr>message_id = input ! 1, chunk_index = index, total_chunks = count,
                  padding = take padding_len (drop HEADER_SIZE input),
                  payload = drop payload_offset input\<rparr>))"

record reassembly_entry =
  entry_chunks :: "bytes option list"
  entry_received :: usize
  entry_total :: u8
  deadline :: nat

type_synonym reassembly_key = "string \<times> u8"

record reassembler =
  entries :: "(reassembly_key, reassembly_entry) hmap"
  per_source :: "(string, usize) hmap"

definition reassembler_default :: reassembler where
  "reassembler_default = \<lparr>entries = [], per_source = []\<rparr>"

definition drop_entry :: "reassembler \<Rightarrow> reassembly_key \<Rightarrow> reassembler" where
  "drop_entry r key =
     (case hm_get (entries r) key of None \<Rightarrow> r
      | Some _ \<Rightarrow> let r' = r\<lparr>entries := hm_remove key (entries r)\<rparr> in
         (case hm_get (per_source r') (fst key) of None \<Rightarrow> r'
          | Some count \<Rightarrow>
             if count - 1 = 0 then r'\<lparr>per_source := hm_remove (fst key) (per_source r')\<rparr>
             else r'\<lparr>per_source := hm_insert (fst key) (count - 1) (per_source r')\<rparr>))"

fun min_by_deadline :: "(reassembly_key \<times> reassembly_entry) list \<Rightarrow> reassembly_key option" where
  "min_by_deadline [] = None"
| "min_by_deadline [(k, e)] = Some k"
| "min_by_deadline ((k, e) # (k', e') # m) =
     (if deadline e' < deadline e then min_by_deadline ((k', e') # m) else min_by_deadline ((k, e) # m))"

definition evict_oldest :: "reassembler \<Rightarrow> reassembler" where
  "evict_oldest r = (case min_by_deadline (entries r) of None \<Rightarrow> r | Some key \<Rightarrow> drop_entry r key)"

definition reassembler_expire :: "reassembler \<Rightarrow> nat \<Rightarrow> reassembler" where
  "reassembler_expire r now =
     foldl drop_entry r (map fst (filter (\<lambda>(key, entry). deadline entry < now) (entries r)))"

definition new_entry :: "gecko_frame \<Rightarrow> nat \<Rightarrow> reassembly_entry" where
  "new_entry f now = \<lparr>entry_chunks = replicate (unat (total_chunks f)) None, entry_received = 0,
     entry_total = total_chunks f, deadline = now + REASSEMBLY_TTL\<rparr>"

definition open_entry :: "reassembler \<Rightarrow> string \<Rightarrow> gecko_frame \<Rightarrow> nat \<Rightarrow> reassembler" where
  "open_entry r source f now =
     (let r1 = (if MAX_REASSEMBLIES \<le> length (entries r) then evict_oldest r else r) in
      r1\<lparr>entries := hm_insert (source, message_id f) (new_entry f now) (entries r1),
         per_source := hm_insert source (unwrap_or 0 (hm_get (per_source r1) source) + 1) (per_source r1)\<rparr>)"

definition store_chunk ::
  "reassembler \<Rightarrow> reassembly_key \<Rightarrow> gecko_frame \<Rightarrow> reassembler \<times> bytes option" where
  "store_chunk r key f =
     (case hm_get (entries r) key of None \<Rightarrow> (r, None)
      | Some entry \<Rightarrow>
         let index = unat (chunk_index f) in
         if length (entry_chunks entry) \<le> index then (r, None)
         else if entry_chunks entry ! index \<noteq> None then (r, None)
         else let entry' = entry\<lparr>entry_chunks := (entry_chunks entry)[index := Some (payload f)],
                                 entry_received := entry_received entry + 1\<rparr>;
                  r' = r\<lparr>entries := hm_insert key entry' (entries r)\<rparr> in
              if entry_received entry' < unat (entry_total entry') then (r', None)
              else (drop_entry r' key, Some (concat (flatten (entry_chunks entry')))))"

definition accept :: "reassembler \<Rightarrow> string \<Rightarrow> gecko_frame \<Rightarrow> nat \<Rightarrow> reassembler \<times> bytes option" where
  "accept r source f now =
     (let key = (source, message_id f) in
      case hm_get (entries r) key of
        Some entry \<Rightarrow>
          if entry_total entry \<noteq> total_chunks f then (r, None) else store_chunk r key f
      | None \<Rightarrow>
          if MAX_REASSEMBLIES_PER_SOURCE \<le> unwrap_or 0 (hm_get (per_source r) source) then (r, None)
          else store_chunk (open_entry r source f now) key f)"

record gecko =
  gk_salamander :: salamander
  gk_options :: gecko_options
  next_message_id :: u32
  gk_reassembler :: reassembler

definition gecko_new :: "bytes \<Rightarrow> gecko_options \<Rightarrow> gecko_error + gecko" where
  "gecko_new pw opts =
     (if pw = [] then Inl MissingPassword
      else let opts1 = (if min_packet_size opts = 0
                        then opts\<lparr>min_packet_size := DEFAULT_MIN_PACKET_SIZE\<rparr> else opts);
               opts2 = (if max_packet_size opts1 = 0
                        then opts1\<lparr>max_packet_size := DEFAULT_MAX_PACKET_SIZE\<rparr> else opts1) in
        if max_packet_size opts2 < min_packet_size opts2 \<or> BUFFER_SIZE < max_packet_size opts2
        then Inl InvalidPacketSizeRange
        else and_then (map_err SalamanderFailed (salamander_new pw)) (\<lambda>s.
             Inr \<lparr>gk_salamander = s, gk_options = opts2, next_message_id = 0,
                  gk_reassembler = reassembler_default\<rparr>))"

definition fill_random :: "'r random_source \<Rightarrow> nat \<Rightarrow> ('r, gecko_error, bytes) eff" where
  "fill_random fill n r = (case fill r n of (res, r') \<Rightarrow> (ok_or RandomSource res, r'))"

definition random_below :: "'r random_source \<Rightarrow> u32 \<Rightarrow> ('r, gecko_error, u32) eff" where
  "random_below fill exclusive_max =
     (if exclusive_max \<le> 1 then eff_return 0
      else eff_bind (fill_random fill 4) (\<lambda>bs. eff_return (from_be_bytes bs mod exclusive_max)))"

definition random_padding_len :: "'r random_source \<Rightarrow> gecko_options \<Rightarrow> usize \<Rightarrow> ('r, gecko_error, usize) eff" where
  "random_padding_len fill opts chunk_len =
     (let base = SALT_LENGTH + HEADER_SIZE + chunk_len;
          low = max (min_packet_size opts) base in
      if max_packet_size opts < low then eff_return 0
      else let choices = max_packet_size opts - low + 1 in
        eff_bind (eff_lift (ok_or RandomSource (try_from_nat choices :: u32 option))) (\<lambda>c.
        eff_bind (random_below fill c) (\<lambda>x. eff_return (low - base + unat x))))"

definition gecko_obfuscate ::
  "(nat \<Rightarrow> bytes \<Rightarrow> bytes) \<Rightarrow> 'r random_source \<Rightarrow> gecko \<Rightarrow> bytes \<Rightarrow> ('r, gecko_error, bytes) eff" where
  "gecko_obfuscate blake fill g cleartext =
     eff_bind (fill_random fill SALT_LENGTH) (\<lambda>salt.
     eff_return (obfuscate blake (gk_salamander g) cleartext salt))"

text \<open>The payload of chunk \<open>i\<close> of \<open>n\<close>: all chunks have the same size, the last takes the remainder.\<close>

definition chunk_payload :: "bytes \<Rightarrow> nat \<Rightarrow> nat \<Rightarrow> bytes" where
  "chunk_payload packet n i =
     (let chunk_size = length packet div n; start = i * chunk_size;
          end_pos = (if i = n - 1 then length packet else start + chunk_size) in
      take (end_pos - start) (drop start packet))"

primrec encode_chunks ::
  "(nat \<Rightarrow> bytes \<Rightarrow> bytes) \<Rightarrow> 'r random_source \<Rightarrow> gecko \<Rightarrow> bytes \<Rightarrow> u8 \<Rightarrow> u8 \<Rightarrow> nat list \<Rightarrow>
     ('r, gecko_error, bytes list) eff" where
  "encode_chunks blake fill g packet mid count [] = eff_return []"
| "encode_chunks blake fill g packet mid count (i # is) =
     (let chunk = chunk_payload packet (unat count) i in
      eff_bind (random_padding_len fill (gk_options g) (length chunk)) (\<lambda>padding_len.
      eff_bind (fill_random fill padding_len) (\<lambda>pad.
      eff_bind (eff_lift (gecko_frame_encode \<lparr>message_id = mid, chunk_index = word_of_nat i,
                   total_chunks = count, padding = pad, payload = chunk\<rparr>)) (\<lambda>frame.
      eff_bind (gecko_obfuscate blake fill g frame) (\<lambda>wire.
      eff_bind (encode_chunks blake fill g packet mid count is) (\<lambda>wires.
      eff_return (wire # wires)))))))"

definition encode_packet ::
  "(nat \<Rightarrow> bytes \<Rightarrow> bytes) \<Rightarrow> 'r random_source \<Rightarrow> gecko \<Rightarrow> bytes \<Rightarrow> 'r \<Rightarrow>
     (gecko_error + bytes list) \<times> gecko \<times> 'r" where
  "encode_packet blake fill g packet r =
     (if packet = [] then (Inr [], g, r)
      else if packet ! 0 AND FRAGMENT_FLAG = 0 then
        (case gecko_obfuscate blake fill g packet r of
           (Inl e, r') \<Rightarrow> (Inl e, g, r') | (Inr wire, r') \<Rightarrow> (Inr [wire], g, r'))
      else
        (case random_below fill (ucast (MAX_FRAGMENT_COUNT - MIN_FRAGMENT_COUNT + 1)) r of
           (Inl e, r1) \<Rightarrow> (Inl e, g, r1)
         | (Inr random_chunk_offset, r1) \<Rightarrow>
           (case (try_from_word random_chunk_offset :: u8 option) of
              None \<Rightarrow> (Inl RandomSource, g, r1)
            | Some offset \<Rightarrow>
               let count = MIN_FRAGMENT_COUNT + offset;
                   g' = g\<lparr>next_message_id := next_message_id g + 1\<rparr>;
                   mid = ucast (next_message_id g + 1);
                   (res, r2) = encode_chunks blake fill g' packet mid count [0..<unat count] r1 in
               (res, g', r2))))"

definition receive_packet ::
  "(nat \<Rightarrow> bytes \<Rightarrow> bytes) \<Rightarrow> gecko \<Rightarrow> string \<Rightarrow> bytes \<Rightarrow> nat \<Rightarrow> gecko \<times> (gecko_error + bytes option)" where
  "receive_packet blake g source wire now =
     (case deobfuscate blake (gk_salamander g) wire of
        Inl e \<Rightarrow> (g, Inl (SalamanderFailed e))
      | Inr cleartext \<Rightarrow>
          if cleartext ! 0 AND FRAGMENT_FLAG = 0 then (g, Inr (Some cleartext))
          else (case gecko_frame_decode cleartext of
                  Inl e \<Rightarrow> (g, Inl e)
                | Inr f \<Rightarrow> (case accept (gk_reassembler g) source f now of
                     (r', res) \<Rightarrow> (g\<lparr>gk_reassembler := r'\<rparr>, Inr res))))"

definition gecko_expire :: "gecko \<Rightarrow> nat \<Rightarrow> gecko" where
  "gecko_expire g now = g\<lparr>gk_reassembler := reassembler_expire (gk_reassembler g) now\<rparr>"

text \<open>Datagrams that arrive one after the other from one source, each with its arrival time.\<close>

primrec receive_all ::
  "(nat \<Rightarrow> bytes \<Rightarrow> bytes) \<Rightarrow> gecko \<Rightarrow> string \<Rightarrow> (bytes \<times> nat) list \<Rightarrow>
     gecko \<times> (gecko_error + bytes option) list" where
  "receive_all blake g source [] = (g, [])"
| "receive_all blake g source (a # as) =
     (let (g1, res) = receive_packet blake g source (fst a) (snd a);
          (g2, ress) = receive_all blake g1 source as in (g2, res # ress))"

primrec accept_all :: "reassembler \<Rightarrow> string \<Rightarrow> (gecko_frame \<times> nat) list \<Rightarrow> reassembler \<times> bytes option list" where
  "accept_all r source [] = (r, [])"
| "accept_all r source (a # as) =
     (let (r1, res) = accept r source (fst a) (snd a);
          (r2, ress) = accept_all r1 source as in (r2, res # ress))"

datatype gecko_event = Receive string bytes nat | Expire nat

fun gecko_step :: "(nat \<Rightarrow> bytes \<Rightarrow> bytes) \<Rightarrow> gecko \<Rightarrow> gecko_event \<Rightarrow> gecko" where
  "gecko_step blake g (Receive source wire now) = fst (receive_packet blake g source wire now)"
| "gecko_step blake g (Expire now) = gecko_expire g now"

section \<open>The frame format\<close>

lemma validate_fragment_ok:
  "validate_fragment i n = Inr () \<longleftrightarrow> 2 \<le> unat n \<and> unat n \<le> 8 \<and> unat i < unat n"
  by (auto simp: validate_fragment_def MIN_FRAGMENT_COUNT_def MAX_FRAGMENT_COUNT_def
      word_le_nat_alt not_le)

lemma pack_nibbles:
  fixes i n :: u8
  assumes "unat i < 16" and "unat n < 16"
  shows "drop_bit 4 (push_bit 4 i OR (n AND 0x0f)) = i"
    and "(push_bit 4 i OR (n AND 0x0f)) AND 0x0f = n"
proof -
  have small: "\<not> bit w k" if "unat w < 2 ^ 4" "4 \<le> k" for w :: u8 and k
  proof -
    have "unat (take_bit 4 w) = unat w"
      using that(1) by (simp add: unsigned_take_bit_eq take_bit_nat_eq_self)
    then have "take_bit 4 w = w" by (rule unsigned_word_eqI)
    then show ?thesis using that(2) by (metis bit_take_bit_iff not_le)
  qed
  have m: "(0x0f :: u8) = mask 4" by (simp add: mask_eq_exp_minus_1)
  show "drop_bit 4 (push_bit 4 i OR (n AND 0x0f)) = i"
  proof (rule bit_word_eqI)
    fix k
    assume "k < LENGTH(8)"
    then show "bit (drop_bit 4 (push_bit 4 i OR (n AND 0x0f))) k = bit i k"
      using small [of i k] assms by (cases "4 \<le> k") (auto simp: m bit_simps)
  qed
  show "(push_bit 4 i OR (n AND 0x0f)) AND 0x0f = n"
  proof (rule bit_word_eqI)
    fix k
    assume "k < LENGTH(8)"
    then show "bit ((push_bit 4 i OR (n AND 0x0f)) AND 0x0f) k = bit n k"
      using small [of n k] assms by (cases "4 \<le> k") (auto simp: m bit_simps)
  qed
qed

lemma drop_header: "drop (5 + n) (a # b # c # d # e # xs) = drop n xs"
  by (simp add: eval_nat_numeral)

lemma gecko_frame_encode_Inr:
  "gecko_frame_encode f = Inr bs \<longleftrightarrow>
     validate_fragment (chunk_index f) (total_chunks f) = Inr () \<and> length (padding f) < 2 ^ 16 \<and>
     bs = FRAGMENT_FLAG # message_id f # (push_bit 4 (chunk_index f) OR (total_chunks f AND 0x0f)) #
          be_bytes 2 (word_of_nat (length (padding f)) :: u16) @ padding f @ payload f"
  by (auto simp: gecko_frame_encode_def result_iffs try_from_nat_def split: if_splits)

lemma gecko_frame_dec_enc [codec_laws]:
  assumes "gecko_frame_encode f = Inr bs"
  shows "gecko_frame_decode bs = Inr f"
proof -
  let ?n = "length (padding f)"
  have v: "validate_fragment (chunk_index f) (total_chunks f) = Inr ()" and n: "?n < 65536"
    and bs: "bs = FRAGMENT_FLAG # message_id f # (push_bit 4 (chunk_index f) OR (total_chunks f AND 0x0f)) #
          be_bytes 2 (word_of_nat ?n :: u16) @ padding f @ payload f"
    using assms by (simp_all add: gecko_frame_encode_Inr)
  have lt: "unat (chunk_index f) < 16" "unat (total_chunks f) < 16"
    using v by (simp_all add: validate_fragment_ok)
  have len: "unat (word_of_nat ?n :: u16) = ?n" using n by (simp add: unat_of_nat)
  have "from_be_bytes [ucast (drop_bit 8 (word_of_nat ?n :: u16)), ucast (word_of_nat ?n :: u16)] =
      (word_of_nat ?n :: u16)"
    using from_be_bytes_id(1) [of "word_of_nat ?n"] by (simp add: be_bytes_2)
  moreover define b where "b = push_bit 4 (chunk_index f) OR (total_chunks f AND 0x0f)"
  have "drop_bit 4 b = chunk_index f" "b AND 0x0f = total_chunks f"
    using pack_nibbles [OF lt] by (simp_all only: b_def)
  ultimately show ?thesis
    using v len unfolding bs gecko_frame_decode_def be_bytes_2 b_def [symmetric]
    by (simp add: HEADER_SIZE_def FRAGMENT_FLAG_def Let_def drop_header)
qed

section \<open>The table of incomplete messages\<close>

definition source_count :: "string \<Rightarrow> (reassembly_key, reassembly_entry) hmap \<Rightarrow> nat" where
  "source_count s m = hm_count (\<lambda>k. fst k = s) m"

definition entry_inv :: "reassembly_entry \<Rightarrow> bool" where
  "entry_inv e \<longleftrightarrow> 2 \<le> unat (entry_total e) \<and> unat (entry_total e) \<le> 8 \<and>
     length (entry_chunks e) = unat (entry_total e) \<and>
     entry_received e = length (flatten (entry_chunks e)) \<and> entry_received e < unat (entry_total e)"

definition accounted :: "reassembler \<Rightarrow> bool" where
  "accounted r \<longleftrightarrow> hm_ok (entries r) \<and> hm_ok (per_source r) \<and>
     (\<forall>s. hm_get (per_source r) s =
        (if source_count s (entries r) = 0 then None else Some (source_count s (entries r))))"

definition reasm_inv :: "reassembler \<Rightarrow> bool" where
  "reasm_inv r \<longleftrightarrow> accounted r \<and> length (entries r) \<le> MAX_REASSEMBLIES \<and>
     (\<forall>s. source_count s (entries r) \<le> MAX_REASSEMBLIES_PER_SOURCE) \<and>
     (\<forall>s i e. hm_get (entries r) (s, i) = Some e \<longrightarrow> entry_inv e)"

lemma reasm_inv_entry: "reasm_inv r \<Longrightarrow> hm_get (entries r) k = Some e \<Longrightarrow> entry_inv e"
  by (cases k) (simp add: reasm_inv_def)

lemma accounted_count: "accounted r \<Longrightarrow> unwrap_or 0 (hm_get (per_source r) s) = source_count s (entries r)"
  by (simp add: accounted_def)

lemma entries_drop_entry [simp]: "entries (drop_entry r k) = hm_remove k (entries r)"
  by (simp add: drop_entry_def Let_def hm_remove_absent split: option.split)

lemma source_count_remove:
  "hm_ok m \<Longrightarrow> source_count s (hm_remove k m) =
     source_count s m - (if hm_get m k \<noteq> None \<and> fst k = s then 1 else 0)"
  by (simp add: source_count_def hm_count_remove)

lemma source_count_insert:
  "source_count s (hm_insert k v m) =
     (if hm_get m k = None \<and> fst k = s then Suc (source_count s m) else source_count s m)"
  by (simp add: source_count_def hm_count_insert)

lemma source_count_pos: "hm_get m k = Some e \<Longrightarrow> 0 < source_count (fst k) m"
  unfolding source_count_def by (rule hm_count_pos) simp_all

lemma accounted_drop_entry [inv_intros]:
  assumes "accounted r"
  shows "accounted (drop_entry r k)"
proof (cases "hm_get (entries r) k")
  case None
  with assms show ?thesis by (simp add: drop_entry_def)
next
  case (Some e)
  have ok: "hm_ok (entries r)" "hm_ok (per_source r)"
    and ps: "hm_get (per_source r) s =
      (if source_count s (entries r) = 0 then None else Some (source_count s (entries r)))" for s
    using assms by (auto simp: accounted_def)
  have pos: "0 < source_count (fst k) (entries r)" using Some by (rule source_count_pos)
  show ?thesis
    using ok pos Some
    by (auto simp: accounted_def drop_entry_def Let_def ps hm_laws source_count_remove)
qed

lemma reasm_inv_drop_entry [inv_intros]:
  assumes "reasm_inv r"
  shows "reasm_inv (drop_entry r k)"
proof -
  have acc: "accounted r" and ok: "hm_ok (entries r)"
    and len: "length (entries r) \<le> MAX_REASSEMBLIES"
    and cnt: "source_count s (entries r) \<le> MAX_REASSEMBLIES_PER_SOURCE" for s
    using assms by (auto simp: reasm_inv_def accounted_def)
  have "length (entries (drop_entry r k)) \<le> MAX_REASSEMBLIES"
    using len ok by (auto simp: hm.size_remove)
  moreover have "source_count s (entries (drop_entry r k)) \<le> MAX_REASSEMBLIES_PER_SOURCE" for s
    using cnt [of s] ok by (simp add: source_count_remove)
  moreover have "hm_get (entries (drop_entry r k)) k' = Some e \<Longrightarrow> entry_inv e" for k' e
    using reasm_inv_entry [OF assms] by (auto simp: hm.get_remove split: if_splits)
  ultimately show ?thesis
    using accounted_drop_entry [OF acc] by (auto simp: reasm_inv_def)
qed

lemma min_by_deadline_mem: "m \<noteq> [] \<Longrightarrow> \<exists>k. min_by_deadline m = Some k \<and> k \<in> fst ` set m"
proof (induction m rule: min_by_deadline.induct)
  case (3 k e k' e' m)
  then show ?case by (cases "deadline e' < deadline e") auto
qed simp_all

lemma evict_oldest_entry:
  assumes "accounted r" and "entries r \<noteq> []"
  obtains k where "evict_oldest r = drop_entry r k" and "hm_get (entries r) k \<noteq> None"
proof -
  obtain k where k: "min_by_deadline (entries r) = Some k" "k \<in> fst ` set (entries r)"
    using min_by_deadline_mem [OF assms(2)] by blast
  show thesis
  proof (rule that [of k])
    show "evict_oldest r = drop_entry r k" using k by (simp add: evict_oldest_def)
    show "hm_get (entries r) k \<noteq> None" using k by (simp add: hm_get_def map_of_eq_None_iff)
  qed
qed

lemma make_room:
  assumes "reasm_inv r"
  defines "r1 \<equiv> if MAX_REASSEMBLIES \<le> length (entries r) then evict_oldest r else r"
  shows "reasm_inv r1 \<and> length (entries r1) < MAX_REASSEMBLIES \<and>
    (\<forall>k. hm_get (entries r) k = None \<longrightarrow> hm_get (entries r1) k = None) \<and>
    (\<forall>s. source_count s (entries r1) \<le> source_count s (entries r))"
proof (cases "MAX_REASSEMBLIES \<le> length (entries r)")
  case False
  then show ?thesis using assms by simp
next
  case True
  have acc: "accounted r" and ok: "hm_ok (entries r)" using assms(1) by (auto simp: reasm_inv_def accounted_def)
  have "entries r \<noteq> []" using True by (auto simp: MAX_REASSEMBLIES_def)
  then obtain k where k: "evict_oldest r = drop_entry r k" "hm_get (entries r) k \<noteq> None"
    by (rule evict_oldest_entry [OF acc])
  have "length (entries r) = MAX_REASSEMBLIES" using True assms(1) by (simp add: reasm_inv_def)
  then have "length (hm_remove k (entries r)) < MAX_REASSEMBLIES"
    using k ok by (simp add: hm.size_remove MAX_REASSEMBLIES_def)
  then show ?thesis
    using True k reasm_inv_drop_entry [OF assms(1)] ok
    by (auto simp: r1_def hm.get_remove source_count_remove)
qed

lemma reasm_inv_open_entry [inv_intros]:
  assumes inv: "reasm_inv r" and fresh: "hm_get (entries r) (source, message_id f) = None"
    and few: "source_count source (entries r) < MAX_REASSEMBLIES_PER_SOURCE"
    and f: "2 \<le> unat (total_chunks f)" "unat (total_chunks f) \<le> 8"
  shows "reasm_inv (open_entry r source f now)"
proof -
  define r1 where "r1 = (if MAX_REASSEMBLIES \<le> length (entries r) then evict_oldest r else r)"
  note room = make_room [OF inv, folded r1_def]
  have fresh1: "hm_get (entries r1) (source, message_id f) = None"
    and few1: "source_count source (entries r1) < MAX_REASSEMBLIES_PER_SOURCE"
    and inv1: "reasm_inv r1" and len1: "length (entries r1) < MAX_REASSEMBLIES"
    using room fresh few le_less_trans by blast+
  have acc1: "accounted r1" using inv1 by (simp add: reasm_inv_def)
  have eq: "open_entry r source f now =
    r1\<lparr>entries := hm_insert (source, message_id f) (new_entry f now) (entries r1),
       per_source := hm_insert source (source_count source (entries r1) + 1) (per_source r1)\<rparr>"
    by (simp add: open_entry_def r1_def [symmetric] Let_def accounted_count [OF acc1])
  have "accounted (open_entry r source f now)"
    using acc1 fresh1 by (auto simp: eq accounted_def hm_laws source_count_insert)
  moreover have "entry_inv (new_entry f now)"
    using f by (simp add: entry_inv_def new_entry_def)
  ultimately show ?thesis
    using inv1 fresh1 few1 len1
    by (auto simp: eq reasm_inv_def accounted_def hm_laws source_count_insert less_Suc_eq_le [symmetric])
qed

lemma reasm_inv_store_chunk [inv_intros]:
  assumes inv: "reasm_inv r"
  shows "reasm_inv (fst (store_chunk r key f))"
proof (cases "hm_get (entries r) key")
  case None
  with inv show ?thesis by (simp add: store_chunk_def)
next
  case (Some e)
  let ?i = "unat (chunk_index f)"
  let ?e = "e\<lparr>entry_chunks := (entry_chunks e)[?i := Some (payload f)], entry_received := entry_received e + 1\<rparr>"
  let ?r = "r\<lparr>entries := hm_insert key ?e (entries r)\<rparr>"
  have e: "entry_inv e" using inv Some by (rule reasm_inv_entry)
  have acc: "accounted ?r"
    using inv Some by (auto simp: reasm_inv_def accounted_def hm_laws source_count_insert)
  show ?thesis
  proof (cases "length (entry_chunks e) \<le> ?i \<or> entry_chunks e ! ?i \<noteq> None")
    case True
    with Some inv show ?thesis by (auto simp: store_chunk_def Let_def)
  next
    case slot: False
    have fill: "length (flatten ((entry_chunks e)[?i := Some (payload f)])) = Suc (length (flatten (entry_chunks e)))"
      using slot by (intro length_flatten_update) auto
    have keep: "length (entries ?r) \<le> MAX_REASSEMBLIES \<and>
        (\<forall>s. source_count s (entries ?r) \<le> MAX_REASSEMBLIES_PER_SOURCE)"
      using inv Some by (auto simp: reasm_inv_def accounted_def hm_laws source_count_insert)
    show ?thesis
    proof (cases "entry_received ?e < unat (entry_total ?e)")
      case True
      then have "entry_inv ?e" using e fill by (simp add: entry_inv_def)
      then have "reasm_inv ?r"
        using acc keep inv by (auto simp: reasm_inv_def hm.get_insert split: if_splits)
      with Some slot True show ?thesis by (simp add: store_chunk_def Let_def)
    next
      case False
      have "reasm_inv (drop_entry ?r key)"
      proof -
        have "reasm_inv (drop_entry r key)" using inv by (rule reasm_inv_drop_entry)
        then have old: "hm_get (entries (drop_entry ?r key)) k = Some e' \<Longrightarrow> entry_inv e'" for k e'
          using reasm_inv_entry [of "drop_entry r key" k e']
          by (auto simp: hm.get_remove hm.get_insert split: if_splits)
        have "hm_ok (entries ?r)" using acc by (simp add: accounted_def)
        then have "length (entries (drop_entry ?r key)) \<le> MAX_REASSEMBLIES"
          "source_count s (entries (drop_entry ?r key)) \<le> MAX_REASSEMBLIES_PER_SOURCE" for s
          using keep by (auto simp: hm.size_remove source_count_remove le_diff_conv intro: le_SucI)
        then show ?thesis using accounted_drop_entry [OF acc] old by (simp add: reasm_inv_def)
      qed
      with Some slot False show ?thesis by (simp add: store_chunk_def Let_def)
    qed
  qed
qed

lemma reasm_inv_accept [inv_intros]:
  assumes inv: "reasm_inv r" and f: "2 \<le> unat (total_chunks f)" "unat (total_chunks f) \<le> 8"
  shows "reasm_inv (fst (accept r source f now))"
proof (cases "hm_get (entries r) (source, message_id f)")
  case None
  have "accounted r" using inv by (simp add: reasm_inv_def)
  then show ?thesis
    using None inv reasm_inv_store_chunk [OF reasm_inv_open_entry [OF inv None _ f]]
    by (auto simp: accept_def Let_def accounted_count not_le)
next
  case (Some e)
  then show ?thesis using inv reasm_inv_store_chunk [OF inv] by (auto simp: accept_def Let_def)
qed

lemma reasm_inv_drop_entries: "reasm_inv r \<Longrightarrow> reasm_inv (foldl drop_entry r ks)"
  by (induction ks arbitrary: r) (auto intro: reasm_inv_drop_entry)

lemma reasm_inv_expire [inv_intros]: "reasm_inv r \<Longrightarrow> reasm_inv (reassembler_expire r now)"
  by (simp add: reassembler_expire_def reasm_inv_drop_entries)

lemma reasm_inv_default [simp]: "reasm_inv reassembler_default"
  by (simp add: reasm_inv_def accounted_def reassembler_default_def source_count_def)

lemma gecko_frame_decode_valid:
  "gecko_frame_decode bs = Inr f \<Longrightarrow> validate_fragment (chunk_index f) (total_chunks f) = Inr ()"
  by (auto simp: gecko_frame_decode_def Let_def result_iffs split: if_splits)

lemma gecko_step_inv: "reasm_inv (gk_reassembler g) \<Longrightarrow> reasm_inv (gk_reassembler (gecko_step blake g ev))"
proof (cases ev)
  case (Receive source wire now)
  assume inv: "reasm_inv (gk_reassembler g)"
  have "reasm_inv (fst (accept (gk_reassembler g) source f now))" if "gecko_frame_decode bs = Inr f" for bs f
    using reasm_inv_accept [OF inv] gecko_frame_decode_valid [OF that] by (simp add: validate_fragment_ok)
  then show ?thesis
    using inv Receive by (auto simp: receive_packet_def split: sum.splits prod.splits) (metis fst_conv)
next
  case (Expire now)
  then show "reasm_inv (gk_reassembler g) \<Longrightarrow> ?thesis" by (simp add: gecko_expire_def reasm_inv_expire)
qed

interpretation gk_table: step_invariant "gecko_step blake" "\<lambda>g. reasm_inv (gk_reassembler g)" for blake
  by unfold_locales (rule gecko_step_inv)

end
