(* ===== verification/Gecko_Delivery.thy ===== *)
theory Gecko_Delivery
  imports Gecko
begin

unbundle bit_operations_syntax

text \<open>
  What Gecko promises: a packet is delivered from its datagrams in any order, the table of incomplete
  messages stays bounded, datagram sizes keep to the configured range, and what a source that leaves
  messages incomplete does to itself.
\<close>

section \<open>Reassembly of a packet\<close>

lemma concat_chunk_prefix:
  "k \<le> n - 1 \<Longrightarrow> concat (map (chunk_payload p n) [0..<k]) = take (k * (length p div n)) p"
proof (induction k)
  case 0
  show ?case by simp
next
  case (Suc k)
  then have "chunk_payload p n k = take (length p div n) (drop (k * (length p div n)) p)"
    by (simp add: chunk_payload_def Let_def)
  with Suc show ?case by (simp add: take_add [symmetric] add.commute)
qed

lemma concat_chunk_payload: "0 < n \<Longrightarrow> concat (map (chunk_payload p n) [0..<n]) = p"
proof -
  assume n: "0 < n"
  then have "[0..<n] = [0..<n - 1] @ [n - 1]" by (cases n) simp_all
  moreover have "chunk_payload p n (n - 1) = drop ((n - 1) * (length p div n)) p"
    by (simp add: chunk_payload_def Let_def)
  ultimately show ?thesis by (simp add: concat_chunk_prefix)
qed

definition is_frame_of :: "bytes \<Rightarrow> u8 \<Rightarrow> u8 \<Rightarrow> nat \<Rightarrow> gecko_frame \<Rightarrow> bool" where
  "is_frame_of packet mid n i f \<longleftrightarrow> message_id f = mid \<and> chunk_index f = word_of_nat i \<and>
     total_chunks f = n \<and> payload f = chunk_payload packet (unat n) i"

definition is_wire_of :: "(nat \<Rightarrow> bytes \<Rightarrow> bytes) \<Rightarrow> salamander \<Rightarrow> bytes \<Rightarrow> u8 \<Rightarrow> u8 \<Rightarrow> nat \<Rightarrow> bytes \<Rightarrow> bool" where
  "is_wire_of blake s packet mid n i w \<longleftrightarrow>
     (\<exists>f bs salt. is_frame_of packet mid n i f \<and> gecko_frame_encode f = Inr bs \<and>
        length salt = SALT_LENGTH \<and> w = obfuscate blake s bs salt)"

lemma fill_random_length:
  "good_random fill \<Longrightarrow> fill_random fill n r = (Inr bs, r') \<Longrightarrow> length bs = n"
  by (auto simp: good_random_def fill_random_def result_iffs split: prod.splits)

lemma encode_chunks_wires:
  assumes fill: "good_random fill"
  shows "encode_chunks blake fill g packet mid n is r = (Inr ws, r') \<Longrightarrow>
     length ws = length is \<and>
     (\<forall>k < length is. is_wire_of blake (gk_salamander g) packet mid n (is ! k) (ws ! k))"
proof (induction "is" arbitrary: ws r)
  case Nil
  then show ?case by (simp add: eff_iffs)
next
  case (Cons i "is")
  let ?f = "\<lambda>pad. \<lparr>message_id = mid, chunk_index = word_of_nat i, total_chunks = n, padding = pad,
    payload = chunk_payload packet (unat n) i\<rparr>"
  obtain pad bs w ws' salt r1 r2 r3 where enc: "gecko_frame_encode (?f pad) = Inr bs"
    and salt: "fill_random fill SALT_LENGTH r1 = (Inr salt, r2)"
    and w: "w = obfuscate blake (gk_salamander g) bs salt"
    and rest: "encode_chunks blake fill g packet mid n is r3 = (Inr ws', r')" and ws: "ws = w # ws'"
    using Cons.prems by (auto simp: eff_iffs Let_def gecko_obfuscate_def)
  have "is_wire_of blake (gk_salamander g) packet mid n i w"
    unfolding is_wire_of_def is_frame_of_def
    using enc w fill_random_length [OF fill salt] by (intro exI [of _ "?f pad"]) auto
  then show ?case using Cons.IH [OF rest] ws by (auto simp: nth_Cons')
qed

lemma gecko_frame_encode_shape:
  "gecko_frame_encode f = Inr bs \<Longrightarrow> bs \<noteq> [] \<and> bs ! 0 AND FRAGMENT_FLAG \<noteq> 0"
  by (auto simp: gecko_frame_encode_Inr FRAGMENT_FLAG_def)

lemma receive_wire:
  assumes "is_wire_of blake (gk_salamander h) packet mid n i w"
  obtains f where "is_frame_of packet mid n i f"
    and "receive_packet blake h source w now =
      (h\<lparr>gk_reassembler := fst (accept (gk_reassembler h) source f now)\<rparr>,
       Inr (snd (accept (gk_reassembler h) source f now)))"
proof -
  obtain f bs salt where f: "is_frame_of packet mid n i f" and enc: "gecko_frame_encode f = Inr bs"
    and salt: "length salt = SALT_LENGTH" and w: "w = obfuscate blake (gk_salamander h) bs salt"
    using assms by (auto simp: is_wire_of_def)
  have "deobfuscate blake (gk_salamander h) w = Inr bs"
    unfolding w using sal.dec_enc [OF salt] gecko_frame_encode_shape [OF enc] by simp
  then show thesis
    using that [OF f] gecko_frame_encode_shape [OF enc] gecko_frame_dec_enc [OF enc]
    by (simp add: receive_packet_def split_beta)
qed

definition holds_chunks :: "bytes \<Rightarrow> reassembly_key \<Rightarrow> u8 \<Rightarrow> nat set \<Rightarrow> reassembler \<Rightarrow> bool" where
  "holds_chunks packet key n S r \<longleftrightarrow> S \<subset> {..<unat n} \<and>
     (\<exists>e. hm_get (entries r) key = Some e \<and> entry_total e = n \<and> entry_received e = card S \<and>
        entry_chunks e = map (\<lambda>i. if i \<in> S then Some (chunk_payload packet (unat n) i) else None) [0..<unat n])"

lemma store_chunk_step:
  assumes h: "holds_chunks packet key n S r" and j: "j < unat n" and f: "is_frame_of packet mid n j f"
  shows "j \<in> S \<Longrightarrow> store_chunk r key f = (r, None)"
    and "j \<notin> S \<Longrightarrow> insert j S \<noteq> {..<unat n} \<Longrightarrow>
      snd (store_chunk r key f) = None \<and> holds_chunks packet key n (insert j S) (fst (store_chunk r key f))"
    and "j \<notin> S \<Longrightarrow> insert j S = {..<unat n} \<Longrightarrow> snd (store_chunk r key f) = Some packet"
proof -
  obtain e where S: "S \<subset> {..<unat n}" and e: "hm_get (entries r) key = Some e" "entry_total e = n"
      "entry_received e = card S" and chunks:
      "entry_chunks e = map (\<lambda>i. if i \<in> S then Some (chunk_payload packet (unat n) i) else None) [0..<unat n]"
    using h by (auto simp: holds_chunks_def)
  have fin: "finite S" using S finite_subset by blast
  have "unat n < 256" using unat_less_word [of n] by simp
  then have idx: "unat (chunk_index f) = j" and pl: "payload f = chunk_payload packet (unat n) j"
    using f j by (simp_all add: is_frame_of_def unat_of_nat)
  let ?e = "e\<lparr>entry_chunks := (entry_chunks e)[j := Some (payload f)], entry_received := Suc (card S)\<rparr>"
  have upd: "(entry_chunks e)[j := Some (payload f)] =
      map (\<lambda>i. if i \<in> insert j S then Some (chunk_payload packet (unat n) i) else None) [0..<unat n]"
    unfolding chunks using j pl by (intro nth_equalityI) (simp_all add: nth_list_update)
  show "store_chunk r key f = (r, None)" if "j \<in> S"
    using that e j by (simp add: store_chunk_def idx chunks)
  have step: "store_chunk r key f =
      (if Suc (card S) < unat n then (r\<lparr>entries := hm_insert key ?e (entries r)\<rparr>, None)
       else (drop_entry (r\<lparr>entries := hm_insert key ?e (entries r)\<rparr>) key,
             Some (concat (flatten (entry_chunks ?e)))))" if "j \<notin> S"
    using that e j by (simp add: store_chunk_def idx chunks Let_def)
  have le: "Suc (card S) \<le> unat n" using psubset_card_mono [of "{..<unat n}" S] S by simp
  show "snd (store_chunk r key f) = None \<and> holds_chunks packet key n (insert j S) (fst (store_chunk r key f))"
    if "j \<notin> S" "insert j S \<noteq> {..<unat n}"
  proof -
    have lt: "Suc (card S) < unat n" using card_insert_all [OF S that(1) j] that(2) le by simp
    have sub: "insert j S \<subset> {..<unat n}" using S j that(2) by blast
    have "holds_chunks packet key n (insert j S) (r\<lparr>entries := hm_insert key ?e (entries r)\<rparr>)"
      unfolding holds_chunks_def using sub e upd fin that(1) by (simp add: hm.get_insert)
    then show ?thesis using step [OF that(1)] lt by simp
  qed
  show "snd (store_chunk r key f) = Some packet" if "j \<notin> S" "insert j S = {..<unat n}"
  proof -
    have "\<not> Suc (card S) < unat n" using card_insert_all [OF S that(1) j] that(2) by simp
    moreover have "entry_chunks ?e = map Some (map (chunk_payload packet (unat n)) [0..<unat n])"
      using upd that(2) by (auto intro!: map_cong)
    ultimately show ?thesis
      using step [OF that(1)] j by (simp add: concat_chunk_payload del: map_map)
  qed
qed

text \<open>
  The receiver either holds some chunks of the message, or has not seen it and has room for it.
\<close>

definition awaiting :: "bytes \<Rightarrow> string \<Rightarrow> u8 \<Rightarrow> u8 \<Rightarrow> nat set \<Rightarrow> reassembler \<Rightarrow> bool" where
  "awaiting packet source mid n S r \<longleftrightarrow>
     holds_chunks packet (source, mid) n S r \<or>
     S = {} \<and> reasm_inv r \<and> hm_get (entries r) (source, mid) = None \<and>
     source_count source (entries r) < MAX_REASSEMBLIES_PER_SOURCE"

lemma accept_as_store:
  assumes aw: "awaiting packet source mid n S r" and f: "is_frame_of packet mid n j f" and n: "0 < unat n"
  shows "\<exists>r1. accept r source f now = store_chunk r1 (source, mid) f \<and>
    holds_chunks packet (source, mid) n S r1 \<and> (S \<noteq> {} \<longrightarrow> r1 = r)"
proof (cases "holds_chunks packet (source, mid) n S r")
  case True
  then have "accept r source f now = store_chunk r (source, mid) f"
    using f by (auto simp: holds_chunks_def accept_def is_frame_of_def Let_def)
  with True show ?thesis by blast
next
  case False
  then have S: "S = {}" "reasm_inv r" "hm_get (entries r) (source, mid) = None"
    "source_count source (entries r) < MAX_REASSEMBLIES_PER_SOURCE"
    using aw by (auto simp: awaiting_def)
  have acc: "accounted r" using S by (simp add: reasm_inv_def)
  have "accept r source f now = store_chunk (open_entry r source f now) (source, mid) f"
    using S f by (simp add: accept_def is_frame_of_def accounted_count [OF acc] Let_def)
  moreover have "hm_get (entries (open_entry r source f now)) (source, mid) = Some (new_entry f now)"
    using f by (simp add: open_entry_def Let_def hm.get_insert is_frame_of_def)
  then have "holds_chunks packet (source, mid) n {} (open_entry r source f now)"
    using f n by (auto simp: holds_chunks_def new_entry_def is_frame_of_def map_replicate_const)
  ultimately show ?thesis using S by blast
qed

lemma receive_step:
  assumes aw: "awaiting packet source mid n S (gk_reassembler h)" and j: "j < unat n"
    and w: "is_wire_of blake (gk_salamander h) packet mid n j w"
  shows "insert j S \<noteq> {..<unat n} \<Longrightarrow>
      snd (receive_packet blake h source w now) = Inr None \<and>
      gk_salamander (fst (receive_packet blake h source w now)) = gk_salamander h \<and>
      awaiting packet source mid n (insert j S) (gk_reassembler (fst (receive_packet blake h source w now)))"
    and "j \<notin> S \<Longrightarrow> insert j S = {..<unat n} \<Longrightarrow>
      snd (receive_packet blake h source w now) = Inr (Some packet)"
proof -
  obtain f where f: "is_frame_of packet mid n j f"
    and rcv: "receive_packet blake h source w now =
      (h\<lparr>gk_reassembler := fst (accept (gk_reassembler h) source f now)\<rparr>,
       Inr (snd (accept (gk_reassembler h) source f now)))"
    by (rule receive_wire [OF w])
  have "0 < unat n" using j by simp
  then obtain r1 where acc: "accept (gk_reassembler h) source f now = store_chunk r1 (source, mid) f"
    and h1: "holds_chunks packet (source, mid) n S r1"
    using accept_as_store [OF aw f] by blast
  note step = store_chunk_step [OF h1 j f]
  show "snd (receive_packet blake h source w now) = Inr None \<and>
      gk_salamander (fst (receive_packet blake h source w now)) = gk_salamander h \<and>
      awaiting packet source mid n (insert j S) (gk_reassembler (fst (receive_packet blake h source w now)))"
    if "insert j S \<noteq> {..<unat n}"
  proof (cases "j \<in> S")
    case True
    then have "insert j S = S" by blast
    then show ?thesis using step(1) [OF True] h1 by (simp add: rcv acc awaiting_def)
  next
    case False
    then show ?thesis using step(2) [OF False that] by (simp add: rcv acc awaiting_def)
  qed
  show "snd (receive_packet blake h source w now) = Inr (Some packet)"
    if "j \<notin> S" "insert j S = {..<unat n}"
    using step(3) [OF that] by (simp add: rcv acc)
qed

lemma receive_all_append:
  "receive_all blake h source (as @ bs) =
     (let (h1, xs) = receive_all blake h source as; (h2, ys) = receive_all blake h1 source bs in (h2, xs @ ys))"
  by (induction as arbitrary: h) (simp_all add: split_beta Let_def)

lemma receive_all_partial:
  assumes len: "length wires = unat n"
  shows "awaiting packet source mid n S (gk_reassembler h) \<Longrightarrow> fst ` set as \<subseteq> {..<unat n} \<Longrightarrow>
     S \<union> fst ` set as \<noteq> {..<unat n} \<Longrightarrow> S \<subseteq> {..<unat n} \<Longrightarrow>
     (\<forall>i < unat n. is_wire_of blake (gk_salamander h) packet mid n i (wires ! i)) \<Longrightarrow>
     (let (h', res) = receive_all blake h source (map (\<lambda>(i, t). (wires ! i, t)) as) in
        res = replicate (length as) (Inr None) \<and> gk_salamander h' = gk_salamander h \<and>
        awaiting packet source mid n (S \<union> fst ` set as) (gk_reassembler h'))"
proof (induction as arbitrary: S h)
  case Nil
  then show ?case by simp
next
  case (Cons a as)
  obtain i t where a: "a = (i, t)" by (cases a)
  let ?h = "fst (receive_packet blake h source (wires ! i) t)"
  have i: "i < unat n" using Cons.prems(2) a by simp
  have U: "insert i S \<union> fst ` set as = S \<union> fst ` set (a # as)" using a by auto
  have ne: "insert i S \<noteq> {..<unat n}" using Cons.prems(2-4) U by blast
  have step: "snd (receive_packet blake h source (wires ! i) t) = Inr None"
    "gk_salamander ?h = gk_salamander h" "awaiting packet source mid n (insert i S) (gk_reassembler ?h)"
    using receive_step(1) [OF Cons.prems(1) i _ ne] Cons.prems(5) i by auto
  have IH: "let (h', res) = receive_all blake ?h source (map (\<lambda>(i, t). (wires ! i, t)) as) in
        res = replicate (length as) (Inr None) \<and> gk_salamander h' = gk_salamander ?h \<and>
        awaiting packet source mid n (insert i S \<union> fst ` set as) (gk_reassembler h')"
    using Cons.IH [OF step(3)] Cons.prems i U step(2) by auto
  then show ?case using step a U by (auto simp: Let_def split: prod.splits)
qed

lemma receive_all_reassembles:
  assumes len: "length wires = unat n"
    and wires: "\<forall>i < unat n. is_wire_of blake (gk_salamander h) packet mid n i (wires ! i)"
    and aw: "awaiting packet source mid n {} (gk_reassembler h)"
    and all: "insert j (fst ` set as) = {..<unat n}" "j \<notin> fst ` set as"
  shows "snd (receive_all blake h source (map (\<lambda>(i, t). (wires ! i, t)) (as @ [(j, t)]))) =
     replicate (length as) (Inr None) @ [Inr (Some packet)]"
proof -
  obtain h' res where run: "receive_all blake h source (map (\<lambda>(i, t). (wires ! i, t)) as) = (h', res)"
    by (cases "receive_all blake h source (map (\<lambda>(i, t). (wires ! i, t)) as)")
  have sub: "fst ` set as \<subseteq> {..<unat n}" and ne: "{} \<union> fst ` set as \<noteq> {..<unat n}" and j: "j < unat n"
    using all by auto
  have part: "res = replicate (length as) (Inr None)" "gk_salamander h' = gk_salamander h"
    "awaiting packet source mid n (fst ` set as) (gk_reassembler h')"
    using receive_all_partial [OF len aw sub ne _ wires] run by auto
  have "snd (receive_packet blake h' source (wires ! j) t) = Inr (Some packet)"
    using receive_step(2) [OF part(3) j _ all(2,1)] wires j part(2) by simp
  then show ?thesis using run part(1) by (simp add: receive_all_append split_beta)
qed

lemma insert_eq_singleton: "insert j A = {i} \<Longrightarrow> j \<notin> A \<Longrightarrow> j = i \<and> A = {}"
  by blast

lemma encode_packet_long:
  assumes fill: "good_random fill" and enc: "encode_packet blake fill g packet r = (Inr wires, g', r')"
    and long: "packet \<noteq> []" "packet ! 0 AND FRAGMENT_FLAG \<noteq> 0"
  obtains n r1 where "2 \<le> unat n" and "unat n \<le> 8" and "length wires = unat n"
    and "encode_chunks blake fill (g\<lparr>next_message_id := next_message_id g + 1\<rparr>) packet
           (ucast (next_message_id g + 1)) n [0..<unat n] r1 = (Inr wires, r')"
    and "\<forall>i < unat n. is_wire_of blake (gk_salamander g) packet (ucast (next_message_id g + 1)) n i (wires ! i)"
    and "g' = g\<lparr>next_message_id := next_message_id g + 1\<rparr>"
proof -
  obtain x r1 where x: "random_below fill (ucast (MAX_FRAGMENT_COUNT - MIN_FRAGMENT_COUNT + 1)) r = (Inr x, r1)"
    using enc long by (auto simp: encode_packet_def split: sum.splits prod.splits if_splits)
  have seven: "ucast (MAX_FRAGMENT_COUNT - MIN_FRAGMENT_COUNT + 1) = (7 :: u32)"
    by (simp add: MAX_FRAGMENT_COUNT_def MIN_FRAGMENT_COUNT_def)
  have "\<not> (7 :: u32) \<le> 1" by (simp add: word_le_nat_alt)
  then obtain y :: u32 where "x = y mod 7" using x seven by (auto simp: random_below_def eff_iffs split: if_splits)
  then have lt: "unat x < 7" by (simp add: unat_mod)
  then have o8: "(try_from_word x :: u8 option) = Some (ucast x)" by (simp add: try_from_word_def)
  have ux: "unat (ucast x :: u8) = unat x" using lt by (simp add: unsigned_ucast_eq take_bit_nat_eq_self)
  define n where "n = MIN_FRAGMENT_COUNT + ucast x"
  have n: "unat n = 2 + unat x"
    using lt ux by (simp add: n_def MIN_FRAGMENT_COUNT_def unat_word_ariths)
  let ?g = "g\<lparr>next_message_id := next_message_id g + 1\<rparr>"
  have chunks: "encode_chunks blake fill ?g packet (ucast (next_message_id g + 1)) n [0..<unat n] r1 = (Inr wires, r')"
    and g': "g' = ?g"
    using enc long x o8 by (auto simp: encode_packet_def n_def Let_def split_beta prod_eq_iff)
  have "length wires = unat n \<and>
      (\<forall>i < unat n. is_wire_of blake (gk_salamander g) packet (ucast (next_message_id g + 1)) n i (wires ! i))"
    using encode_chunks_wires [OF fill chunks] by simp
  moreover have "2 \<le> unat n" "unat n \<le> 8" using n lt by simp_all
  ultimately show thesis using that [of n r1] chunks g' by blast
qed

section \<open>Sizes of the datagrams\<close>

definition options_ok :: "gecko_options \<Rightarrow> bool" where
  "options_ok opts \<longleftrightarrow> min_packet_size opts \<le> max_packet_size opts \<and> max_packet_size opts \<le> BUFFER_SIZE"

lemma gecko_new_ok:
  "gecko_new pw opts = Inr g \<Longrightarrow>
     options_ok (gk_options g) \<and> gk_reassembler g = reassembler_default \<and> gk_salamander g = \<lparr>password = pw\<rparr>"
  by (auto simp: gecko_new_def Let_def result_iffs options_ok_def salamander_new_def split: if_splits)

lemma random_below_less:
  "random_below fill m r = (Inr x, r') \<Longrightarrow> 0 < m \<Longrightarrow> unat x < unat m"
  by (auto simp: random_below_def eff_iffs unat_mod word_less_nat_alt split: if_splits)

lemma random_padding_len_fits:
  assumes "random_padding_len fill opts n r = (Inr p, r')" and "options_ok opts"
    and "SALT_LENGTH + HEADER_SIZE + n \<le> max_packet_size opts"
  shows "min_packet_size opts \<le> SALT_LENGTH + HEADER_SIZE + n + p \<and>
    SALT_LENGTH + HEADER_SIZE + n + p \<le> max_packet_size opts"
proof -
  define base where "base = SALT_LENGTH + HEADER_SIZE + n"
  define low where "low = max (min_packet_size opts) base"
  define c where "c = max_packet_size opts - low + 1"
  have low: "low \<le> max_packet_size opts" "base \<le> low" "min_packet_size opts \<le> low"
    using assms(2,3) by (simp_all add: low_def base_def options_ok_def)
  obtain w x r1 where w: "(try_from_nat c :: u32 option) = Some w"
    and x: "random_below fill w r1 = (Inr x, r')" and p: "p = low - base + unat x"
    using assms(1) low unfolding random_padding_len_def Let_def
    by (auto simp: base_def [symmetric] low_def [symmetric] c_def eff_iffs result_iffs)
  have "unat w = c" using w by (auto simp: try_from_nat_def unat_of_nat split: if_splits)
  then have "unat x < c" using random_below_less [OF x] by (simp add: c_def word_less_nat_alt)
  then show ?thesis using low p by (simp add: base_def [symmetric] c_def)
qed

lemma encode_chunks_sizes:
  assumes fill: "good_random fill" and opts: "options_ok (gk_options g)"
  shows "encode_chunks blake fill g packet mid n is r = (Inr ws, r') \<Longrightarrow> k < length is \<Longrightarrow>
     SALT_LENGTH + HEADER_SIZE + length (chunk_payload packet (unat n) (is ! k)) \<le> max_packet_size (gk_options g) \<Longrightarrow>
     min_packet_size (gk_options g) \<le> length (ws ! k) \<and> length (ws ! k) \<le> max_packet_size (gk_options g)"
proof (induction "is" arbitrary: ws r k)
  case Nil
  then show ?case by simp
next
  case (Cons i "is")
  let ?c = "chunk_payload packet (unat n) i"
  obtain p pad bs salt ws' r1 r2 r3 r4 r5 where len: "random_padding_len fill (gk_options g) (length ?c) r = (Inr p, r1)"
    and pad: "fill_random fill p r1 = (Inr pad, r2)"
    and enc: "gecko_frame_encode \<lparr>message_id = mid, chunk_index = word_of_nat i, total_chunks = n,
       padding = pad, payload = ?c\<rparr> = Inr bs"
    and salt: "fill_random fill SALT_LENGTH r3 = (Inr salt, r4)"
    and rest: "encode_chunks blake fill g packet mid n is r5 = (Inr ws', r')"
    and ws: "ws = obfuscate blake (gk_salamander g) bs salt # ws'"
    using Cons.prems(1) by (auto simp: eff_iffs Let_def gecko_obfuscate_def)
  have "length (obfuscate blake (gk_salamander g) bs salt) = SALT_LENGTH + length bs"
    using sal.enc_length fill_random_length [OF fill salt] by blast
  moreover have "length bs = HEADER_SIZE + p + length ?c"
    using enc fill_random_length [OF fill pad] by (simp add: gecko_frame_encode_Inr HEADER_SIZE_def)
  ultimately have one: "length (ws ! 0) = SALT_LENGTH + HEADER_SIZE + length ?c + p" using ws by simp
  show ?case
  proof (cases k)
    case 0
    then show ?thesis using random_padding_len_fits [OF len opts] Cons.prems(3) one by simp
  next
    case (Suc k')
    then show ?thesis using Cons.IH [OF rest, of k'] Cons.prems(2,3) ws by simp
  qed
qed

lemma length_chunk_payload_le: "i < n \<Longrightarrow> length (chunk_payload p n i) \<le> length p"
  by (simp add: chunk_payload_def Let_def)

section \<open>A source that fills its share of the table\<close>

definition blocked_by :: "string \<Rightarrow> u8 set \<Rightarrow> reassembler \<Rightarrow> bool" where
  "blocked_by source ids r \<longleftrightarrow> reasm_inv r \<and> source_count source (entries r) = card ids \<and> finite ids \<and>
     length (entries r) = card ids \<and> (\<forall>i. hm_get (entries r) (source, i) \<noteq> None \<longleftrightarrow> i \<in> ids)"

lemma accept_first_chunk:
  assumes b: "blocked_by source ids r" and f: "validate_fragment (chunk_index f) (total_chunks f) = Inr ()"
    and fresh: "message_id f \<notin> ids" and few: "card ids < MAX_REASSEMBLIES_PER_SOURCE"
  shows "blocked_by source (insert (message_id f) ids) (fst (accept r source f now))"
proof -
  have inv: "reasm_inv r" and acc: "accounted r" and ok: "hm_ok (entries r)"
    using b by (auto simp: blocked_by_def reasm_inv_def accounted_def)
  have none: "hm_get (entries r) (source, message_id f) = None" using b fresh by (auto simp: blocked_by_def)
  have n: "2 \<le> unat (total_chunks f)" "unat (total_chunks f) \<le> 8" "unat (chunk_index f) < unat (total_chunks f)"
    using f by (auto simp: validate_fragment_ok)
  have small: "\<not> MAX_REASSEMBLIES \<le> length (entries r)"
    using b few by (simp add: blocked_by_def MAX_REASSEMBLIES_def MAX_REASSEMBLIES_PER_SOURCE_def)
  let ?e = "(new_entry f now)\<lparr>entry_chunks := (replicate (unat (total_chunks f)) None)[unat (chunk_index f) := Some (payload f)],
     entry_received := 1\<rparr>"
  have "entries (fst (accept r source f now)) =
      hm_insert (source, message_id f) ?e (hm_insert (source, message_id f) (new_entry f now) (entries r))"
    using none b few small n
    by (simp add: accept_def Let_def accounted_count [OF acc] blocked_by_def open_entry_def store_chunk_def
        hm.get_insert new_entry_def)
  then show ?thesis
    using b fresh none ok reasm_inv_accept [OF inv n(1,2)]
    by (simp add: blocked_by_def hm_laws source_count_insert)
qed

lemma accept_first_chunks:
  "blocked_by source ids r \<Longrightarrow> (\<forall>a \<in> set as. validate_fragment (chunk_index (fst a)) (total_chunks (fst a)) = Inr ()) \<Longrightarrow>
   distinct (map (message_id \<circ> fst) as) \<Longrightarrow> (message_id \<circ> fst) ` set as \<inter> ids = {} \<Longrightarrow>
   card ids + length as \<le> MAX_REASSEMBLIES_PER_SOURCE \<Longrightarrow>
   blocked_by source (ids \<union> (message_id \<circ> fst) ` set as) (fst (accept_all r source as))"
proof (induction as arbitrary: r ids)
  case Nil
  then show ?case by simp
next
  case (Cons a as)
  have b: "blocked_by source (insert (message_id (fst a)) ids) (fst (accept r source (fst a) (snd a)))"
    using Cons.prems by (intro accept_first_chunk) auto
  have "finite ids" using Cons.prems(1) by (simp add: blocked_by_def)
  then have "blocked_by source (insert (message_id (fst a)) ids \<union> (message_id \<circ> fst) ` set as)
      (fst (accept_all (fst (accept r source (fst a) (snd a))) source as))"
    using Cons.prems by (intro Cons.IH [OF b]) (auto simp: card_insert_if)
  then show ?case by (simp add: split_beta Let_def)
qed

lemma accept_all_blocked:
  assumes b: "blocked_by source ids r" and full: "MAX_REASSEMBLIES_PER_SOURCE \<le> card ids"
  shows "(message_id \<circ> fst) ` set as \<inter> ids = {} \<Longrightarrow> accept_all r source as = (r, replicate (length as) None)"
proof (induction as)
  case Nil
  show ?case by simp
next
  case (Cons a as)
  have acc: "accounted r" using b by (simp add: blocked_by_def reasm_inv_def)
  have "accept r source (fst a) (snd a) = (r, None)"
    using Cons.prems b full by (auto simp: accept_def Let_def accounted_count [OF acc] blocked_by_def)
  with Cons show ?case by simp
qed

lemma blocked_by_default: "blocked_by source {} reassembler_default"
  by (simp add: blocked_by_def) (simp add: reassembler_default_def source_count_def)

lemma encode_packet_delivers:
  assumes "good_random fill"
    and "encode_packet blake fill g packet r = (Inr wires, g', r')" and "packet \<noteq> []"
    and "gk_salamander h = gk_salamander g" and "reasm_inv (gk_reassembler h)"
    and "hm_get (entries (gk_reassembler h)) (source, ucast (next_message_id g + 1)) = None"
    and "source_count source (entries (gk_reassembler h)) < MAX_REASSEMBLIES_PER_SOURCE"
    and "insert j (fst ` set as) = {..<length wires}" and "j \<notin> fst ` set as"
  shows "snd (receive_all blake h source (map (\<lambda>(i, t). (wires ! i, t)) (as @ [(j, t)]))) =
     replicate (length as) (Inr None) @ [Inr (Some packet)]"
proof (cases "packet ! 0 AND FRAGMENT_FLAG = 0")
  case True
  obtain salt r1 where "fill_random fill SALT_LENGTH r = (Inr salt, r1)"
    and wires: "wires = [obfuscate blake (gk_salamander g) packet salt]"
    using assms(2,3) True
    by (auto simp: encode_packet_def gecko_obfuscate_def eff_iffs split: prod.splits sum.splits)
  then have "length salt = SALT_LENGTH" using fill_random_length [OF assms(1)] by blast
  then have "deobfuscate blake (gk_salamander h) (wires ! 0) = Inr packet"
    unfolding wires using assms(3,4) sal.dec_enc [of salt packet] by simp
  moreover have "insert j (fst ` set as) = {0}" using assms(8) wires by (simp add: lessThan_Suc)
  then have "j = 0 \<and> fst ` set as = {}" using assms(9) by (rule insert_eq_singleton)
  ultimately show ?thesis using True by (simp add: receive_packet_def)
next
  case False
  obtain n where "length wires = unat n"
    "\<forall>i < unat n. is_wire_of blake (gk_salamander g) packet (ucast (next_message_id g + 1)) n i (wires ! i)"
    by (rule encode_packet_long [OF assms(1-3) False])
  then show ?thesis
    using assms(4-9) by (intro receive_all_reassembles) (auto simp: awaiting_def)
qed

section \<open>Properties\<close>

text \<open>
  C1: A packet encoded by one Gecko endpoint comes out of an endpoint with the same password exactly
  when the last of its datagrams arrives, in whatever order and at whatever times the datagrams arrive
  and however often some are repeated before the last one; until then nothing is delivered. The receiver
  must have no stale entry for the message id and fewer than eight open messages from that source.
\<close>

theorem gecko_roundtrip:
  assumes "good_random fill"
    and "encode_packet blake fill g packet r = (Inr wires, g', r')" and "packet \<noteq> []"
    and "gk_salamander h = gk_salamander g" and "reasm_inv (gk_reassembler h)"
    and "hm_get (entries (gk_reassembler h)) (source, ucast (next_message_id g + 1)) = None"
    and "source_count source (entries (gk_reassembler h)) < MAX_REASSEMBLIES_PER_SOURCE"
    and "insert j (fst ` set as) = {..<length wires}" and "j \<notin> fst ` set as"
  shows "snd (receive_all blake h source (map (\<lambda>(i, t). (wires ! i, t)) (as @ [(j, t)]))) =
     replicate (length as) (Inr None) @ [Inr (Some packet)]"
  using assms by (rule encode_packet_delivers)

definition zero_hash :: "nat \<Rightarrow> bytes \<Rightarrow> bytes" where
  "zero_hash n input = replicate n 0"

definition sample_gecko :: gecko where
  "sample_gecko = \<lparr>gk_salamander = \<lparr>password = [1, 2, 3, 4]\<rparr>,
     gk_options = \<lparr>min_packet_size = 16, max_packet_size = 24\<rparr>, next_message_id = 0,
     gk_reassembler = reassembler_default\<rparr>"

definition sample_wires :: "bytes list" where
  "sample_wires = [replicate 8 0 @ [128, 1, 0x02, 0, 1, 0, 128, 1], replicate 8 0 @ [128, 1, 0x12, 0, 0, 2, 3, 4]]"

lemma sample_encode:
  "encode_packet zero_hash zero_random sample_gecko [128, 1, 2, 3, 4] () =
     (Inr sample_wires, sample_gecko\<lparr>next_message_id := 1\<rparr>, ())"
  by code_simp

lemma good_zero_random [simp]: "good_random zero_random"
  by (auto simp: good_random_def zero_random_def)

theorem gecko_roundtrip_witness:
  "encode_packet zero_hash zero_random sample_gecko [128, 1, 2, 3, 4] () =
     (Inr sample_wires, sample_gecko\<lparr>next_message_id := 1\<rparr>, ()) \<and>
   snd (receive_all zero_hash sample_gecko ''a'' (map (\<lambda>(i, t). (sample_wires ! i, t)) ([(1, 5), (1, 6)] @ [(0, 7)]))) =
     replicate (length [(1 :: nat, 5 :: nat), (1, 6)]) (Inr None) @ [Inr (Some [128, 1, 2, 3, 4])]"
proof
  show "snd (receive_all zero_hash sample_gecko ''a'' (map (\<lambda>(i, t). (sample_wires ! i, t)) ([(1, 5), (1, 6)] @ [(0, 7)]))) =
     replicate (length [(1 :: nat, 5 :: nat), (1, 6)]) (Inr None) @ [Inr (Some [128, 1, 2, 3, 4])]"
    by (rule gecko_roundtrip [OF good_zero_random sample_encode])
      (auto simp: sample_gecko_def reassembler_default_def source_count_def sample_wires_def
        MAX_REASSEMBLIES_PER_SOURCE_def reasm_inv_def accounted_def lessThan_Suc)
qed (rule sample_encode)

text \<open>
  C14: Whatever datagrams arrive from whatever sources, and whenever expiry runs, the table of incomplete
  messages has at most 4096 entries and at most eight per source, and the count kept per source is the
  number of entries of that source.
\<close>

theorem gecko_table_bounded:
  assumes "gecko_new pw opts = Inr g"
  shows "let r = gk_reassembler (foldl (gecko_step blake) g events) in
     length (entries r) \<le> MAX_REASSEMBLIES \<and>
     source_count s (entries r) \<le> MAX_REASSEMBLIES_PER_SOURCE \<and>
     unwrap_or 0 (hm_get (per_source r) s) = source_count s (entries r)"
proof -
  have "reasm_inv (gk_reassembler (foldl (gecko_step blake) g events))"
    using gecko_new_ok [OF assms(1)] by (intro gk_table.inv_run) simp
  then show ?thesis by (simp add: reasm_inv_def accounted_count Let_def)
qed

theorem gecko_table_bounded_witness:
  "\<exists>g. gecko_new [1, 2, 3, 4] \<lparr>min_packet_size = 0, max_packet_size = 0\<rparr> = Inr g \<and>
     length (entries (gk_reassembler (foldl (gecko_step zero_hash) g [Receive ''a'' (sample_wires ! 0) 5]))) \<le> MAX_REASSEMBLIES"
proof -
  have "gecko_new [1, 2, 3, 4] \<lparr>min_packet_size = 0, max_packet_size = 0\<rparr> =
      Inr \<lparr>gk_salamander = \<lparr>password = [1, 2, 3, 4]\<rparr>, gk_options = \<lparr>min_packet_size = 512, max_packet_size = 1200\<rparr>,
           next_message_id = 0, gk_reassembler = reassembler_default\<rparr>"
    by code_simp
  then show ?thesis
    using gecko_table_bounded [of _ _ _ zero_hash "[Receive ''a'' (sample_wires ! 0) 5]"] unfolding Let_def by blast
qed

text \<open>
  The datagrams of a fragmented packet number two to eight, and each one whose chunk fits below the
  configured maximum has a size between the configured minimum and maximum.
\<close>

lemma gecko_wire_sizes:
  assumes "good_random fill" and "options_ok (gk_options g)"
    and "encode_packet blake fill g packet r = (Inr wires, g', r')"
    and "packet \<noteq> []" and "packet ! 0 AND FRAGMENT_FLAG \<noteq> 0" and "k < length wires"
    and "SALT_LENGTH + HEADER_SIZE + length (chunk_payload packet (length wires) k) \<le> max_packet_size (gk_options g)"
  shows "2 \<le> length wires \<and> length wires \<le> 8 \<and>
     min_packet_size (gk_options g) \<le> length (wires ! k) \<and> length (wires ! k) \<le> max_packet_size (gk_options g)"
proof -
  obtain n r1 where n: "2 \<le> unat n" "unat n \<le> 8" "length wires = unat n"
    and chunks: "encode_chunks blake fill (g\<lparr>next_message_id := next_message_id g + 1\<rparr>) packet
      (ucast (next_message_id g + 1)) n [0..<unat n] r1 = (Inr wires, r')"
    by (rule encode_packet_long [OF assms(1,3-5)])
  show ?thesis
    using encode_chunks_sizes [OF assms(1) _ chunks, of k] assms(2,6,7) n by simp
qed

text \<open>
  Once a source has left eight messages incomplete, every frame of another message from it is
  dropped, however much later it arrives: only an explicit expiry, which no caller outside the tests
  performs, or the eviction at 4096 entries frees its share.
\<close>

lemma gecko_source_blocked:
  assumes "length first = MAX_REASSEMBLIES_PER_SOURCE" and "distinct (map (message_id \<circ> fst) first)"
    and "\<forall>a \<in> set first. validate_fragment (chunk_index (fst a)) (total_chunks (fst a)) = Inr ()"
    and "(message_id \<circ> fst) ` set later \<inter> (message_id \<circ> fst) ` set first = {}"
  shows "let r = fst (accept_all reassembler_default source first) in
     accept_all r source later = (r, replicate (length later) None)"
proof -
  have "blocked_by source ({} \<union> (message_id \<circ> fst) ` set first)
      (fst (accept_all reassembler_default source first))"
    by (rule accept_first_chunks [OF blocked_by_default assms(3,2)]) (simp_all add: assms(1))
  moreover have "card ((message_id \<circ> fst) ` set first) = MAX_REASSEMBLIES_PER_SOURCE"
    using assms(1,2) distinct_card by fastforce
  ultimately show ?thesis
    unfolding Let_def using assms(4) by (intro accept_all_blocked) auto
qed

definition sample_frame :: "nat \<Rightarrow> gecko_frame \<times> nat" where
  "sample_frame i = (\<lparr>message_id = word_of_nat i, chunk_index = 0, total_chunks = 2, padding = [], payload = [7]\<rparr>, i)"

end
