(* ===== verification/Varint.thy ===== *)
theory Varint
  imports Rust_Std
begin

unbundle bit_operations_syntax

text \<open>
  The variable-length integers of RFC 9000 as \<open>hysteria-protocol/src/varint.rs\<close> writes and reads
  them, and the error type of the protocol crate (\<open>error.rs\<close>). The lemmas show that decoding
  inverts encoding and leaves the rest of the input, that a decoded value is always in range, that
  decoding fails exactly on truncated input, and that the encoding is the shortest one.
\<close>

section \<open>Definitions\<close>

datatype protocol_error =
    UnexpectedEnd
  | VarintTooLarge u64
  | InvalidFrameType u64
  | InvalidAddressLength u64
  | InvalidMessageLength u64
  | InvalidPaddingLength u64
  | TooManyFragments usize

definition MAX_VARINT :: u64 where
  "MAX_VARINT = push_bit 62 1 - 1"

definition varint_len :: "u64 \<Rightarrow> usize" where
  "varint_len v =
     (if v \<le> 63 then 1 else if v \<le> 16383 then 2 else if v \<le> 1073741823 then 4 else 8)"

definition encode_varint :: "u64 \<Rightarrow> bytes \<Rightarrow> protocol_error + bytes" where
  "encode_varint v out =
     (if v > MAX_VARINT then Inl (VarintTooLarge v)
      else if varint_len v = 1 then
        and_then (ok_or (VarintTooLarge v) (try_from_word v)) (\<lambda>b. Inr (out @ [b]))
      else if varint_len v = 2 then
        and_then (ok_or (VarintTooLarge v) (try_from_word v))
          (\<lambda>w :: u16. Inr (out @ be_bytes 2 (w OR 0x4000)))
      else if varint_len v = 4 then
        and_then (ok_or (VarintTooLarge v) (try_from_word v))
          (\<lambda>w :: u32. Inr (out @ be_bytes 4 (w OR 0x80000000)))
      else Inr (out @ be_bytes 8 (v OR 0xc000000000000000)))"

definition decode_varint :: "bytes \<Rightarrow> protocol_error + u64 \<times> bytes" where
  "decode_varint input =
     (case input of
        [] \<Rightarrow> Inl UnexpectedEnd
      | first # _ \<Rightarrow>
          (let len = push_bit (unat (drop_bit 6 first)) (1 :: nat) in
           if length input < len then Inl UnexpectedEnd
           else Inr (foldl be_step (ucast (first AND 0x3f)) (take (len - 1) (drop 1 input)),
                     drop len input)))"

section \<open>The tagged first byte\<close>

text \<open>
  All four forms are one: \<open>m + 1\<close> bytes, the two highest bits holding the tag \<open>t\<close>.
\<close>

definition tagged :: "nat \<Rightarrow> nat \<Rightarrow> u64 \<Rightarrow> u64" where
  "tagged m t v = v OR push_bit (8 * m + 6) (word_of_nat t)"

lemma bit_value_less: "unat (v :: u64) < 2 ^ n \<Longrightarrow> bit v i \<Longrightarrow> i < n"
proof (rule ccontr)
  assume v: "unat v < 2 ^ n" and i: "bit v i" and "\<not> i < n"
  have "take_bit n v = v" using v
    by (metis take_bit_nat_eq_self unsigned_take_bit_eq word_eq_iff_unsigned)
  then have "bit (take_bit n v) i" using i by simp
  with \<open>\<not> i < n\<close> show False by (simp add: bit_take_bit_iff)
qed

lemma bit_tagged:
  assumes "m < 8" and "i < 64"
  shows "bit (tagged m t v) i = (bit v i \<or> (8 * m + 6 \<le> i \<and> bit (word_of_nat t :: u64) (i - (8 * m + 6))))"
  using assms by (simp add: tagged_def bit_simps)

lemma bit_small_nat: "t < 4 \<Longrightarrow> bit (word_of_nat t :: u64) j \<Longrightarrow> j < 2"
  using bit_value_less [of "word_of_nat t" 2 j] by (simp add: unat_of_nat)

lemma tagged_first:
  assumes "unat v < 2 ^ (8 * m + 6)" and "t < 4" and "m < 8"
  shows "drop_bit 6 (ucast (drop_bit (8 * m) (tagged m t v)) :: u8) = word_of_nat t"
proof (rule bit_word_eqI)
  fix i
  assume i: "i < LENGTH(8)"
  have small: "bit (word_of_nat t :: u64) j = bit (word_of_nat t :: u8) j" if "j < 8" for j
    using that by (simp add: bit_simps)
  have "bit (drop_bit 6 (ucast (drop_bit (8 * m) (tagged m t v)) :: u8)) i =
      (i < 2 \<and> bit (tagged m t v) (8 * m + 6 + i))"
    by (auto simp: bit_simps ac_simps)
  also have "\<dots> = (i < 2 \<and> bit (word_of_nat t :: u64) i)"
    using assms(1,3) bit_value_less [of v "8 * m + 6" "8 * m + 6 + i"] by (auto simp: bit_tagged)
  also have "\<dots> = bit (word_of_nat t :: u8) i"
    using i small [of i] bit_small_nat [OF assms(2), of i] by auto
  finally show "bit (drop_bit 6 (ucast (drop_bit (8 * m) (tagged m t v)) :: u8)) i =
      bit (word_of_nat t :: u8) i" .
qed

lemma mask6: "(0x3f :: u8) = mask 6"
  by (simp add: mask_eq_exp_minus_1)

lemma tagged_fold:
  assumes v: "unat v < 2 ^ (8 * m + 6)" and m: "m < 8"
  shows "foldl be_step (ucast ((ucast (drop_bit (8 * m) (tagged m t v)) :: u8) AND 0x3f))
           (be_bytes m (tagged m t v)) = v"
proof (rule bit_word_eqI)
  fix i
  assume i: "i < LENGTH(64)"
  have b: "bit v i \<Longrightarrow> i < 8 * m + 6" using v by (rule bit_value_less)
  show "bit (foldl be_step (ucast ((ucast (drop_bit (8 * m) (tagged m t v)) :: u8) AND 0x3f) :: u64)
           (be_bytes m (tagged m t v))) i = bit v i"
    unfolding foldl_be_step mask6
    using i b m by (auto simp: bit_simps bit_tagged)
qed

lemma decode_tagged:
  assumes v: "unat v < 2 ^ (8 * m + 6)" and t: "t < 4" and m: "Suc m = 2 ^ t"
  shows "decode_varint (be_bytes (Suc m) (tagged m t v) @ rest) = Inr (v, rest)"
proof -
  let ?w = "tagged m t v"
  have m8: "m < 8" using m t power_strict_increasing [of t 4 "2 :: nat"] by (cases "t < 3") (auto simp: less_Suc_eq numeral_eq_Suc)
  have len: "2 ^ unat (drop_bit 6 (ucast (drop_bit (8 * m) ?w) :: u8)) = Suc m"
    using tagged_first [OF v t m8] t m by (simp add: unat_of_nat)
  show ?thesis
    using tagged_fold [OF v m8, of t] by (simp add: decode_varint_def len Let_def)
qed

section \<open>Encoding and decoding\<close>

lemma be_bytes_ucast:
  "8 * n \<le> LENGTH('b) \<Longrightarrow> 8 * n \<le> LENGTH('a) \<Longrightarrow>
   be_bytes n (ucast (w :: 'a::len word) :: 'b::len word) = be_bytes n w"
proof (induction n)
  case 0
  show ?case by simp
next
  case (Suc n)
  have "(ucast (drop_bit (8 * n) (ucast w :: 'b word)) :: u8) = ucast (drop_bit (8 * n) w)"
    using Suc.prems by (intro bit_word_eqI) (auto simp: bit_simps)
  with Suc show ?case by simp
qed

lemma varint_len_cases:
  obtains "varint_len v = 1" "unat v < 2 ^ 6" | "varint_len v = 2" "unat v < 2 ^ 14"
    | "varint_len v = 4" "unat v < 2 ^ 30" | "varint_len v = 8"
proof (cases "v \<le> 63")
  case True
  then show ?thesis by (intro that(1)) (simp_all add: varint_len_def word_le_nat_alt)
next
  case a: False
  show ?thesis
  proof (cases "v \<le> 16383")
    case True
    with a show ?thesis by (intro that(2)) (simp_all add: varint_len_def word_le_nat_alt)
  next
    case b: False
    show ?thesis
    proof (cases "v \<le> 1073741823")
      case True
      with a b show ?thesis by (intro that(3)) (simp_all add: varint_len_def word_le_nat_alt)
    next
      case False
      with a b show ?thesis by (intro that(4)) (simp add: varint_len_def)
    qed
  qed
qed

lemma unat_MAX_VARINT: "unat MAX_VARINT = 2 ^ 62 - 1"
  by (simp add: MAX_VARINT_def)

lemma encode_varint_tagged:
  assumes "v \<le> MAX_VARINT"
  shows "\<exists>m t. encode_varint v out = Inr (out @ be_bytes (Suc m) (tagged m t v)) \<and> t < 4 \<and>
           Suc m = 2 ^ t \<and> varint_len v = Suc m \<and> unat v < 2 ^ (8 * m + 6)"
proof -
  have nv: "\<not> v > MAX_VARINT" using assms by simp
  have v62: "unat v < 2 ^ 62" using assms unat_MAX_VARINT by (simp add: word_le_nat_alt)
  show ?thesis
  proof (cases rule: varint_len_cases [of v])
    case 1
    have "encode_varint v out = Inr (out @ be_bytes (Suc 0) (tagged 0 0 v))"
      using nv 1 by (simp add: encode_varint_def try_from_word_def tagged_def)
    with 1 show ?thesis by (intro exI [of _ 0]) simp
  next
    case 2
    have "be_bytes 2 ((ucast v :: u16) OR 0x4000) = be_bytes 2 (ucast (tagged 1 1 v) :: u16)"
      by (simp add: tagged_def push_bit_eq_mult unsigned_or_eq)
    then have "encode_varint v out = Inr (out @ be_bytes (Suc 1) (tagged 1 1 v))"
      using nv 2 by (simp add: encode_varint_def try_from_word_def be_bytes_ucast numeral_2_eq_2 [symmetric])
    with 2 show ?thesis by (intro exI [of _ 1]) simp
  next
    case 3
    have "be_bytes 4 ((ucast v :: u32) OR 0x80000000) = be_bytes 4 (ucast (tagged 3 2 v) :: u32)"
      by (simp add: tagged_def push_bit_eq_mult unsigned_or_eq)
    then have "encode_varint v out = Inr (out @ be_bytes (Suc 3) (tagged 3 2 v))"
      using nv 3 by (simp add: encode_varint_def try_from_word_def be_bytes_ucast)
    with 3 show ?thesis by (intro exI [of _ 3] exI [of _ 2]) simp
  next
    case 4
    have "encode_varint v out = Inr (out @ be_bytes (Suc 7) (tagged 7 3 v))"
      using nv 4 by (simp add: encode_varint_def tagged_def push_bit_eq_mult)
    with 4 v62 show ?thesis by (intro exI [of _ 7] exI [of _ 3]) simp
  qed
qed

lemma varint_roundtrip_append:
  assumes "v \<le> MAX_VARINT"
  obtains bs where "\<And>out. encode_varint v out = Inr (out @ bs)" "length bs = varint_len v"
    "\<And>rest. decode_varint (bs @ rest) = Inr (v, rest)"
proof -
  obtain m t where enc: "encode_varint v [] = Inr (be_bytes (Suc m) (tagged m t v))"
    and t: "t < 4" and m: "Suc m = 2 ^ t" and len: "varint_len v = Suc m"
    and v: "unat v < 2 ^ (8 * m + 6)"
    using encode_varint_tagged [OF assms, of "[]"] unfolding append_Nil by blast
  have app: "encode_varint v out = Inr (out @ be_bytes (Suc m) (tagged m t v))" for out
  proof -
    obtain m' t' where e: "encode_varint v out = Inr (out @ be_bytes (Suc m') (tagged m' t' v))"
      and m': "Suc m' = 2 ^ t'" and l: "varint_len v = Suc m'"
      using encode_varint_tagged [OF assms, of out] by blast
    have "m' = m" using l len by simp
    moreover have "t' = t" using m m' calculation by simp
    ultimately show ?thesis using e by simp
  qed
  show ?thesis
    by (rule that [of "be_bytes (Suc m) (tagged m t v)"])
      (simp_all only: app length_be_bytes len decode_tagged [OF v t m])
qed

lemma decode_varint_Inr:
  assumes "decode_varint input = Inr (v, rest)"
  obtains pre t where "input = pre @ rest" "t < 4" "length pre = 2 ^ t"
    "unat v < 2 ^ (8 * length pre - 2)"
proof -
  obtain b bs where i: "input = b # bs" using assms by (cases input) (auto simp: decode_varint_def)
  define t where "t = unat (drop_bit 6 b)"
  have t: "t < 4"
  proof -
    have "unat (drop_bit 6 b) = unat b div 64" by (simp add: drop_bit_eq_div unat_div)
    then show ?thesis using unat_less_word [of b] by (simp add: t_def)
  qed
  have len: "\<not> length input < 2 ^ t" and v: "v = foldl be_step (ucast (b AND 0x3f)) (take (2 ^ t - 1) bs)"
    and rest: "rest = drop (2 ^ t) input"
    using assms by (simp_all add: decode_varint_def i t_def Let_def split: if_splits)
  have t8: "(2 :: nat) ^ t \<le> 8" using power_increasing [of t 3 "2 :: nat"] t by simp
  have low: "unat (ucast (b AND 0x3f) :: u64) < 2 ^ 6"
  proof -
    have "unat (b AND 0x3f) \<le> unat (0x3f :: u8)"
      using word_and_le1 [of b "0x3f"] by (simp add: word_le_nat_alt and.commute)
    then show ?thesis by (simp add: unsigned_ucast_eq take_bit_nat_eq_self)
  qed
  have tl: "length (take (2 ^ t - 1) bs) = 2 ^ t - 1" using len i by simp
  have "unat v < 2 ^ (6 + 8 * (2 ^ t - 1))"
    using unat_foldl_be_step [OF low, of "take (2 ^ t - 1) bs"] tl t8 v by simp
  also have "6 + 8 * (2 ^ t - 1) = 8 * 2 ^ t - (2 :: nat)"
    using one_le_power [of "2 :: nat" t] by (simp add: diff_mult_distrib2)
  finally have "unat v < 2 ^ (8 * length (take (2 ^ t) input) - 2)" using len by simp
  then show ?thesis using that [of "take (2 ^ t) input" t] rest t len by simp
qed

lemma varint_len_le:
  assumes "t < 4" and "unat v < 2 ^ (8 * 2 ^ t - 2)"
  shows "varint_len v \<le> 2 ^ t"
proof -
  consider "t = 0" | "t = 1" | "t = 2" | "t = 3" using assms(1) by linarith
  then show ?thesis
    using assms(2) by cases (auto simp: varint_len_def word_le_nat_alt)
qed

interpretation varint: frame_codec "\<lambda>v. encode_varint v []" decode_varint "\<lambda>v. v" "\<lambda>v. v \<le> MAX_VARINT"
proof (unfold_locales, goal_cases)
  case (1 v)
  then show ?case by (metis varint_roundtrip_append)
next
  case (2 v bs rest)
  then show ?case by (metis append_Nil sum.inject(2) varint_roundtrip_append)
qed

lemma varint_len_pos [simp]: "0 < varint_len v"
  by (simp add: varint_len_def)

section \<open>Properties\<close>

text \<open>
  Encoding any value of at most 62 bits succeeds, appends exactly \<open>varint_len\<close> bytes to the
  output, and decoding those bytes followed by anything returns the value and what follows.
\<close>

lemma varint_roundtrip:
  assumes "v \<le> MAX_VARINT"
  shows "\<exists>bs. encode_varint v out = Inr (out @ bs) \<and> length bs = varint_len v \<and>
           (\<forall>rest. decode_varint (bs @ rest) = Inr (v, rest))"
  using varint_roundtrip_append [OF assms] by metis

text \<open>
  A decoded value always fits in 62 bits, the bytes consumed are a prefix of the input of length
  1, 2, 4 or 8, and no input shorter than \<open>varint_len\<close> of the value decodes to it, so the encoder's
  form is the shortest one (non-minimal forms are accepted).
\<close>

lemma varint_decode_range:
  assumes "decode_varint input = Inr (v, rest)"
  shows "v \<le> MAX_VARINT \<and>
         (\<exists>pre. input = pre @ rest \<and> length pre \<in> {1, 2, 4, 8} \<and> varint_len v \<le> length pre)"
proof -
  obtain pre t where pre: "input = pre @ rest" and t: "t < 4" and len: "length pre = 2 ^ t"
    and v: "unat v < 2 ^ (8 * length pre - 2)"
    using decode_varint_Inr [OF assms] .
  have t8: "(2 :: nat) ^ t \<le> 8" using power_increasing [of t 3 "2 :: nat"] t by simp
  have "(2 :: nat) ^ (8 * length pre - 2) \<le> 2 ^ 62" using len t8 by (intro power_increasing) simp_all
  with v have "v \<le> MAX_VARINT" by (simp add: word_le_nat_alt unat_MAX_VARINT)
  moreover have "length pre \<in> {1, 2, 4, 8}"
  proof -
    consider "t = 0" | "t = 1" | "t = 2" | "t = 3" using t by linarith
    then show ?thesis using len by cases simp_all
  qed
  ultimately show ?thesis using pre len v varint_len_le [OF t] by auto
qed

end
