(* ===== verification/Messages.thy ===== *)
theory Messages
  imports Varint
begin

unbundle bit_operations_syntax

text \<open>
  The proxy messages of \<open>hysteria-protocol/src/proxy.rs\<close>: the TCP request and response that open a
  proxied stream, and the UDP message carried in a QUIC datagram. Each decoder inverts its encoder on
  the values a peer may send, and stays within the length limits on any input.
\<close>

section \<open>Definitions\<close>

abbreviation (input) FRAME_TYPE_TCP_REQUEST :: u64 where
  "FRAME_TYPE_TCP_REQUEST \<equiv> 0x401"

abbreviation (input) MAX_ADDRESS_LENGTH :: usize where
  "MAX_ADDRESS_LENGTH \<equiv> 2048"

abbreviation (input) MAX_MESSAGE_LENGTH :: usize where
  "MAX_MESSAGE_LENGTH \<equiv> 2048"

abbreviation (input) MAX_PADDING_LENGTH :: usize where
  "MAX_PADDING_LENGTH \<equiv> 4096"

abbreviation (input) MAX_UDP_SIZE :: usize where
  "MAX_UDP_SIZE \<equiv> 4096"

record tcp_request =
  req_address :: string

record tcp_response =
  resp_ok :: bool
  resp_message :: string

record udp_message =
  session_id :: u32
  packet_id :: u16
  fragment_id :: u8
  fragment_count :: u8
  udp_address :: string
  udp_data :: bytes

definition take_bytes :: "bytes \<Rightarrow> usize \<Rightarrow> protocol_error + bytes \<times> bytes" where
  "take_bytes input len =
     (if length input < len then Inl UnexpectedEnd else Inr (take len input, drop len input))"

definition check_write_lengths :: "usize \<Rightarrow> usize \<Rightarrow> usize \<Rightarrow> protocol_error + unit" where
  "check_write_lengths address padding message =
     (if address > MAX_ADDRESS_LENGTH then Inl (InvalidAddressLength (word_of_nat address))
      else if padding > MAX_PADDING_LENGTH then Inl (InvalidPaddingLength (word_of_nat padding))
      else if message > MAX_MESSAGE_LENGTH then Inl (InvalidMessageLength (word_of_nat message))
      else Inr ())"

definition tcp_request_encode :: "tcp_request \<Rightarrow> bytes \<Rightarrow> protocol_error + bytes" where
  "tcp_request_encode r padding =
     and_then (check_write_lengths (length (req_address r)) (length padding) 0) (\<lambda>_.
     and_then (encode_varint FRAME_TYPE_TCP_REQUEST []) (\<lambda>out.
     and_then (encode_varint (word_of_nat (length (req_address r))) out) (\<lambda>out.
     and_then (encode_varint (word_of_nat (length padding)) (out @ as_bytes (req_address r))) (\<lambda>out.
     Inr (out @ padding)))))"

definition tcp_request_decode_body :: "bytes \<Rightarrow> protocol_error + tcp_request \<times> bytes" where
  "tcp_request_decode_body input =
     and_then (decode_varint input) (\<lambda>(address_len, input).
     if address_len = 0 \<or> unat address_len > MAX_ADDRESS_LENGTH
     then Inl (InvalidAddressLength address_len) else
     and_then (take_bytes input (unat address_len)) (\<lambda>(address_bytes, input).
     and_then (decode_varint input) (\<lambda>(padding_len, input).
     if unat padding_len > MAX_PADDING_LENGTH
     then Inl (InvalidPaddingLength padding_len) else
     and_then (take_bytes input (unat padding_len)) (\<lambda>(_, input).
     Inr (\<lparr>req_address = from_utf8_lossy address_bytes\<rparr>, input)))))"

definition tcp_request_decode :: "bytes \<Rightarrow> protocol_error + tcp_request \<times> bytes" where
  "tcp_request_decode input =
     and_then (decode_varint input) (\<lambda>(frame_type, input).
     if frame_type \<noteq> FRAME_TYPE_TCP_REQUEST then Inl (InvalidFrameType frame_type)
     else tcp_request_decode_body input)"

definition tcp_response_encode :: "tcp_response \<Rightarrow> bytes \<Rightarrow> protocol_error + bytes" where
  "tcp_response_encode r padding =
     and_then (check_write_lengths 0 (length padding) (length (resp_message r))) (\<lambda>_.
     and_then (encode_varint (word_of_nat (length (resp_message r))) [if resp_ok r then 0 else 1]) (\<lambda>out.
     and_then (encode_varint (word_of_nat (length padding)) (out @ as_bytes (resp_message r))) (\<lambda>out.
     Inr (out @ padding))))"

definition tcp_response_decode :: "bytes \<Rightarrow> protocol_error + tcp_response \<times> bytes" where
  "tcp_response_decode input =
     and_then (take_bytes input 1) (\<lambda>(status, input).
     and_then (decode_varint input) (\<lambda>(message_len, input).
     if unat message_len > MAX_MESSAGE_LENGTH
     then Inl (InvalidMessageLength message_len) else
     and_then (take_bytes input (unat message_len)) (\<lambda>(message_bytes, input).
     and_then (decode_varint input) (\<lambda>(padding_len, input).
     if unat padding_len > MAX_PADDING_LENGTH
     then Inl (InvalidPaddingLength padding_len) else
     and_then (take_bytes input (unat padding_len)) (\<lambda>(_, input).
     Inr (\<lparr>resp_ok = (status ! 0 = 0), resp_message = from_utf8_lossy message_bytes\<rparr>, input))))))"

definition header_size :: "udp_message \<Rightarrow> usize" where
  "header_size m = 8 + varint_len (word_of_nat (length (udp_address m))) + length (udp_address m)"

definition encoded_size :: "udp_message \<Rightarrow> usize" where
  "encoded_size m = header_size m + length (udp_data m)"

definition udp_message_encode :: "udp_message \<Rightarrow> protocol_error + bytes" where
  "udp_message_encode m =
     (if length (udp_address m) > MAX_MESSAGE_LENGTH
      then Inl (InvalidAddressLength (word_of_nat (length (udp_address m))))
      else and_then (encode_varint (word_of_nat (length (udp_address m)))
             (be_bytes 4 (session_id m) @ be_bytes 2 (packet_id m) @
              [fragment_id m] @ [fragment_count m])) (\<lambda>out.
           Inr (out @ as_bytes (udp_address m) @ udp_data m)))"

definition udp_message_decode :: "bytes \<Rightarrow> protocol_error + udp_message" where
  "udp_message_decode input =
     and_then (take_bytes input 8) (\<lambda>(fixed, input).
     and_then (decode_varint input) (\<lambda>(address_len, input).
     if address_len = 0 \<or> unat address_len > MAX_MESSAGE_LENGTH
     then Inl (InvalidAddressLength address_len)
     else if length input \<le> unat address_len
     then Inl (InvalidMessageLength (word_of_nat (length input))) else
     and_then (take_bytes input (unat address_len)) (\<lambda>(address_bytes, input).
     Inr \<lparr>session_id = from_be_bytes [fixed ! 0, fixed ! 1, fixed ! 2, fixed ! 3],
          packet_id = from_be_bytes [fixed ! 4, fixed ! 5],
          fragment_id = fixed ! 6,
          fragment_count = fixed ! 7,
          udp_address = from_utf8_lossy address_bytes,
          udp_data = input\<rparr>)))"

section \<open>Shared lemmas\<close>

lemma take_bytes_append [simp]: "take_bytes (a @ b) (length a) = Inr (a, b)"
  by (simp add: take_bytes_def)

lemma take_bytes_append_eq: "n = length a \<Longrightarrow> take_bytes (a @ b) n = Inr (a, b)"
  by simp

lemma take_bytes_Inr: "take_bytes input n = Inr (a, b) \<longleftrightarrow> input = a @ b \<and> length a = n"
  by (auto simp: take_bytes_def)

lemma small_length_varint: "n \<le> 4096 \<Longrightarrow> (word_of_nat n :: u64) \<le> MAX_VARINT"
  by (simp add: word_le_nat_alt unat_MAX_VARINT unat_of_nat)

lemma unat_small_length: "n \<le> 4096 \<Longrightarrow> unat (word_of_nat n :: u64) = n"
  by (simp add: unat_of_nat)

lemma small_length_zero: "n \<le> 4096 \<Longrightarrow> (word_of_nat n :: u64) = 0 \<longleftrightarrow> n = 0"
  using unsigned_eq_0_iff [of "word_of_nat n :: u64", where 'a = nat] by (simp add: unat_small_length)

lemma encode_length_prefix:
  assumes "n \<le> 4096"
  obtains p where "\<And>out. encode_varint (word_of_nat n) out = Inr (out @ p)"
    "\<And>rest. decode_varint (p @ rest) = Inr (word_of_nat n, rest)"
    "length p = varint_len (word_of_nat n)"
  by (rule varint_roundtrip_append [OF small_length_varint [OF assms]]) (rule that)

definition tcp_request_wf :: "tcp_request \<times> bytes \<Rightarrow> bool" where
  "tcp_request_wf = (\<lambda>(r, padding). req_address r \<noteq> [] \<and> length (req_address r) \<le> MAX_ADDRESS_LENGTH \<and>
     valid_string (req_address r) \<and> length padding \<le> MAX_PADDING_LENGTH)"

definition tcp_response_wf :: "tcp_response \<times> bytes \<Rightarrow> bool" where
  "tcp_response_wf = (\<lambda>(r, padding). length (resp_message r) \<le> MAX_MESSAGE_LENGTH \<and>
     valid_string (resp_message r) \<and> length padding \<le> MAX_PADDING_LENGTH)"

definition udp_message_wf :: "udp_message \<Rightarrow> bool" where
  "udp_message_wf m \<longleftrightarrow> udp_address m \<noteq> [] \<and> length (udp_address m) \<le> MAX_MESSAGE_LENGTH \<and>
     valid_string (udp_address m) \<and> udp_data m \<noteq> []"

section \<open>TCP messages\<close>

lemma tcp_request_encode_form:
  assumes "tcp_request_wf (r, padding)"
  obtains ft al pl where "tcp_request_encode r padding = Inr (ft @ al @ as_bytes (req_address r) @ pl @ padding)"
    "\<And>rest. decode_varint (ft @ rest) = Inr (FRAME_TYPE_TCP_REQUEST, rest)"
    "\<And>rest. decode_varint (al @ rest) = Inr (word_of_nat (length (req_address r)), rest)"
    "\<And>rest. decode_varint (pl @ rest) = Inr (word_of_nat (length padding), rest)"
proof -
  have a: "length (req_address r) \<le> 4096" and p: "length padding \<le> 4096"
    and limits: "\<not> length (req_address r) > MAX_ADDRESS_LENGTH" "\<not> length padding > MAX_PADDING_LENGTH"
    using assms by (simp_all add: tcp_request_wf_def)
  have "FRAME_TYPE_TCP_REQUEST \<le> MAX_VARINT"
    by (simp add: MAX_VARINT_def)
  then obtain ft where ft: "\<And>out. encode_varint FRAME_TYPE_TCP_REQUEST out = Inr (out @ ft)"
    "\<And>rest. decode_varint (ft @ rest) = Inr (FRAME_TYPE_TCP_REQUEST, rest)"
    by (rule varint_roundtrip_append) metis
  obtain al where al: "\<And>out. encode_varint (word_of_nat (length (req_address r))) out = Inr (out @ al)"
    "\<And>rest. decode_varint (al @ rest) = Inr (word_of_nat (length (req_address r)), rest)"
    by (rule encode_length_prefix [OF a]) metis
  obtain pl where pl: "\<And>out. encode_varint (word_of_nat (length padding)) out = Inr (out @ pl)"
    "\<And>rest. decode_varint (pl @ rest) = Inr (word_of_nat (length padding), rest)"
    by (rule encode_length_prefix [OF p]) metis
  have "tcp_request_encode r padding = Inr (ft @ al @ as_bytes (req_address r) @ pl @ padding)"
    using limits by (simp add: tcp_request_encode_def check_write_lengths_def ft al pl)
  then show ?thesis using ft al pl that by blast
qed

interpretation tcp_req: frame_codec "\<lambda>(r, padding). tcp_request_encode r padding" tcp_request_decode
  fst tcp_request_wf
proof (unfold_locales, goal_cases)
  case (1 x)
  then show ?case by (cases x) (auto elim!: tcp_request_encode_form)
next
  case (2 x bs rest)
  obtain r padding where x: "x = (r, padding)" by (cases x)
  have wf: "tcp_request_wf (r, padding)" using 2 x by simp
  have a: "length (req_address r) \<le> 2048" "req_address r \<noteq> []" "valid_string (req_address r)"
    and p: "length padding \<le> 4096"
    using wf by (simp_all add: tcp_request_wf_def)
  obtain ft al pl where enc: "tcp_request_encode r padding = Inr (ft @ al @ as_bytes (req_address r) @ pl @ padding)"
    and d: "\<And>rest. decode_varint (ft @ rest) = Inr (FRAME_TYPE_TCP_REQUEST, rest)"
    "\<And>rest. decode_varint (al @ rest) = Inr (word_of_nat (length (req_address r)), rest)"
    "\<And>rest. decode_varint (pl @ rest) = Inr (word_of_nat (length padding), rest)"
    by (rule tcp_request_encode_form [OF wf]) blast
  have "tcp_request_decode ((ft @ al @ as_bytes (req_address r) @ pl @ padding) @ rest) =
      Inr (\<lparr>req_address = req_address r\<rparr>, rest)"
    using a p
    by (simp add: tcp_request_decode_def tcp_request_decode_body_def d unat_small_length
        small_length_zero take_bytes_append_eq)
  then show ?case using 2 enc x by (cases r) auto
qed

lemma tcp_response_encode_form:
  assumes "tcp_response_wf (r, padding)"
  obtains al pl where "tcp_response_encode r padding =
      Inr ((if resp_ok r then 0 else 1) # al @ as_bytes (resp_message r) @ pl @ padding)"
    "\<And>rest. decode_varint (al @ rest) = Inr (word_of_nat (length (resp_message r)), rest)"
    "\<And>rest. decode_varint (pl @ rest) = Inr (word_of_nat (length padding), rest)"
proof -
  have a: "length (resp_message r) \<le> 4096" and p: "length padding \<le> 4096"
    and limits: "\<not> length (resp_message r) > MAX_MESSAGE_LENGTH" "\<not> length padding > MAX_PADDING_LENGTH"
    using assms by (simp_all add: tcp_response_wf_def)
  obtain al where al: "\<And>out. encode_varint (word_of_nat (length (resp_message r))) out = Inr (out @ al)"
    "\<And>rest. decode_varint (al @ rest) = Inr (word_of_nat (length (resp_message r)), rest)"
    by (rule encode_length_prefix [OF a]) metis
  obtain pl where pl: "\<And>out. encode_varint (word_of_nat (length padding)) out = Inr (out @ pl)"
    "\<And>rest. decode_varint (pl @ rest) = Inr (word_of_nat (length padding), rest)"
    by (rule encode_length_prefix [OF p]) metis
  have "tcp_response_encode r padding =
      Inr ((if resp_ok r then 0 else 1) # al @ as_bytes (resp_message r) @ pl @ padding)"
    using limits by (simp add: tcp_response_encode_def check_write_lengths_def al pl)
  then show ?thesis using al pl that by blast
qed

interpretation tcp_resp: frame_codec "\<lambda>(r, padding). tcp_response_encode r padding" tcp_response_decode
  fst tcp_response_wf
proof (unfold_locales, goal_cases)
  case (1 x)
  then show ?case by (cases x) (auto elim!: tcp_response_encode_form)
next
  case (2 x bs rest)
  obtain r padding where x: "x = (r, padding)" by (cases x)
  have wf: "tcp_response_wf (r, padding)" using 2 x by simp
  have a: "length (resp_message r) \<le> 2048" "valid_string (resp_message r)" and p: "length padding \<le> 4096"
    using wf by (simp_all add: tcp_response_wf_def)
  let ?s = "if resp_ok r then 0 else 1 :: u8"
  obtain al pl where enc: "tcp_response_encode r padding = Inr (?s # al @ as_bytes (resp_message r) @ pl @ padding)"
    and d: "\<And>rest. decode_varint (al @ rest) = Inr (word_of_nat (length (resp_message r)), rest)"
    "\<And>rest. decode_varint (pl @ rest) = Inr (word_of_nat (length padding), rest)"
    by (rule tcp_response_encode_form [OF wf]) blast
  have bs: "bs = ?s # al @ as_bytes (resp_message r) @ pl @ padding" using 2 x enc by simp
  have "take_bytes (bs @ rest) 1 = Inr ([?s], al @ as_bytes (resp_message r) @ pl @ padding @ rest)"
    by (simp add: bs take_bytes_def)
  then have "tcp_response_decode (bs @ rest) =
      Inr (\<lparr>resp_ok = resp_ok r, resp_message = resp_message r\<rparr>, rest)"
    using a p
    by (simp add: tcp_response_decode_def d unat_small_length take_bytes_append_eq)
  then show ?case using x by (cases r) simp
qed

section \<open>UDP messages\<close>

lemma udp_message_encode_form:
  assumes "length (udp_address m) \<le> MAX_MESSAGE_LENGTH"
  obtains al where "udp_message_encode m =
      Inr ((be_bytes 4 (session_id m) @ be_bytes 2 (packet_id m) @ [fragment_id m, fragment_count m]) @
           al @ as_bytes (udp_address m) @ udp_data m)"
    "\<And>rest. decode_varint (al @ rest) = Inr (word_of_nat (length (udp_address m)), rest)"
    "length al = varint_len (word_of_nat (length (udp_address m)))"
proof -
  have a: "length (udp_address m) \<le> 4096" and l: "\<not> length (udp_address m) > MAX_MESSAGE_LENGTH"
    using assms by (simp_all add:)
  obtain al where al: "\<And>out. encode_varint (word_of_nat (length (udp_address m))) out = Inr (out @ al)"
    "\<And>rest. decode_varint (al @ rest) = Inr (word_of_nat (length (udp_address m)), rest)"
    "length al = varint_len (word_of_nat (length (udp_address m)))"
    by (rule encode_length_prefix [OF a]) metis
  have "udp_message_encode m =
      Inr ((be_bytes 4 (session_id m) @ be_bytes 2 (packet_id m) @ [fragment_id m, fragment_count m]) @
           al @ as_bytes (udp_address m) @ udp_data m)"
    using l by (simp add: udp_message_encode_def al)
  then show ?thesis using al that by blast
qed

lemma udp_header_fields:
  fixes s :: u32 and p :: u16
  assumes fixed_def: "fixed = be_bytes 4 s @ be_bytes 2 p @ [i, c]"
  shows "from_be_bytes [fixed ! 0, fixed ! 1, fixed ! 2, fixed ! 3] = s"
    and "from_be_bytes [fixed ! 4, fixed ! 5] = p"
    and "fixed ! 6 = i" and "fixed ! 7 = c" and "length fixed = 8"
proof -
  have "[fixed ! 0, fixed ! 1, fixed ! 2, fixed ! 3] = be_bytes 4 s"
    "[fixed ! 4, fixed ! 5] = be_bytes 2 p"
    by (simp_all add: fixed_def numeral_eq_Suc)
  then show "from_be_bytes [fixed ! 0, fixed ! 1, fixed ! 2, fixed ! 3] = s"
    and "from_be_bytes [fixed ! 4, fixed ! 5] = p" by (simp_all only: from_be_bytes_id)
  show "fixed ! 6 = i" and "fixed ! 7 = c" and "length fixed = 8"
    by (simp_all add: fixed_def numeral_eq_Suc)
qed

lemma udp_message_encode_size:
  assumes "udp_message_encode m = Inr bs"
  shows "length bs = encoded_size m"
proof -
  have "length (udp_address m) \<le> MAX_MESSAGE_LENGTH"
    using assms by (simp add: udp_message_encode_def split: if_splits)
  then show ?thesis
  proof (rule udp_message_encode_form)
    fix al
    assume "udp_message_encode m = Inr ((be_bytes 4 (session_id m) @ be_bytes 2 (packet_id m) @
        [fragment_id m, fragment_count m]) @ al @ as_bytes (udp_address m) @ udp_data m)"
      and "length al = varint_len (word_of_nat (length (udp_address m)))"
    then show ?thesis using assms by (auto simp: encoded_size_def header_size_def)
  qed
qed

lemma udp_message_decode_encode:
  assumes "udp_message_wf m"
  obtains bs where "udp_message_encode m = Inr bs" "udp_message_decode bs = Inr m"
proof -
  have a: "length (udp_address m) \<le> 2048" "udp_address m \<noteq> []" "valid_string (udp_address m)"
    and d: "udp_data m \<noteq> []" and l: "length (udp_address m) \<le> MAX_MESSAGE_LENGTH"
    using assms by (simp_all add: udp_message_wf_def)
  define h where "h = be_bytes 4 (session_id m) @ be_bytes 2 (packet_id m) @ [fragment_id m, fragment_count m]"
  note f = udp_header_fields [OF h_def]
  obtain al where enc: "udp_message_encode m = Inr (h @ al @ as_bytes (udp_address m) @ udp_data m)"
    and al: "\<And>rest. decode_varint (al @ rest) = Inr (word_of_nat (length (udp_address m)), rest)"
    unfolding h_def by (rule udp_message_encode_form [OF l]) blast
  have t: "take_bytes (h @ al @ as_bytes (udp_address m) @ udp_data m) 8 =
      Inr (h, al @ as_bytes (udp_address m) @ udp_data m)"
    using f(5) by (simp add: take_bytes_append_eq)
  have "udp_message_decode (h @ al @ as_bytes (udp_address m) @ udp_data m) =
      Inr \<lparr>session_id = session_id m, packet_id = packet_id m, fragment_id = fragment_id m,
           fragment_count = fragment_count m, udp_address = udp_address m, udp_data = udp_data m\<rparr>"
    unfolding udp_message_decode_def t
    using a d f by (simp add: al unat_small_length small_length_zero
        take_bytes_append_eq)
  then show ?thesis using that enc by simp
qed

section \<open>Properties\<close>

text \<open>
  A TCP request with a non-empty address of at most 2048 bytes and at most 4096 bytes of padding
  is encoded, and decoding the encoding followed by proxied stream bytes returns the request and
  exactly those stream bytes.
\<close>

lemma tcp_request_roundtrip:
  assumes "req_address r \<noteq> []" and "length (req_address r) \<le> MAX_ADDRESS_LENGTH"
    and "valid_string (req_address r)" and "length padding \<le> MAX_PADDING_LENGTH"
  shows "\<exists>bs. tcp_request_encode r padding = Inr bs \<and>
           (\<forall>rest. tcp_request_decode (bs @ rest) = Inr (r, rest))"
proof -
  have wf: "tcp_request_wf (r, padding)" using assms by (simp add: tcp_request_wf_def)
  then show ?thesis using tcp_req.enc_total [OF wf] tcp_req.dec_enc [OF wf] by fastforce
qed

text \<open>
  A TCP response round-trips in the same way, status and message included.
\<close>

lemma tcp_response_roundtrip:
  assumes "length (resp_message r) \<le> MAX_MESSAGE_LENGTH"
    and "valid_string (resp_message r)" and "length padding \<le> MAX_PADDING_LENGTH"
  shows "\<exists>bs. tcp_response_encode r padding = Inr bs \<and>
           (\<forall>rest. tcp_response_decode (bs @ rest) = Inr (r, rest))"
proof -
  have wf: "tcp_response_wf (r, padding)" using assms by (simp add: tcp_response_wf_def)
  then show ?thesis using tcp_resp.enc_total [OF wf] tcp_resp.dec_enc [OF wf] by fastforce
qed

text \<open>
  A UDP message with a non-empty address of at most 2048 bytes and a non-empty payload is encoded
  in exactly \<open>encoded_size\<close> bytes, and the datagram decodes to the same message.
\<close>

lemma udp_message_roundtrip:
  assumes "udp_address m \<noteq> []" and "length (udp_address m) \<le> MAX_MESSAGE_LENGTH"
    and "valid_string (udp_address m)" and "udp_data m \<noteq> []"
  shows "\<exists>bs. udp_message_encode m = Inr bs \<and> length bs = encoded_size m \<and> udp_message_decode bs = Inr m"
proof -
  have "udp_message_wf m" using assms by (simp add: udp_message_wf_def)
  then show ?thesis by (rule udp_message_decode_encode) (blast intro: udp_message_encode_size)
qed

text \<open>
  Whatever bytes arrive, a decoded TCP request leaves a suffix of the input, has consumed at most
  8 + 8 + 2048 + 8 + 4096 bytes, and carries an address that is valid UTF-8.
\<close>

lemma tcp_request_decode_bounds:
  assumes "tcp_request_decode input = Inr (r, rest)"
  shows "\<exists>pre. input = pre @ rest \<and> length pre \<le> 24 + MAX_ADDRESS_LENGTH + MAX_PADDING_LENGTH \<and>
           valid_string (req_address r)"
proof -
  obtain ft i1 al i2 ab i3 pl i4 pb where
    d1: "decode_varint input = Inr (ft, i1)" and
    d2: "decode_varint i1 = Inr (al, i2)" "unat al \<le> MAX_ADDRESS_LENGTH" and
    d3: "take_bytes i2 (unat al) = Inr (ab, i3)" and
    d4: "decode_varint i3 = Inr (pl, i4)" "unat pl \<le> MAX_PADDING_LENGTH" and
    d5: "take_bytes i4 (unat pl) = Inr (pb, rest)" and
    r: "r = \<lparr>req_address = from_utf8_lossy ab\<rparr>"
    using assms
    by (auto simp: tcp_request_decode_def tcp_request_decode_body_def result_iffs split: if_splits prod.splits)
  have pre: "\<exists>p. i = p @ j \<and> length p \<le> 8" if d: "decode_varint i = Inr (v, j)" for i j v
  proof -
    obtain p t where "i = p @ j" "t < 4" "length p = 2 ^ t" by (rule decode_varint_Inr [OF d]) blast
    moreover have "(2 :: nat) ^ t \<le> 8" using \<open>t < 4\<close> power_increasing [of t 3 "2 :: nat"] by simp
    ultimately show ?thesis by auto
  qed
  obtain p1 where p1: "input = p1 @ i1" "length p1 \<le> 8" using pre [OF d1] by blast
  obtain p2 where p2: "i1 = p2 @ i2" "length p2 \<le> 8" using pre [OF d2(1)] by blast
  obtain p4 where p4: "i3 = p4 @ i4" "length p4 \<le> 8" using pre [OF d4(1)] by blast
  have "input = (p1 @ p2 @ ab @ p4 @ pb) @ rest"
    and "length (p1 @ p2 @ ab @ p4 @ pb) \<le> 24 + MAX_ADDRESS_LENGTH + MAX_PADDING_LENGTH"
    using p1 p2 p4 d3 d5 d2(2) d4(2) by (simp_all add: take_bytes_Inr)
  then show ?thesis using r by (intro exI [of _ "p1 @ p2 @ ab @ p4 @ pb"]) simp
qed

end
