(* ===== verification/Fragment.thy ===== *)
theory Fragment
  imports Messages
begin

text \<open>
  Fragmentation of UDP messages and the per-session defragmenter
  (\<open>hysteria-protocol/src/fragment.rs\<close>). Fragments respect the datagram size and partition the
  payload; the defragmenter keeps its bookkeeping consistent, and it rebuilds a fragmented message
  from its fragments in any order, duplicates included.
\<close>

section \<open>Definitions\<close>

primrec fragment_loop ::
  "udp_message \<Rightarrow> u8 \<Rightarrow> usize \<Rightarrow> nat \<Rightarrow> bytes list \<Rightarrow> protocol_error + udp_message list" where
  "fragment_loop m count n index [] = Inr []"
| "fragment_loop m count n index (data # rest) =
     and_then (ok_or (TooManyFragments n) (try_from_nat index)) (\<lambda>id.
     and_then (fragment_loop m count n (Suc index) rest) (\<lambda>fs.
     Inr (m\<lparr>fragment_id := id, fragment_count := count, udp_data := data\<rparr> # fs)))"

definition fragment_udp_message :: "udp_message \<Rightarrow> usize \<Rightarrow> protocol_error + udp_message list" where
  "fragment_udp_message m max_size =
     (if encoded_size m \<le> max_size then Inr [m]
      else
        let max_payload_size = max_size - header_size m in
        if max_payload_size = 0 then Inr []
        else
          let n = div_ceil (length (udp_data m)) max_payload_size in
          and_then (ok_or (TooManyFragments n) (try_from_nat n)) (\<lambda>count.
          fragment_loop m count n 0 (chunks max_payload_size (udp_data m))))"

record defragger =
  df_packet_id :: u16
  fragments :: "udp_message option list"
  received :: usize

definition defragger_default :: defragger where
  "defragger_default = \<lparr>df_packet_id = 0, fragments = [], received = 0\<rparr>"

definition feed :: "defragger \<Rightarrow> udp_message \<Rightarrow> defragger \<times> udp_message option" where
  "feed d m =
     (if fragment_count m \<le> 1 then (d, Some m)
      else if fragment_id m \<ge> fragment_count m then (d, None)
      else
        let index = unat (fragment_id m); expected = unat (fragment_count m) in
        if packet_id m \<noteq> df_packet_id d \<or> length (fragments d) \<noteq> expected then
          (d\<lparr>df_packet_id := packet_id m,
             fragments := (replicate expected None)[index := Some m],
             received := 1\<rparr>, None)
        else if fragments d ! index = None then
          let d' = d\<lparr>fragments := (fragments d)[index := Some m], received := received d + 1\<rparr> in
          if received d' = length (fragments d') then
            (d', Some (m\<lparr>fragment_id := 0, fragment_count := 1,
                         udp_data := concat (map udp_data (flatten (fragments d')))\<rparr>))
          else (d', None)
        else (d, None))"

primrec feed_all :: "defragger \<Rightarrow> udp_message list \<Rightarrow> defragger \<times> udp_message option list" where
  "feed_all d [] = (d, [])"
| "feed_all d (m # ms) =
     (let (d1, r) = feed d m; (d2, rs) = feed_all d1 ms in (d2, r # rs))"

section \<open>Fragmentation\<close>

definition fragment_of :: "udp_message \<Rightarrow> nat \<Rightarrow> nat \<Rightarrow> bytes \<Rightarrow> udp_message" where
  "fragment_of m n i data =
     m\<lparr>fragment_id := word_of_nat i, fragment_count := word_of_nat n, udp_data := data\<rparr>"

lemma fragment_loop_ok:
  "index + length cs \<le> 256 \<Longrightarrow>
   fragment_loop m (word_of_nat n) n index cs =
     Inr (map (\<lambda>(i, c). fragment_of m n i c) (enumerate index cs))"
  by (induction cs arbitrary: index) (simp_all add: try_from_nat_def fragment_of_def)

lemma fragment_udp_message_fits:
  "encoded_size m \<le> max_size \<Longrightarrow> fragment_udp_message m max_size = Inr [m]"
  by (simp add: fragment_udp_message_def)

lemma fragment_udp_message_split:
  assumes "fragment_udp_message m max_size = Inr fs" and "max_size < encoded_size m"
  defines "p \<equiv> max_size - header_size m"
  defines "cs \<equiv> (if p = 0 then [] else chunks p (udp_data m))"
  shows "fs = map (\<lambda>(i, c). fragment_of m (length cs) i c) (enumerate 0 cs)"
    and "length cs < 256"
proof -
  have split: "fs = map (\<lambda>(i, c). fragment_of m (length cs) i c) (enumerate 0 cs) \<and> length cs < 256"
  proof (cases "p = 0")
    case True
    then show ?thesis using assms(1,2) by (simp add: fragment_udp_message_def cs_def p_def)
  next
    case False
    have len: "length cs = div_ceil (length (udp_data m)) p"
      using False by (simp add: cs_def length_chunks)
    have small: "div_ceil (length (udp_data m)) p < 256"
      using assms(1,2) False
      by (auto simp: fragment_udp_message_def p_def Let_def try_from_nat_def split: if_splits)
    have "fragment_loop m (word_of_nat (length cs)) (length cs) 0 cs = Inr fs"
      using assms(1,2) False small len
      by (simp add: fragment_udp_message_def p_def cs_def Let_def try_from_nat_def)
    then show ?thesis using fragment_loop_ok [of 0 cs m "length cs"] small len by simp
  qed
  then show "fs = map (\<lambda>(i, c). fragment_of m (length cs) i c) (enumerate 0 cs)"
    and "length cs < 256" by simp_all
qed

lemma map_fragment_data: "map udp_data (map (\<lambda>(i, c). fragment_of m n i c) (enumerate k cs)) = cs"
  by (rule nth_equalityI) (simp_all add: nth_enumerate_eq fragment_of_def)

section \<open>The defragmenter's bookkeeping\<close>

definition defrag_inv :: "defragger \<Rightarrow> bool" where
  "defrag_inv d \<longleftrightarrow>
     received d = length (flatten (fragments d)) \<and>
     (\<forall>i < length (fragments d). \<forall>f. fragments d ! i = Some f \<longrightarrow>
        unat (fragment_id f) = i \<and> unat (fragment_count f) = length (fragments d) \<and>
        packet_id f = df_packet_id d)"

lemma defrag_inv_default [simp]: "defrag_inv defragger_default"
  by (simp add: defrag_inv_def defragger_default_def flatten_def)

lemma defrag_inv_store:
  assumes "defrag_inv d" and "unat (fragment_id m) < length (fragments d)"
    and "fragments d ! unat (fragment_id m) = None"
    and "unat (fragment_count m) = length (fragments d)" and "packet_id m = df_packet_id d"
  shows "defrag_inv (d\<lparr>fragments := (fragments d)[unat (fragment_id m) := Some m],
    received := received d + 1\<rparr>)"
  using assms by (auto simp: defrag_inv_def nth_list_update length_flatten_update)

lemma defrag_inv_feed: "defrag_inv d \<Longrightarrow> defrag_inv (fst (feed d m))"
proof -
  assume inv: "defrag_inv d"
  let ?i = "unat (fragment_id m)" and ?n = "unat (fragment_count m)"
  consider (whole) "fragment_count m \<le> 1" | (bad) "\<not> fragment_count m \<le> 1" "fragment_id m \<ge> fragment_count m"
    | (reset) "\<not> fragment_count m \<le> 1" "fragment_id m < fragment_count m"
        "packet_id m \<noteq> df_packet_id d \<or> length (fragments d) \<noteq> ?n"
    | (store) "\<not> fragment_count m \<le> 1" "fragment_id m < fragment_count m"
        "packet_id m = df_packet_id d" "length (fragments d) = ?n" "fragments d ! ?i = None"
    | (dup) "\<not> fragment_count m \<le> 1" "fragment_id m < fragment_count m"
        "packet_id m = df_packet_id d" "length (fragments d) = ?n" "fragments d ! ?i \<noteq> None"
    by fastforce
  then show ?thesis
  proof cases
    case reset
    then have "?i < ?n" by (simp add: word_less_nat_alt)
    with reset show ?thesis
      by (auto simp: feed_def Let_def defrag_inv_def nth_list_update length_flatten_update not_le)
  next
    case store
    then have i: "?i < length (fragments d)" by (simp add: word_less_nat_alt)
    have "fst (feed d m) = d\<lparr>fragments := (fragments d)[?i := Some m], received := received d + 1\<rparr>"
      using store by (simp add: feed_def Let_def not_le)
    then show ?thesis using defrag_inv_store [OF inv i] store by simp
  qed (use inv in \<open>auto simp: feed_def Let_def not_le\<close>)
qed

interpretation defrag: step_invariant "\<lambda>d m. fst (feed d m)" defrag_inv
  by unfold_locales (rule defrag_inv_feed)

section \<open>Reassembly in any order\<close>

text \<open>
  The state after the fragments with indices in \<open>S\<close> (some, not all) of a packet have arrived.
\<close>

definition holds_fragments :: "udp_message list \<Rightarrow> nat set \<Rightarrow> defragger \<Rightarrow> bool" where
  "holds_fragments fs S d \<longleftrightarrow>
     S \<noteq> {} \<and> S \<subset> {..<length fs} \<and> df_packet_id d = packet_id (hd fs) \<and>
     fragments d = map (\<lambda>i. if i \<in> S then Some (fs ! i) else None) [0..<length fs] \<and>
     received d = card S"

definition packet_fragments :: "udp_message \<Rightarrow> udp_message list \<Rightarrow> bool" where
  "packet_fragments m fs \<longleftrightarrow> 1 < length fs \<and> length fs < 256 \<and>
     (\<exists>cs. length cs = length fs \<and> concat cs = udp_data m \<and>
        fs = map (\<lambda>(i, c). fragment_of m (length fs) i c) (enumerate 0 cs))"

lemma packet_fragments_nth:
  assumes "packet_fragments m fs" and "i < length fs"
  shows "packet_id (fs ! i) = packet_id m" and "unat (fragment_id (fs ! i)) = i"
    and "unat (fragment_count (fs ! i)) = length fs" and "packet_id (hd fs) = packet_id m"
    and "(fs ! i)\<lparr>fragment_id := 0, fragment_count := 1, udp_data := udp_data m\<rparr> =
         m\<lparr>fragment_id := 0, fragment_count := 1\<rparr>"
    and "\<not> fragment_count (fs ! i) \<le> 1" and "fragment_id (fs ! i) < fragment_count (fs ! i)"
proof -
  obtain cs where len: "length cs = length fs" "length fs < 256" "1 < length fs"
    and fs: "fs = map (\<lambda>(i, c). fragment_of m (length fs) i c) (enumerate 0 cs)"
    using assms(1) by (auto simp: packet_fragments_def)
  have nth: "fs ! j = fragment_of m (length fs) j (cs ! j)" if "j < length fs" for j
    using that len by (subst fs) (simp add: nth_enumerate_eq)
  have "hd fs = fs ! 0" using len by (intro hd_conv_nth) auto
  then show "packet_id (fs ! i) = packet_id m" and "unat (fragment_id (fs ! i)) = i"
    and "unat (fragment_count (fs ! i)) = length fs" and "packet_id (hd fs) = packet_id m"
    and "(fs ! i)\<lparr>fragment_id := 0, fragment_count := 1, udp_data := udp_data m\<rparr> =
         m\<lparr>fragment_id := 0, fragment_count := 1\<rparr>"
    and "\<not> fragment_count (fs ! i) \<le> 1" and "fragment_id (fs ! i) < fragment_count (fs ! i)"
    using len assms(2) nth [of i] nth [of 0, OF order.strict_trans [OF zero_less_one len(3)]]
    by (simp_all add: fragment_of_def unat_of_nat word_le_nat_alt word_less_nat_alt)
qed

lemma packet_fragments_data:
  "packet_fragments m fs \<Longrightarrow> concat (map udp_data fs) = udp_data m"
  by (auto simp: packet_fragments_def) (metis map_fragment_data)

lemma feed_first:
  assumes pf: "packet_fragments m fs" and j: "j < length fs"
    and fresh: "packet_id m \<noteq> df_packet_id d \<or> length (fragments d) \<noteq> length fs"
  shows "snd (feed d (fs ! j)) = None" and "holds_fragments fs {j} (fst (feed d (fs ! j)))"
proof -
  note f = packet_fragments_nth [OF pf j]
  have n: "1 < length fs" using pf by (simp add: packet_fragments_def)
  have eq: "feed d (fs ! j) = (d\<lparr>df_packet_id := packet_id m,
      fragments := (replicate (length fs) None)[j := Some (fs ! j)], received := 1\<rparr>, None)"
    using f(1-3,6) f(7) [unfolded not_le [symmetric]] fresh by (auto simp: feed_def Let_def)
  have "{j} \<noteq> {..<length fs}"
  proof
    assume "{j} = {..<length fs}"
    then have "card {j} = length fs" by simp
    then show False using n by simp
  qed
  moreover have "(replicate (length fs) None)[j := Some (fs ! j)] =
      map (\<lambda>i. if i \<in> {j} then Some (fs ! i) else None) [0..<length fs]"
    by (rule nth_equalityI) (auto simp: nth_list_update)
  ultimately show "snd (feed d (fs ! j)) = None" and "holds_fragments fs {j} (fst (feed d (fs ! j)))"
    using f j by (auto simp: eq holds_fragments_def)
qed

lemma feed_next:
  assumes pf: "packet_fragments m fs" and j: "j < length fs" and h: "holds_fragments fs S d"
  shows "j \<in> S \<Longrightarrow> feed d (fs ! j) = (d, None)"
    and "j \<notin> S \<Longrightarrow> insert j S \<noteq> {..<length fs} \<Longrightarrow>
      snd (feed d (fs ! j)) = None \<and> holds_fragments fs (insert j S) (fst (feed d (fs ! j)))"
    and "j \<notin> S \<Longrightarrow> insert j S = {..<length fs} \<Longrightarrow>
      snd (feed d (fs ! j)) = Some (m\<lparr>fragment_id := 0, fragment_count := 1\<rparr>)"
proof -
  note f = packet_fragments_nth [OF pf j]
  have S: "S \<subset> {..<length fs}" "S \<noteq> {}" "finite S" and pid: "df_packet_id d = packet_id m"
    and frs: "fragments d = map (\<lambda>i. if i \<in> S then Some (fs ! i) else None) [0..<length fs]"
    and rcv: "received d = card S"
    using h f finite_subset [of S "{..<length fs}"] by (auto simp: holds_fragments_def)
  have c: "\<not> fragment_count (fs ! j) \<le> 1" "\<not> fragment_count (fs ! j) \<le> fragment_id (fs ! j)"
    using f by (simp_all add: not_le)
  let ?d = "d\<lparr>fragments := (fragments d)[j := Some (fs ! j)], received := received d + 1\<rparr>"
  have upd: "(fragments d)[j := Some (fs ! j)] =
      map (\<lambda>i. if i \<in> insert j S then Some (fs ! i) else None) [0..<length fs]"
    unfolding frs using j by (intro nth_equalityI) (simp_all add: nth_list_update)
  have step: "feed d (fs ! j) =
      (if Suc (card S) = length fs
       then (?d, Some ((fs ! j)\<lparr>fragment_id := 0, fragment_count := 1,
                  udp_data := concat (map udp_data (flatten (fragments ?d)))\<rparr>))
       else (?d, None))" if "j \<notin> S"
    using f(1-3) c pid rcv j that by (simp add: feed_def Let_def frs)
  show "feed d (fs ! j) = (d, None)" if "j \<in> S"
    using f(1-3) c pid j that by (simp add: feed_def Let_def frs)
  show "snd (feed d (fs ! j)) = None \<and> holds_fragments fs (insert j S) (fst (feed d (fs ! j)))"
    if "j \<notin> S" "insert j S \<noteq> {..<length fs}"
    using step [OF that(1)] card_insert_all [OF S(1) that(1) j] that S j pid rcv f upd
    by (auto simp: holds_fragments_def)
  show "snd (feed d (fs ! j)) = Some (m\<lparr>fragment_id := 0, fragment_count := 1\<rparr>)"
    if "j \<notin> S" "insert j S = {..<length fs}"
  proof -
    have "fragments ?d = map (\<lambda>i. Some (fs ! i)) [0..<length fs]"
      using upd that(2) by (auto intro!: map_cong)
    also have "\<dots> = map Some fs" by (rule nth_equalityI) simp_all
    finally have "concat (map udp_data (flatten (fragments ?d))) = udp_data m"
      using packet_fragments_data [OF pf] by simp
    then show ?thesis
      using step [OF that(1)] card_insert_all [OF S(1) that(1) j] that f(5) by simp
  qed
qed

lemma feed_all_partial:
  assumes pf: "packet_fragments m fs"
  shows "set js \<subseteq> {..<length fs} \<Longrightarrow> S \<union> set js \<noteq> {..<length fs} \<Longrightarrow> holds_fragments fs S d \<Longrightarrow>
     snd (feed_all d (map ((!) fs) js)) = replicate (length js) None \<and>
     holds_fragments fs (S \<union> set js) (fst (feed_all d (map ((!) fs) js)))"
proof (induction js arbitrary: S d)
  case Nil
  then show ?case by simp
next
  case (Cons j js)
  have j: "j < length fs" using Cons.prems by simp
  have sub: "S \<union> set (j # js) \<subseteq> {..<length fs}"
    using Cons.prems by (auto simp: holds_fragments_def)
  show ?case
  proof (cases "j \<in> S")
    case True
    then have "S \<union> set (j # js) = S \<union> set js" by auto
    then show ?thesis using feed_next(1) [OF pf j Cons.prems(3) True] Cons by (simp add: split_beta)
  next
    case False
    have ne: "insert j S \<noteq> {..<length fs}" using Cons.prems(2) sub by auto
    have "holds_fragments fs (insert j S) (fst (feed d (fs ! j)))" "snd (feed d (fs ! j)) = None"
      using feed_next(2) [OF pf j Cons.prems(3) False ne] by auto
    moreover have "insert j S \<union> set js \<noteq> {..<length fs}" using Cons.prems(2) by simp
    ultimately show ?thesis
      using Cons.IH [of "insert j S" "fst (feed d (fs ! j))"] Cons.prems(1) by (simp add: split_beta)
  qed
qed

lemma feed_all_reassembles:
  assumes pf: "packet_fragments m fs"
    and fresh: "packet_id m \<noteq> df_packet_id d \<or> length (fragments d) \<noteq> length fs"
    and js: "insert j (set js) = {..<length fs}" "j \<notin> set js"
  shows "snd (feed_all d (map ((!) fs) js)) = replicate (length js) None"
    and "snd (feed (fst (feed_all d (map ((!) fs) js))) (fs ! j)) =
           Some (m\<lparr>fragment_id := 0, fragment_count := 1\<rparr>)"
proof -
  have n: "1 < length fs" using pf by (simp add: packet_fragments_def)
  obtain k ks where k: "js = k # ks"
  proof (cases js)
    case Nil
    then have "card {..<length fs} = card {j}" using js(1) by simp
    then show ?thesis using n by simp
  qed
  have kl: "k < length fs" and jl: "j < length fs" and sub: "set ks \<subseteq> {..<length fs}"
    using js k by auto
  note first = feed_first [OF pf kl fresh]
  have S: "{k} \<union> set ks = set js" using k by simp
  have ne: "{k} \<union> set ks \<noteq> {..<length fs}" using js S by auto
  have part: "snd (feed_all (fst (feed d (fs ! k))) (map ((!) fs) ks)) = replicate (length ks) None"
    "holds_fragments fs (set js) (fst (feed_all (fst (feed d (fs ! k))) (map ((!) fs) ks)))"
    using feed_all_partial [OF pf sub ne first(2)] S by auto
  then show "snd (feed_all d (map ((!) fs) js)) = replicate (length js) None"
    using first(1) k by (simp add: split_beta)
  have "fst (feed_all d (map ((!) fs) js)) = fst (feed_all (fst (feed d (fs ! k))) (map ((!) fs) ks))"
    using k by (simp add: split_beta)
  then show "snd (feed (fst (feed_all d (map ((!) fs) js))) (fs ! j)) =
      Some (m\<lparr>fragment_id := 0, fragment_count := 1\<rparr>)"
    using feed_next(3) [OF pf jl part(2) js(2)] js(1) by simp
qed

lemma fragment_packet_fragments:
  assumes "fragment_udp_message m max_size = Inr fs" and "1 < length fs"
  shows "packet_fragments m fs"
proof -
  have big: "max_size < encoded_size m"
    using assms by (cases "encoded_size m \<le> max_size") (auto simp: fragment_udp_message_fits)
  define p where "p = max_size - header_size m"
  define cs where "cs = (if p = 0 then [] else chunks p (udp_data m))"
  note split = fragment_udp_message_split [OF assms(1) big, folded p_def, folded cs_def]
  have len: "length cs = length fs" using split(1) by simp
  then have "p \<noteq> 0" using assms(2) by (cases "p = 0") (simp_all add: cs_def)
  then have "concat cs = udp_data m" by (simp add: cs_def)
  then show ?thesis using split len assms(2) by (auto simp: packet_fragments_def)
qed

section \<open>Properties\<close>

text \<open>
  The fragments of a message carry its payload in order, without loss or overlap, keep its
  session, packet identifier and address, and each fits the datagram size, header included; when more
  than one is made they are numbered 0, 1, \<dots> and carry their number. No fragment at all is made only
  when the header leaves no room for payload.
\<close>

lemma fragment_partition:
  assumes "fragment_udp_message m max_size = Inr fs"
  shows "(if fs = [] then max_size \<le> header_size m \<and> max_size < encoded_size m
          else concat (map udp_data fs) = udp_data m) \<and>
         (\<forall>i < length fs. encoded_size (fs ! i) \<le> max_size \<and> session_id (fs ! i) = session_id m \<and>
            packet_id (fs ! i) = packet_id m \<and> udp_address (fs ! i) = udp_address m \<and>
            (1 < length fs \<longrightarrow> unat (fragment_id (fs ! i)) = i \<and> unat (fragment_count (fs ! i)) = length fs))"
proof (cases "encoded_size m \<le> max_size")
  case True
  then have "fs = [m]" using assms by (simp add: fragment_udp_message_fits)
  with True show ?thesis by simp
next
  case False
  then have big: "max_size < encoded_size m" by simp
  define p where "p = max_size - header_size m"
  define cs where "cs = (if p = 0 then [] else chunks p (udp_data m))"
  note split = fragment_udp_message_split [OF assms big, folded p_def, folded cs_def]
  have len: "length fs = length cs" by (simp add: split(1))
  have nth: "fs ! i = fragment_of m (length cs) i (cs ! i)" if "i < length fs" for i
    using that len by (simp add: split(1) nth_enumerate_eq)
  have "length (cs ! i) \<le> p" if "i < length cs" for i
    using that chunk_length [of "cs ! i" p "udp_data m"] nth_mem [OF that]
    by (cases "p = 0") (simp_all add: cs_def)
  moreover have "p \<noteq> 0" if "i < length cs" for i using that by (cases "p = 0") (simp_all add: cs_def)
  ultimately have fit: "encoded_size (fs ! i) \<le> max_size" if "i < length fs" for i
    using that len nth [OF that] by (force simp: fragment_of_def encoded_size_def header_size_def p_def)
  have none: "max_size \<le> header_size m" if "fs = []"
  proof (rule ccontr)
    assume "\<not> max_size \<le> header_size m"
    then have "0 < p" by (simp add: p_def)
    then have "udp_data m = []" using that len concat_chunks [of p "udp_data m"] by (simp add: cs_def)
    then show False using big \<open>\<not> max_size \<le> header_size m\<close> by (simp add: encoded_size_def)
  qed
  have data: "concat (map udp_data fs) = udp_data m" if "fs \<noteq> []"
    unfolding split(1) map_fragment_data using that len by (auto simp: cs_def)
  show ?thesis
    using fit none data big split(2) len
    by (auto simp: nth fragment_of_def unat_of_nat)
qed

text \<open>
  C6: A fragmented message is rebuilt from its fragments whatever their order and however often some
  of them are repeated: starting from any defragmenter that is not already collecting a packet with the
  same identifier and count, every fragment but the one that completes the set yields nothing, and that
  one yields the original message, marked as whole.
\<close>

theorem defrag_any_order:
  assumes "fragment_udp_message m max_size = Inr fs" and "1 < length fs"
    and "packet_id m \<noteq> df_packet_id d \<or> length (fragments d) \<noteq> length fs"
    and "insert j (set js) = {..<length fs}" and "j \<notin> set js"
  shows "snd (feed_all d (map ((!) fs) js)) = replicate (length js) None \<and>
         snd (feed (fst (feed_all d (map ((!) fs) js))) (fs ! j)) =
           Some (m\<lparr>fragment_id := 0, fragment_count := 1\<rparr>)"
  using feed_all_reassembles [OF fragment_packet_fragments [OF assms(1,2)] assms(3-5)] by simp

theorem defrag_any_order_witness:
  "\<exists>fs. fragment_udp_message \<lparr>session_id = 1, packet_id = 9, fragment_id = 0, fragment_count = 1,
        udp_address = ''a'', udp_data = [1, 2, 3, 4, 5]\<rparr> 12 = Inr fs \<and> length fs = 3 \<and>
     snd (feed_all defragger_default (map ((!) fs) [2, 2, 0])) = [None, None, None] \<and>
     snd (feed (fst (feed_all defragger_default (map ((!) fs) [2, 2, 0]))) (fs ! 1)) =
       Some \<lparr>session_id = 1, packet_id = 9, fragment_id = 0, fragment_count = 1, udp_address = ''a'',
         udp_data = [1, 2, 3, 4, 5]\<rparr>"
proof -
  let ?m = "\<lparr>session_id = 1, packet_id = 9, fragment_id = 0, fragment_count = 1,
      udp_address = ''a'', udp_data = [1, 2, 3, 4, 5]\<rparr>"
  define fs where "fs = projr (fragment_udp_message ?m 12)"
  have f: "fragment_udp_message ?m 12 = Inr fs" unfolding fs_def by code_simp
  have n: "length fs = 3" unfolding fs_def by code_simp
  have set: "insert 1 (set [2, 2, 0]) = {..<length fs}" using n by auto
  have len: "1 < length fs" and fresh: "packet_id ?m \<noteq> df_packet_id defragger_default \<or>
      length (fragments defragger_default) \<noteq> length fs"
    using n by (simp_all add: defragger_default_def)
  from f n defrag_any_order [OF f len fresh set] show ?thesis
    by (intro exI [of _ fs]) (simp del: feed_all.simps list.map)
qed

text \<open>
  After any sequence of messages the defragmenter's counter is the number of fragments it holds,
  and every fragment it holds stands at its own index and belongs to the packet being collected.
\<close>

lemma defrag_bookkeeping: "defrag_inv (foldl (\<lambda>d m. fst (feed d m)) defragger_default ms)"
  by (rule defrag.inv_run) simp

end
