(* ===== verification/Transport_Error.thy ===== *)
theory Transport_Error
  imports Varint
begin

text \<open>
  The errors of the transport crate (\<open>hysteria-transport/src/error.rs\<close>) and the text of protocol errors
  (\<open>hysteria-protocol/src/error.rs\<close>), which the transport carries inside its own errors.
\<close>

datatype transport_error =
    Configuration string
  | Endpoint string
  | Connect string
  | Http3Connection string
  | Http3Stream string
  | InvalidHeader string
  | TransportRandomSource string
  | AuthenticationFailed u16
  | Io string
  | Protocol string
  | UdpDisabled
  | DatagramTooLarge usize
  | SessionClosed
  | TrafficLimitReached
  | TransportClosed

definition hex_char :: "nat \<Rightarrow> char" where
  "hex_char d = (if d < 10 then digit_char d else char_of (d + 87))"

fun hex_digits :: "nat \<Rightarrow> string" where
  "hex_digits n = (if n < 16 then [hex_char n] else hex_digits (n div 16) @ [hex_char (n mod 16)])"

declare hex_digits.simps [simp del]

fun protocol_error_display :: "protocol_error \<Rightarrow> string" where
  "protocol_error_display UnexpectedEnd = ''unexpected end of message''"
| "protocol_error_display (VarintTooLarge v) =
     ''value 0x'' @ hex_digits (unat v) @ '' does not fit in a QUIC varint''"
| "protocol_error_display (InvalidFrameType v) = ''invalid frame type 0x'' @ hex_digits (unat v)"
| "protocol_error_display (InvalidAddressLength v) = ''invalid address length '' @ uint_string v"
| "protocol_error_display (InvalidMessageLength v) = ''invalid message length '' @ uint_string v"
| "protocol_error_display (InvalidPaddingLength v) = ''invalid padding length '' @ uint_string v"
| "protocol_error_display (TooManyFragments v) =
     ''packet requires '' @ nat_string v @ '' fragments; the protocol supports at most 255''"

definition as_protocol :: "protocol_error \<Rightarrow> transport_error" where
  "as_protocol e = Protocol (protocol_error_display e)"

fun transport_error_display :: "transport_error \<Rightarrow> string" where
  "transport_error_display (Configuration message) = ''transport configuration error: '' @ message"
| "transport_error_display (Endpoint message) = ''endpoint error: '' @ message"
| "transport_error_display (Connect message) = ''QUIC connection error: '' @ message"
| "transport_error_display (Http3Connection message) = ''HTTP/3 connection error: '' @ message"
| "transport_error_display (Http3Stream message) = ''HTTP/3 stream error: '' @ message"
| "transport_error_display (InvalidHeader message) = ''invalid Hysteria header: '' @ message"
| "transport_error_display (TransportRandomSource message) = ''operating-system random source failed: '' @ message"
| "transport_error_display (AuthenticationFailed status) =
     ''authentication failed with HTTP status '' @ uint_string status"
| "transport_error_display (Io message) = ''I/O error: '' @ message"
| "transport_error_display (Protocol message) = ''protocol error: '' @ message"
| "transport_error_display UdpDisabled = ''UDP relay is disabled''"
| "transport_error_display (DatagramTooLarge n) = ''UDP message is too large ('' @ nat_string n @ '' bytes)''"
| "transport_error_display SessionClosed = ''UDP session is closed''"
| "transport_error_display TrafficLimitReached = ''traffic logger requested disconnect''"
| "transport_error_display TransportClosed = ''transport closed''"

end
