(* ===== verification/Udp_Client.thy ===== *)
theory Udp_Client
  imports Fragment Transport_Error
begin

text \<open>
  UDP over QUIC datagrams, the sending half shared by both ends and the client's session manager
  (\<open>hysteria-transport/src/udp.rs\<close>). The QUIC connection is a record of its answers: the largest datagram
  it takes and whether a datagram was accepted. A channel of the client is a bounded queue owned by a
  session object; objects are named by numbers, so that a reused session id does not identify two objects.
\<close>

section \<open>Definitions\<close>

abbreviation (input) SESSION_CHANNEL_SIZE :: usize where
  "SESSION_CHANNEL_SIZE \<equiv> 1024"

record quic_connection =
  max_datagram_size :: "usize option"
  send_datagram :: "bytes \<Rightarrow> string + unit"

lemma ucast_u32_add_one: "(ucast (c + 1 :: u32) :: u16) = ucast c + 1"
proof (rule unsigned_word_eqI [where ?'a = nat])
  have two: "(65536 :: nat) dvd 4294967296" by simp
  show "unat (ucast (c + 1) :: u16) = unat (ucast c + 1 :: u16)"
    by (simp add: unsigned_ucast_eq take_bit_eq_mod unat_word_ariths mod_mod_cancel [OF two] mod_Suc_eq)
qed

function next_packet_id :: "u32 \<Rightarrow> u16 \<times> u32" where
  "next_packet_id counter =
     (let counter' = counter + 1; id = ucast counter' :: u16 in
      if id \<noteq> 0 then (id, counter') else next_packet_id counter')"
  by pat_completeness auto
termination
proof (relation "measure (\<lambda>c. if (ucast (c + 1) :: u16) = 0 then 1 else 0)", goal_cases)
  case 1
  show ?case by simp
next
  case (2 counter counter' id)
  then show ?case by (simp add: ucast_u32_add_one)
qed

declare next_packet_id.simps [simp del]

definition send_one :: "quic_connection \<Rightarrow> udp_message \<Rightarrow> transport_error + bytes" where
  "send_one conn m =
     and_then (map_err as_protocol (udp_message_encode m)) (\<lambda>encoded.
     case send_datagram conn encoded of Inl e \<Rightarrow> Inl (Io e) | Inr _ \<Rightarrow> Inr encoded)"

primrec send_fragments :: "quic_connection \<Rightarrow> udp_message list \<Rightarrow> (transport_error + unit) \<times> bytes list" where
  "send_fragments conn [] = (Inr (), [])"
| "send_fragments conn (m # ms) =
     (case send_one conn m of Inl e \<Rightarrow> (Inl e, [])
      | Inr d \<Rightarrow> (case send_fragments conn ms of (res, ds) \<Rightarrow> (res, d # ds)))"

text \<open>The result, the datagrams handed to the connection, and the packet counter afterwards.\<close>

definition send :: "quic_connection \<Rightarrow> u32 \<Rightarrow> udp_message \<Rightarrow> (transport_error + unit) \<times> bytes list \<times> u32" where
  "send conn counter m =
     (if MAX_UDP_SIZE < encoded_size m then (Inl (DatagramTooLarge (encoded_size m)), [], counter)
      else case max_datagram_size conn of
        None \<Rightarrow> (Inl (Protocol ''peer did not enable QUIC datagrams''), [], counter)
      | Some max_size \<Rightarrow>
          if encoded_size m \<le> max_size then
            (case send_one conn m of Inl e \<Rightarrow> (Inl e, [], counter) | Inr d \<Rightarrow> (Inr (), [d], counter))
          else
            let (id, counter') = next_packet_id counter; m' = m\<lparr>packet_id := id\<rparr> in
            case fragment_udp_message m' max_size of
              Inl e \<Rightarrow> (Inl (as_protocol e), [], counter')
            | Inr [] \<Rightarrow> (Inl (DatagramTooLarge (encoded_size m')), [], counter')
            | Inr fs \<Rightarrow> (case send_fragments conn fs of (res, ds) \<Rightarrow> (res, ds, counter')))"

record udp_session =
  us_id :: u32
  us_queue :: "udp_message list"
  us_defragger :: defragger

record client_udp =
  cu_next_packet_id :: u32
  cu_sessions :: "(u32, nat) hmap"
  cu_next_session_id :: u32
  cu_objects :: "(nat, udp_session) hmap"
  cu_next_object :: nat

definition client_udp_new :: client_udp where
  "client_udp_new = \<lparr>cu_next_packet_id = 0, cu_sessions = [], cu_next_session_id = 1,
     cu_objects = [], cu_next_object = 0\<rparr>"

definition client_try_send :: "client_udp \<Rightarrow> nat \<Rightarrow> udp_message \<Rightarrow> client_udp" where
  "client_try_send cu h m =
     (case hm_get (cu_objects cu) h of None \<Rightarrow> cu
      | Some obj \<Rightarrow>
          if SESSION_CHANNEL_SIZE \<le> length (us_queue obj) then cu
          else cu\<lparr>cu_objects := hm_insert h (obj\<lparr>us_queue := us_queue obj @ [m]\<rparr>) (cu_objects cu)\<rparr>)"

definition client_datagram :: "client_udp \<Rightarrow> bytes \<Rightarrow> client_udp" where
  "client_datagram cu bs =
     (case udp_message_decode bs of Inl _ \<Rightarrow> cu
      | Inr m \<Rightarrow> (case hm_get (cu_sessions cu) (session_id m) of None \<Rightarrow> cu
                  | Some h \<Rightarrow> client_try_send cu h m))"

definition client_disconnected :: "client_udp \<Rightarrow> client_udp" where
  "client_disconnected cu = cu\<lparr>cu_sessions := []\<rparr>"

definition client_open :: "client_udp \<Rightarrow> nat \<times> client_udp" where
  "client_open cu =
     (let h = cu_next_object cu; sid = cu_next_session_id cu in
      (h, cu\<lparr>cu_next_session_id := sid + 1, cu_sessions := hm_insert sid h (cu_sessions cu),
             cu_objects := hm_insert h \<lparr>us_id = sid, us_queue = [], us_defragger = defragger_default\<rparr> (cu_objects cu),
             cu_next_object := h + 1\<rparr>))"

definition client_message :: "u32 \<Rightarrow> bytes \<Rightarrow> string \<Rightarrow> udp_message" where
  "client_message sid data address =
     \<lparr>session_id = sid, packet_id = 0, fragment_id = 0, fragment_count = 1, udp_address = address, udp_data = data\<rparr>"

definition session_send ::
  "quic_connection \<Rightarrow> client_udp \<Rightarrow> udp_session \<Rightarrow> bytes \<Rightarrow> string \<Rightarrow> (transport_error + unit) \<times> bytes list \<times> client_udp" where
  "session_send conn cu s data address =
     (case send conn (cu_next_packet_id cu) (client_message (us_id s) data address) of
        (res, ds, counter) \<Rightarrow> (res, ds, cu\<lparr>cu_next_packet_id := counter\<rparr>))"

fun receive_loop :: "defragger \<Rightarrow> udp_message list \<Rightarrow> defragger \<times> udp_message list \<times> udp_message option" where
  "receive_loop d [] = (d, [], None)"
| "receive_loop d (m # q) =
     (case feed d m of (d', Some x) \<Rightarrow> (d', q, Some x) | (d', None) \<Rightarrow> receive_loop d' q)"

datatype receive_result = Received bytes string | ReceiveFailed transport_error | ReceivePending

definition session_receive :: "client_udp \<Rightarrow> nat \<Rightarrow> client_udp \<times> receive_result" where
  "session_receive cu h =
     (case hm_get (cu_objects cu) h of None \<Rightarrow> (cu, ReceiveFailed SessionClosed)
      | Some obj \<Rightarrow>
         (case receive_loop (us_defragger obj) (us_queue obj) of
            (d, q, res) \<Rightarrow>
              let cu' = cu\<lparr>cu_objects := hm_insert h (obj\<lparr>us_queue := q, us_defragger := d\<rparr>) (cu_objects cu)\<rparr> in
              (cu', case res of
                      Some m \<Rightarrow> Received (udp_data m) (udp_address m)
                    | None \<Rightarrow> if hm_get (cu_sessions cu) (us_id obj) = Some h then ReceivePending
                              else ReceiveFailed SessionClosed)))"

definition session_drop :: "client_udp \<Rightarrow> nat \<Rightarrow> client_udp" where
  "session_drop cu h =
     (case hm_get (cu_objects cu) h of None \<Rightarrow> cu
      | Some obj \<Rightarrow> cu\<lparr>cu_sessions := hm_remove (us_id obj) (cu_sessions cu),
                       cu_objects := hm_remove h (cu_objects cu)\<rparr>)"

definition manager_drop :: "client_udp \<Rightarrow> client_udp" where
  "manager_drop cu = cu\<lparr>cu_sessions := []\<rparr>"

section \<open>Packet ids\<close>

lemma next_packet_id_unfold:
  "next_packet_id c = (if (ucast (c + 1) :: u16) \<noteq> 0 then (ucast (c + 1), c + 1) else (ucast (c + 2), c + 2))"
proof (cases "(ucast (c + 1) :: u16) = 0")
  case False
  then show ?thesis by (subst next_packet_id.simps) (simp add: Let_def)
next
  case True
  have two: "c + 1 + 1 = c + 2" by (simp add: add.assoc)
  have "(ucast (c + 2) :: u16) = 1" using True ucast_u32_add_one [of "c + 1"] by (simp add: two)
  then have "next_packet_id (c + 1) = (ucast (c + 2), c + 2)"
    by (subst next_packet_id.simps) (simp add: Let_def two)
  with True show ?thesis by (subst next_packet_id.simps) (simp add: Let_def)
qed

lemma next_packet_id_nonzero: "fst (next_packet_id c) \<noteq> 0"
proof (cases "(ucast (c + 1) :: u16) = 0")
  case True
  have "c + 1 + 1 = c + 2" by (simp add: add.assoc)
  then have "(ucast (c + 2) :: u16) = 1" using True ucast_u32_add_one [of "c + 1"] by (simp add: add.commute)
  with True show ?thesis by (simp add: next_packet_id_unfold)
qed (simp add: next_packet_id_unfold)

section \<open>Delivery\<close>

lemma send_one_Inr: "send_one conn m = Inr d \<Longrightarrow> udp_message_encode m = Inr d"
proof -
  assume "send_one conn m = Inr d"
  then obtain bs where bs: "udp_message_encode m = Inr bs"
      "(case send_datagram conn bs of Inl e \<Rightarrow> Inl (Io e) | Inr _ \<Rightarrow> Inr bs) = (Inr d :: transport_error + bytes)"
    by (auto simp: send_one_def result_iffs)
  then show ?thesis by (cases "send_datagram conn bs") simp_all
qed

lemma send_fragments_sent:
  "send_fragments conn ms = (Inr (), ds) \<Longrightarrow>
     length ds = length ms \<and> (\<forall>i < length ms. udp_message_encode (ms ! i) = Inr (ds ! i))"
proof (induction ms arbitrary: ds)
  case Nil
  then show ?case by simp
next
  case (Cons m ms)
  obtain d ds' where "send_one conn m = Inr d" "send_fragments conn ms = (Inr (), ds')" "ds = d # ds'"
    using Cons.prems by (auto split: sum.splits prod.splits)
  then show ?case using Cons.IH [of ds'] send_one_Inr by (auto simp: nth_Cons')
qed

lemma decode_encoded:
  assumes "udp_message_wf m" and "udp_message_encode m = Inr bs"
  shows "udp_message_decode bs = Inr m"
  by (rule udp_message_decode_encode [OF assms(1)]) (use assms(2) in simp)

definition enqueued :: "client_udp \<Rightarrow> nat \<Rightarrow> udp_session \<Rightarrow> udp_message list \<Rightarrow> client_udp \<Rightarrow> bool" where
  "enqueued cu h obj ms cu' \<longleftrightarrow> cu_sessions cu' = cu_sessions cu \<and>
     hm_get (cu_objects cu') h = Some (obj\<lparr>us_queue := us_queue obj @ ms\<rparr>)"

lemma client_datagrams_enqueue:
  "hm_get (cu_objects cu) h = Some obj \<Longrightarrow> length (us_queue obj) + length bss \<le> SESSION_CHANNEL_SIZE \<Longrightarrow>
   length ms = length bss \<Longrightarrow>
   (\<forall>i < length bss. udp_message_decode (bss ! i) = Inr (ms ! i) \<and>
      hm_get (cu_sessions cu) (session_id (ms ! i)) = Some h) \<Longrightarrow>
   enqueued cu h obj ms (foldl client_datagram cu bss)"
proof (induction bss arbitrary: cu obj ms)
  case Nil
  then show ?case by (simp add: enqueued_def)
next
  case (Cons bs bss)
  obtain m ms' where ms: "ms = m # ms'" using Cons.prems(3) by (cases ms) auto
  have d: "udp_message_decode bs = Inr m" "hm_get (cu_sessions cu) (session_id m) = Some h"
    using Cons.prems(4) ms by auto
  let ?obj = "obj\<lparr>us_queue := us_queue obj @ [m]\<rparr>"
  let ?cu = "client_datagram cu bs"
  have "?cu = cu\<lparr>cu_objects := hm_insert h ?obj (cu_objects cu)\<rparr>"
    using d Cons.prems(1,2) by (simp add: client_datagram_def client_try_send_def)
  then have get: "hm_get (cu_objects ?cu) h = Some ?obj" and keep: "cu_sessions ?cu = cu_sessions cu"
    by (simp_all add: hm.get_insert)
  have "enqueued ?cu h ?obj ms' (foldl client_datagram ?cu bss)"
  proof (rule Cons.IH [OF get])
    show "length (us_queue ?obj) + length bss \<le> SESSION_CHANNEL_SIZE" using Cons.prems(2) by simp
    show "length ms' = length bss" using Cons.prems(3) ms by simp
    show "\<forall>i < length bss. udp_message_decode (bss ! i) = Inr (ms' ! i) \<and>
        hm_get (cu_sessions ?cu) (session_id (ms' ! i)) = Some h"
      using Cons.prems(4) ms keep by fastforce
  qed
  then show ?case using keep ms by (simp add: enqueued_def)
qed

lemma receive_loop_feed_all:
  "snd (feed_all d ms) = replicate (length ms) None \<Longrightarrow> feed (fst (feed_all d ms)) x = (d', Some y) \<Longrightarrow>
   receive_loop d (ms @ [x]) = (d', [], Some y)"
  by (induction ms arbitrary: d) (auto split: prod.splits)

lemma fragments_at_least_two:
  assumes "fragment_udp_message m max_size = Inr fs" and "max_size < encoded_size m" and "fs \<noteq> []"
  shows "1 < length fs"
proof -
  define p where "p = max_size - header_size m"
  define cs where "cs = (if p = 0 then [] else chunks p (udp_data m))"
  note split = fragment_udp_message_split [OF assms(1,2), folded p_def, folded cs_def]
  have len: "length cs = length fs" using split(1) by simp
  then have p: "p \<noteq> 0" using assms(3) by (cases "p = 0") (simp_all add: cs_def)
  have "length cs \<noteq> 1"
  proof
    assume "length cs = 1"
    then obtain c where c: "cs = [c]" by (cases cs) auto
    then have "udp_data m = c" using concat_chunks [of p "udp_data m"] p by (simp add: cs_def)
    moreover have "length c \<le> p" using chunk_length [of c p "udp_data m"] c p by (simp add: cs_def)
    ultimately show False using assms(2) p by (simp add: encoded_size_def p_def)
  qed
  then show ?thesis using len assms(3) by (cases fs) auto
qed

lemma fragments_wf:
  assumes "fragment_udp_message m max_size = Inr fs" and "max_size < encoded_size m" and "udp_message_wf m"
    and "i < length fs"
  shows "udp_message_wf (fs ! i)" and "session_id (fs ! i) = session_id m"
proof -
  define p where "p = max_size - header_size m"
  define cs where "cs = (if p = 0 then [] else chunks p (udp_data m))"
  note split = fragment_udp_message_split [OF assms(1,2), folded p_def, folded cs_def]
  have len: "length cs = length fs" using split(1) by simp
  have "cs ! i \<in> set cs" using len assms(4) by simp
  then have "cs ! i \<noteq> []" using chunk_length [of "cs ! i" p "udp_data m"] by (auto simp: cs_def split: if_splits)
  moreover have "fs ! i = fragment_of m (length cs) i (cs ! i)"
    using len assms(4) by (subst split(1)) (simp add: nth_enumerate_eq)
  ultimately show "udp_message_wf (fs ! i)" and "session_id (fs ! i) = session_id m"
    using assms(3) by (simp_all add: fragment_of_def udp_message_wf_def)
qed

text \<open>What is on the wire after a successful send: the message, or the fragments of the message.\<close>

definition sends_parts :: "udp_message \<Rightarrow> u32 \<Rightarrow> bytes list \<Rightarrow> udp_message list \<Rightarrow> bool" where
  "sends_parts m counter ds fs \<longleftrightarrow> length ds = length fs \<and>
     (\<forall>i < length fs. udp_message_encode (fs ! i) = Inr (ds ! i)) \<and>
     (fs = [m] \<or> (\<exists>max_size. 1 < length fs \<and> max_size < encoded_size m \<and>
        fragment_udp_message (m\<lparr>packet_id := fst (next_packet_id counter)\<rparr>) max_size = Inr fs))"

lemma encoded_size_packet_id [simp]: "encoded_size (m\<lparr>packet_id := i\<rparr>) = encoded_size m"
  by (simp add: encoded_size_def header_size_def)

lemma send_parts:
  assumes "send conn counter m = (Inr (), ds, counter')"
  obtains fs where "sends_parts m counter ds fs"
proof -
  obtain max_size where max: "max_datagram_size conn = Some max_size"
    using assms by (auto simp: send_def split: if_splits option.splits)
  have small: "\<not> MAX_UDP_SIZE < encoded_size m" using assms by (auto simp: send_def split: if_splits)
  show thesis
  proof (cases "encoded_size m \<le> max_size")
    case True
    then obtain d where "send_one conn m = Inr d" "ds = [d]"
      using assms max small by (auto simp: send_def split: sum.splits)
    then have "sends_parts m counter ds [m]" by (simp add: sends_parts_def send_one_Inr)
    then show thesis by (rule that)
  next
    case False
    let ?m = "m\<lparr>packet_id := fst (next_packet_id counter)\<rparr>"
    obtain fs where fs: "fragment_udp_message ?m max_size = Inr fs" "fs \<noteq> []"
      "send_fragments conn fs = (Inr (), ds)"
      using assms max small False
      by (auto simp: send_def Let_def split_beta split: sum.splits list.splits prod.splits)
    have big: "max_size < encoded_size ?m" using False by simp
    have "sends_parts m counter ds fs"
      unfolding sends_parts_def
      using send_fragments_sent [OF fs(3)] fragments_at_least_two [OF fs(1) big fs(2)] fs(1) big by auto
    then show thesis by (rule that)
  qed
qed

lemma parts_decode:
  assumes "sends_parts m counter ds fs" and "udp_message_wf m" and "i < length fs"
  shows "udp_message_decode (ds ! i) = Inr (fs ! i)" and "session_id (fs ! i) = session_id m"
proof -
  let ?m = "m\<lparr>packet_id := fst (next_packet_id counter)\<rparr>"
  have wf: "udp_message_wf ?m" using assms(2) by (simp add: udp_message_wf_def)
  have "udp_message_wf (fs ! i) \<and> session_id (fs ! i) = session_id m"
  proof (cases "fs = [m]")
    case True
    then show ?thesis using assms by simp
  next
    case False
    then obtain max_size where "max_size < encoded_size ?m" "fragment_udp_message ?m max_size = Inr fs"
      using assms(1) by (auto simp: sends_parts_def)
    then show ?thesis using fragments_wf [of ?m max_size fs i] wf assms(3) by simp
  qed
  then show "udp_message_decode (ds ! i) = Inr (fs ! i)" "session_id (fs ! i) = session_id m"
    using decode_encoded assms(1,3) by (auto simp: sends_parts_def)
qed

lemma parts_reassemble:
  assumes parts: "sends_parts m counter ds fs" and "fragment_id m = 0" and "fragment_count m = 1"
    and fresh: "df_packet_id d \<noteq> fst (next_packet_id counter)"
    and js: "distinct js" "set js = {..<length fs}"
  shows "\<exists>d' x. receive_loop d (map ((!) fs) js) = (d', [], Some x) \<and>
     udp_data x = udp_data m \<and> udp_address x = udp_address m"
proof (cases "fs = [m]")
  case True
  then have "set js = {0}" using js by (simp add: lessThan_Suc)
  then have "js = [0]" using js(1) by (cases js) (auto simp: subset_singleton_iff)
  then show ?thesis using True assms(3) by (simp add: feed_def)
next
  case False
  let ?m = "m\<lparr>packet_id := fst (next_packet_id counter)\<rparr>"
  obtain max_size where f: "fragment_udp_message ?m max_size = Inr fs" "1 < length fs"
    using parts False by (auto simp: sends_parts_def)
  have "fs \<noteq> []" using f(2) by auto
  then have "0 \<in> set js" using js(2) by simp
  then have "js \<noteq> []" by auto
  then obtain ks j where k: "js = ks @ [j]" by (cases js rule: rev_cases) auto
  have cover: "insert j (set ks) = {..<length fs}" "j \<notin> set ks"
    using js(1) unfolding js(2) [symmetric] k by simp_all
  have fresh': "packet_id ?m \<noteq> df_packet_id d \<or> length (fragments d) \<noteq> length fs" using fresh by simp
  note all = feed_all_reassembles [OF fragment_packet_fragments [OF f] fresh' cover]
  obtain d' where "feed (fst (feed_all d (map ((!) fs) ks))) (fs ! j) =
      (d', Some (?m\<lparr>fragment_id := 0, fragment_count := 1\<rparr>))"
    using all(2) by (cases "feed (fst (feed_all d (map ((!) fs) ks))) (fs ! j)") simp
  then have "receive_loop d (map ((!) fs) ks @ [fs ! j]) = (d', [], Some (?m\<lparr>fragment_id := 0, fragment_count := 1\<rparr>))"
    using all(1) by (intro receive_loop_feed_all) simp_all
  then show ?thesis using k by simp
qed

section \<open>Properties\<close>


definition sample_client :: client_udp where
  "sample_client = snd (client_open client_udp_new)"

definition sample_connection :: quic_connection where
  "sample_connection = \<lparr>max_datagram_size = Some 12, send_datagram = (\<lambda>_. Inr ())\<rparr>"


end
