(* ===== verification/Udp_Server.thy ===== *)
theory Udp_Server
  imports Udp_Client
begin

text \<open>
  The server's UDP relay (\<open>hysteria-transport/src/udp.rs\<close>): a dispatcher that routes datagrams to
  sessions, and one task per session. The tasks and the dispatcher interleave; the relation
  \<open>server_udp_step\<close> has one rule per await point. Answers of the outside world (traffic logger, request
  hook, outbound sockets, timer) are arguments of the handlers, so the rules range over all of them.
  A session's channel is the queue of its task; its sending half lives in the session table.
\<close>

section \<open>Definitions\<close>

datatype task_phase = AwaitFirst | Relaying

record server_task =
  st_session :: u32
  st_queue :: "udp_message list"
  st_defragger :: defragger
  st_phase :: task_phase
  st_sent :: "(bytes \<times> string) list"

record server_udp =
  su_running :: bool
  su_sessions :: "(u32, u64) hmap"
  su_next_token :: u64
  su_tasks :: "(u64, server_task) hmap"
  su_packet_counter :: u32
  su_wire :: "bytes list"
  su_connection_closed :: bool
  su_opened :: nat

text \<open>\<open>su_opened\<close> counts the sessions opened so far; the code has no such counter.\<close>

definition server_udp_start :: server_udp where
  "server_udp_start = \<lparr>su_running = True, su_sessions = [], su_next_token = 1, su_tasks = [],
     su_packet_counter = 0, su_wire = [], su_connection_closed = False, su_opened = 0\<rparr>"

definition server_try_send :: "server_udp \<Rightarrow> u64 \<Rightarrow> udp_message \<Rightarrow> server_udp" where
  "server_try_send st tok m =
     (case hm_get (su_tasks st) tok of None \<Rightarrow> st
      | Some t \<Rightarrow>
          if SESSION_CHANNEL_SIZE \<le> length (st_queue t) then st
          else st\<lparr>su_tasks := hm_insert tok (t\<lparr>st_queue := st_queue t @ [m]\<rparr>) (su_tasks st)\<rparr>)"

abbreviation (input) new_task :: "u32 \<Rightarrow> server_task" where
  "new_task sid \<equiv> \<lparr>st_session = sid, st_queue = [], st_defragger = defragger_default,
     st_phase = AwaitFirst, st_sent = []\<rparr>"

definition open_session :: "server_udp \<Rightarrow> u32 \<Rightarrow> server_udp" where
  "open_session st sid =
     (let tok = su_next_token st in
      st\<lparr>su_next_token := tok + 1, su_sessions := hm_insert sid tok (su_sessions st),
         su_tasks := hm_insert tok (new_task sid) (su_tasks st), su_opened := su_opened st + 1\<rparr>)"

definition stop_dispatcher :: "server_udp \<Rightarrow> server_udp" where
  "stop_dispatcher st = st\<lparr>su_running := False, su_sessions := []\<rparr>"

text \<open>One turn of the dispatcher's loop; \<open>allowed\<close> is the verdict of the traffic logger.\<close>

definition server_datagram :: "server_udp \<Rightarrow> bytes \<Rightarrow> bool \<Rightarrow> server_udp" where
  "server_datagram st bs allowed =
     (case udp_message_decode bs of Inl _ \<Rightarrow> st
      | Inr m \<Rightarrow>
          if \<not> allowed then (stop_dispatcher st)\<lparr>su_connection_closed := True\<rparr>
          else (case hm_get (su_sessions st) (session_id m) of
                  Some tok \<Rightarrow> server_try_send st tok m
                | None \<Rightarrow> server_try_send (open_session st (session_id m)) (su_next_token st) m))"

definition remove_server_session :: "(u32, u64) hmap \<Rightarrow> u32 \<Rightarrow> u64 \<Rightarrow> (u32, u64) hmap" where
  "remove_server_session sessions sid tok =
     (if (case hm_get sessions sid of None \<Rightarrow> False | Some entry \<Rightarrow> entry = tok)
      then hm_remove sid sessions else sessions)"

definition finish_task :: "server_udp \<Rightarrow> u64 \<Rightarrow> server_task \<Rightarrow> server_udp" where
  "finish_task st tok t =
     st\<lparr>su_sessions := remove_server_session (su_sessions st) (st_session t) tok,
        su_tasks := hm_remove tok (su_tasks st)\<rparr>"

definition put_task :: "server_udp \<Rightarrow> u64 \<Rightarrow> server_task \<Rightarrow> server_udp" where
  "put_task st tok t = st\<lparr>su_tasks := hm_insert tok t (su_tasks st)\<rparr>"

definition channel_closed :: "server_udp \<Rightarrow> u64 \<Rightarrow> server_task \<Rightarrow> bool" where
  "channel_closed st tok t = (hm_get (su_sessions st) (st_session t) \<noteq> Some tok)"

datatype hook_answer = NoHook | HookIgnores | HookRewrites string | HookRefuses

fun apply_hook :: "hook_answer \<Rightarrow> udp_message \<Rightarrow> udp_message option" where
  "apply_hook NoHook m = Some m"
| "apply_hook HookIgnores m = Some m"
| "apply_hook (HookRewrites address) m = Some (m\<lparr>udp_address := address\<rparr>)"
| "apply_hook HookRefuses m = None"

text \<open>
  The first loop of a session task, up to the first complete message, and what follows it. The timer
  (\<open>timeout_receive\<close>) ends the session.
\<close>

definition await_step :: "server_udp \<Rightarrow> u64 \<Rightarrow> server_task \<Rightarrow> hook_answer \<Rightarrow> bool \<Rightarrow> bool \<Rightarrow> server_udp" where
  "await_step st tok t hook udp_ok send_ok =
     (case st_queue t of
        [] \<Rightarrow> if channel_closed st tok t then finish_task st tok t else st
      | m # q \<Rightarrow>
         (case feed (st_defragger t) m of
            (d, None) \<Rightarrow> put_task st tok (t\<lparr>st_queue := q, st_defragger := d\<rparr>)
          | (d, Some first) \<Rightarrow>
             (case apply_hook hook first of
                None \<Rightarrow> finish_task st tok t
              | Some first' \<Rightarrow>
                  if \<not> udp_ok then finish_task st tok t
                  else if \<not> send_ok then finish_task st tok t
                  else put_task st tok (t\<lparr>st_queue := q, st_defragger := d, st_phase := Relaying,
                         st_sent := st_sent t @ [(udp_data first', udp_address first')]\<rparr>))))"

definition relay_client :: "server_udp \<Rightarrow> u64 \<Rightarrow> server_task \<Rightarrow> bool \<Rightarrow> server_udp" where
  "relay_client st tok t check_ok =
     (case st_queue t of
        [] \<Rightarrow> if channel_closed st tok t then finish_task st tok t else st
      | m # q \<Rightarrow>
         (case feed (st_defragger t) m of
            (d, None) \<Rightarrow> put_task st tok (t\<lparr>st_queue := q, st_defragger := d\<rparr>)
          | (d, Some x) \<Rightarrow>
              if \<not> check_ok then put_task st tok (t\<lparr>st_queue := q, st_defragger := d\<rparr>)
              else put_task st tok (t\<lparr>st_queue := q, st_defragger := d,
                     st_sent := st_sent t @ [(udp_data x, udp_address x)]\<rparr>)))"

definition relay_remote ::
  "quic_connection \<Rightarrow> server_udp \<Rightarrow> u64 \<Rightarrow> server_task \<Rightarrow> transport_error + (bytes \<times> string) \<Rightarrow> bool \<Rightarrow> server_udp" where
  "relay_remote conn st tok t remote allowed =
     (case remote of
        Inl _ \<Rightarrow> finish_task st tok t
      | Inr (data, source) \<Rightarrow>
          if \<not> allowed then finish_task (st\<lparr>su_connection_closed := True\<rparr>) tok t
          else (case send conn (su_packet_counter st) (client_message (st_session t) data source) of
                  (res, ds, counter) \<Rightarrow>
                    let st' = st\<lparr>su_packet_counter := counter, su_wire := su_wire st @ ds\<rparr> in
                    (case res of Inl _ \<Rightarrow> finish_task st' tok t | Inr _ \<Rightarrow> st')))"

text \<open>The await points of the dispatcher and of the session tasks.\<close>

inductive server_udp_step :: "server_udp \<Rightarrow> server_udp \<Rightarrow> bool" where
  datagram: "su_running st \<Longrightarrow> server_udp_step st (server_datagram st bs allowed)"
| disconnected: "su_running st \<Longrightarrow> server_udp_step st (stop_dispatcher st)"
| first_timeout: "hm_get (su_tasks st) tok = Some t \<Longrightarrow> st_phase t = AwaitFirst \<Longrightarrow>
    server_udp_step st (finish_task st tok t)"
| first_message: "hm_get (su_tasks st) tok = Some t \<Longrightarrow> st_phase t = AwaitFirst \<Longrightarrow>
    server_udp_step st (await_step st tok t hook udp_ok send_ok)"
| relay_timeout: "hm_get (su_tasks st) tok = Some t \<Longrightarrow> st_phase t = Relaying \<Longrightarrow>
    server_udp_step st (finish_task st tok t)"
| relay_client: "hm_get (su_tasks st) tok = Some t \<Longrightarrow> st_phase t = Relaying \<Longrightarrow>
    server_udp_step st (relay_client st tok t check_ok)"
| relay_remote: "hm_get (su_tasks st) tok = Some t \<Longrightarrow> st_phase t = Relaying \<Longrightarrow>
    server_udp_step st (relay_remote conn st tok t remote allowed)"

inductive_cases server_udp_stepE: "server_udp_step st st'"

inductive server_udp_reachable :: "server_udp \<Rightarrow> bool" where
  start: "server_udp_reachable server_udp_start"
| step: "server_udp_reachable st \<Longrightarrow> server_udp_step st st' \<Longrightarrow> server_udp_reachable st'"

section \<open>Sessions and tasks\<close>

text \<open>
  While the dispatcher runs, the session table and the live tasks are in one-to-one correspondence:
  the tokens, which are unique as long as the counter has not wrapped around, link them.
\<close>

definition linked :: "server_udp \<Rightarrow> bool" where
  "linked st \<longleftrightarrow> (\<forall>sid tok. hm_get (su_sessions st) sid = Some tok \<longleftrightarrow>
     (\<exists>t. hm_get (su_tasks st) tok = Some t \<and> st_session t = sid))"

definition server_inv :: "server_udp \<Rightarrow> bool" where
  "server_inv st \<longleftrightarrow>
     su_next_token st = word_of_nat (su_opened st + 1) \<and>
     (\<forall>tok t. hm_get (su_tasks st) tok = Some t \<longrightarrow> unat tok \<le> su_opened st \<and>
        length (st_queue t) \<le> SESSION_CHANNEL_SIZE) \<and>
     (if su_running st then linked st else su_sessions st = [])"

definition tokens_left :: "server_udp \<Rightarrow> bool" where
  "tokens_left st \<longleftrightarrow> su_opened st + 1 < 2 ^ 64"

lemma linked_registered:
  "linked st \<Longrightarrow> hm_get (su_tasks st) tok = Some t \<Longrightarrow> hm_get (su_sessions st) (st_session t) = Some tok"
  by (simp add: linked_def)

lemma server_inv_other [simp]:
  "server_inv (st\<lparr>su_connection_closed := b\<rparr>) = server_inv st"
  "server_inv (st\<lparr>su_packet_counter := c, su_wire := w\<rparr>) = server_inv st"
  by (simp_all add: server_inv_def linked_def)

lemma linked_unique:
  assumes "linked st" and "hm_get (su_tasks st) a = Some t" and "hm_get (su_tasks st) b = Some t'"
    and "st_session t = st_session t'"
  shows "a = b"
proof -
  have "hm_get (su_sessions st) (st_session t) = Some a" "hm_get (su_sessions st) (st_session t') = Some b"
    using assms(1-3) by (simp_all add: linked_registered)
  with assms(4) show ?thesis by simp
qed

lemma server_inv_put_task:
  assumes "server_inv st" and "hm_get (su_tasks st) tok = Some t" and "st_session t' = st_session t"
    and "length (st_queue t') \<le> SESSION_CHANNEL_SIZE"
  shows "server_inv (put_task st tok t')"
proof -
  have "linked st \<Longrightarrow> linked (put_task st tok t')"
    using assms(2,3) by (auto simp: linked_def put_task_def hm.get_insert)
  then show ?thesis using assms by (auto simp: server_inv_def put_task_def hm.get_insert split: if_splits)
qed

lemma server_inv_finish_task:
  assumes "server_inv st" and "hm_get (su_tasks st) tok = Some t"
  shows "server_inv (finish_task st tok t)"
proof -
  have "linked (finish_task st tok t)" if link: "linked st"
  proof -
    have "hm_get (su_sessions st) (st_session t) = Some tok"
      using link assms(2) by (rule linked_registered)
    then have "su_sessions (finish_task st tok t) = hm_remove (st_session t) (su_sessions st)"
      by (simp add: finish_task_def remove_server_session_def)
    moreover have "st_session t' \<noteq> st_session t" if "hm_get (su_tasks st) tok' = Some t'" "tok' \<noteq> tok" for tok' t'
      using linked_unique [OF link that(1) assms(2)] that(2) by blast
    ultimately show ?thesis
      using link assms(2) by (auto simp: linked_def finish_task_def hm.get_remove)
  qed
  moreover have "su_sessions st = [] \<Longrightarrow> su_sessions (finish_task st tok t) = []"
    by (simp add: finish_task_def remove_server_session_def)
  ultimately show ?thesis
    using assms by (auto simp: server_inv_def finish_task_def hm.get_remove split: if_splits)
qed

lemma server_inv_stop: "server_inv st \<Longrightarrow> server_inv (stop_dispatcher st)"
  by (auto simp: server_inv_def stop_dispatcher_def)

lemma server_inv_try_send:
  assumes "server_inv st"
  shows "server_inv (server_try_send st tok m)"
proof (cases "hm_get (su_tasks st) tok")
  case None
  with assms show ?thesis by (simp add: server_try_send_def)
next
  case (Some t)
  then have "server_inv (put_task st tok (t\<lparr>st_queue := st_queue t @ [m]\<rparr>))"
    if "length (st_queue t) < SESSION_CHANNEL_SIZE"
    using that by (intro server_inv_put_task [OF assms Some]) simp_all
  with Some assms show ?thesis by (simp add: server_try_send_def put_task_def not_le)
qed

lemma server_inv_open_session:
  assumes inv: "server_inv st" and left: "tokens_left (open_session st sid)"
    and run: "su_running st" and fresh: "hm_get (su_sessions st) sid = None"
  shows "server_inv (open_session st sid)"
proof -
  let ?tok = "su_next_token st"
  have lt: "su_opened st + 1 < 2 ^ 64" using left by (simp add: tokens_left_def open_session_def Let_def)
  have tok: "?tok = word_of_nat (su_opened st + 1)" using inv by (simp add: server_inv_def)
  have u: "unat ?tok = su_opened st + 1" unfolding tok unat_of_nat using lt by simp
  have none: "hm_get (su_tasks st) ?tok = None"
  proof (rule ccontr)
    assume "hm_get (su_tasks st) ?tok \<noteq> None"
    then have "unat ?tok \<le> su_opened st" using inv by (auto simp: server_inv_def)
    with u show False by simp
  qed
  have link: "linked st" using inv run by (simp add: server_inv_def)
  have "st_session t \<noteq> sid" if "hm_get (su_tasks st) tok = Some t" for tok t
    using linked_registered [OF link that] fresh by auto
  then have "linked (open_session st sid)"
    using link none fresh
    by (auto simp: linked_def open_session_def Let_def hm.get_insert )
  then show ?thesis
    using inv run u tok
    by (auto simp: server_inv_def open_session_def Let_def hm.get_insert add.commute le_SucI split: if_splits)
qed

lemma server_inv_datagram:
  assumes inv: "server_inv st" and run: "su_running st" and left: "tokens_left (server_datagram st bs allowed)"
  shows "server_inv (server_datagram st bs allowed)"
proof (cases "udp_message_decode bs")
  case (Inl e)
  with inv show ?thesis by (simp add: server_datagram_def)
next
  case (Inr m)
  have opened: "su_opened (server_try_send s tok m) = su_opened s" for s tok
    by (simp add: server_try_send_def split: option.splits)
  have stop: "server_inv ((stop_dispatcher st)\<lparr>su_connection_closed := True\<rparr>)"
    using server_inv_stop [OF inv] by simp
  show ?thesis
  proof (cases "hm_get (su_sessions st) (session_id m)")
    case None
    then have "allowed \<Longrightarrow> tokens_left (open_session st (session_id m))"
      using left Inr by (simp add: server_datagram_def tokens_left_def opened)
    then show ?thesis
      using Inr None stop server_inv_try_send [OF server_inv_open_session [OF inv _ run None]]
      by (simp add: server_datagram_def)
  next
    case (Some tok)
    then show ?thesis using Inr stop server_inv_try_send [OF inv] by (simp add: server_datagram_def)
  qed
qed

lemma server_inv_await_step:
  assumes inv: "server_inv st" and t: "hm_get (su_tasks st) tok = Some t"
  shows "server_inv (await_step st tok t hook udp_ok send_ok)"
proof (cases "st_queue t")
  case Nil
  then show ?thesis using inv server_inv_finish_task [OF inv t] by (simp add: await_step_def)
next
  case (Cons m q)
  have "length (st_queue t) \<le> SESSION_CHANNEL_SIZE" using inv t by (auto simp: server_inv_def)
  then have "length q \<le> SESSION_CHANNEL_SIZE" using Cons by simp
  then show ?thesis
    using Cons server_inv_finish_task [OF inv t] server_inv_put_task [OF inv t]
    by (auto simp: await_step_def split: prod.splits option.splits)
qed

lemma server_inv_relay_client:
  assumes inv: "server_inv st" and t: "hm_get (su_tasks st) tok = Some t"
  shows "server_inv (relay_client st tok t check_ok)"
proof (cases "st_queue t")
  case Nil
  then show ?thesis using inv server_inv_finish_task [OF inv t] by (simp add: relay_client_def)
next
  case (Cons m q)
  have "length (st_queue t) \<le> SESSION_CHANNEL_SIZE" using inv t by (auto simp: server_inv_def)
  then have "length q \<le> SESSION_CHANNEL_SIZE" using Cons by simp
  then show ?thesis
    using Cons server_inv_put_task [OF inv t] by (auto simp: relay_client_def split: prod.splits option.splits)
qed

lemma server_inv_relay_remote:
  assumes inv: "server_inv st" and t: "hm_get (su_tasks st) tok = Some t"
  shows "server_inv (relay_remote conn st tok t remote allowed)"
proof -
  have "server_inv (st\<lparr>su_connection_closed := True\<rparr>)" "server_inv (st\<lparr>su_packet_counter := c, su_wire := w\<rparr>)" for c w
    using inv by simp_all
  then show ?thesis
    using t server_inv_finish_task inv
    by (auto simp: relay_remote_def Let_def split: sum.splits prod.splits)
qed

lemma opened_mono: "server_udp_step st st' \<Longrightarrow> su_opened st \<le> su_opened st'"
proof (induction rule: server_udp_step.induct)
  case (datagram st bs allowed)
  show ?case
    by (auto simp: server_datagram_def server_try_send_def open_session_def stop_dispatcher_def Let_def
        split: sum.splits option.splits)
next
  case (relay_remote st tok t conn remote allowed)
  show ?case by (auto simp: relay_remote_def finish_task_def Let_def split: sum.splits prod.splits)
qed (auto simp: stop_dispatcher_def finish_task_def await_step_def relay_client_def put_task_def
    split: list.splits prod.splits option.splits)

lemma server_inv_step:
  "server_udp_step st st' \<Longrightarrow> server_inv st \<Longrightarrow> tokens_left st' \<Longrightarrow> server_inv st'"
  by (induction rule: server_udp_step.induct)
    (auto intro: server_inv_datagram server_inv_stop server_inv_finish_task server_inv_await_step
      server_inv_relay_client server_inv_relay_remote)

lemma server_inv_reachable: "server_udp_reachable st \<Longrightarrow> tokens_left st \<Longrightarrow> server_inv st"
proof (induction rule: server_udp_reachable.induct)
  case start
  show ?case by (simp add: server_inv_def server_udp_start_def linked_def)
next
  case (step st st')
  then have "tokens_left st" using opened_mono [OF step.hyps(2)] by (simp add: tokens_left_def)
  with step show ?case using server_inv_step by blast
qed

section \<open>Properties\<close>

text \<open>
  C8: In every interleaving of the dispatcher with the session tasks, as long as fewer than
  \<open>2 ^ 64 - 1\<close> sessions have been opened and the dispatcher runs, a session id is registered exactly when
  one live task serves it, so no session leaks and none is served twice; and no queue exceeds 1024.
\<close>

theorem server_sessions_linked:
  assumes "server_udp_reachable st" and "tokens_left st" and "su_running st"
  shows "(hm_get (su_sessions st) sid = Some tok \<longleftrightarrow>
           (\<exists>t. hm_get (su_tasks st) tok = Some t \<and> st_session t = sid)) \<and>
         (hm_get (su_tasks st) tok' = Some t' \<longrightarrow> length (st_queue t') \<le> SESSION_CHANNEL_SIZE)"
  using server_inv_reachable [OF assms(1,2)] assms(3) by (auto simp: server_inv_def linked_def)

definition sample_datagram :: bytes where
  "sample_datagram = [0, 0, 0, 5, 0, 0, 0, 1, 1, 0x61, 9]"

theorem server_sessions_linked_witness:
  "let st = server_datagram server_udp_start sample_datagram True in
   server_udp_reachable st \<and> hm_get (su_sessions st) 5 = Some 1 \<and>
   (\<exists>t. hm_get (su_tasks st) 1 = Some t \<and> st_session t = 5)"
proof -
  let ?st = "server_datagram server_udp_start sample_datagram True"
  have r: "server_udp_reachable ?st"
    by (rule server_udp_reachable.step [OF server_udp_reachable.start server_udp_step.datagram])
      (simp add: server_udp_start_def)
  have s: "hm_get (su_sessions ?st) 5 = Some 1" by code_simp
  have "su_opened ?st = 1" "su_running ?st" by code_simp+
  then show ?thesis
    using r s server_sessions_linked [of ?st 5 1 1 undefined] by (simp add: tokens_left_def Let_def)
qed

text \<open>
  When a session task ends, for whatever reason, its session is unregistered, and the next datagram
  for that session id starts a new session under a new token with that datagram as its first message.
\<close>

lemma server_session_restart:
  assumes "server_udp_reachable st" and "su_running st" and "su_opened st + 2 < 2 ^ 64"
    and "hm_get (su_tasks st) tok = Some t"
    and "udp_message_decode bs = Inr m" and "session_id m = st_session t"
  shows "let st1 = finish_task st tok t; st2 = server_datagram st1 bs True; tok2 = su_next_token st in
     hm_get (su_sessions st1) (st_session t) = None \<and> tok2 \<noteq> tok \<and>
     hm_get (su_sessions st2) (st_session t) = Some tok2 \<and>
     hm_get (su_tasks st2) tok2 = Some ((new_task (st_session t))\<lparr>st_queue := [m]\<rparr>)"
proof -
  have inv: "server_inv st" using server_inv_reachable [OF assms(1)] assms(3) by (simp add: tokens_left_def)
  then have link: "linked st" and tok2: "su_next_token st = word_of_nat (su_opened st + 1)"
    and le: "unat tok \<le> su_opened st"
    using assms(2,4) by (auto simp: server_inv_def)
  have "unat (su_next_token st) = su_opened st + 1" unfolding tok2 unat_of_nat using assms(3) by simp
  then have ne: "su_next_token st \<noteq> tok" using le by auto
  let ?st1 = "finish_task st tok t"
  have gone: "hm_get (su_sessions ?st1) (st_session t) = None"
    using linked_registered [OF link assms(4)]
    by (simp add: finish_task_def remove_server_session_def hm.get_remove)
  have same: "su_next_token ?st1 = su_next_token st" by (simp add: finish_task_def)
  have "hm_get (su_sessions (server_datagram ?st1 bs True)) (st_session t) = Some (su_next_token st)"
    "hm_get (su_tasks (server_datagram ?st1 bs True)) (su_next_token st) =
       Some ((new_task (st_session t))\<lparr>st_queue := [m]\<rparr>)"
    using assms(5,6) gone same
    by (simp_all add: server_datagram_def server_try_send_def open_session_def Let_def hm.get_insert 
        )
  then show ?thesis using gone ne by (simp add: Let_def)
qed

text \<open>
  One packet from the remote side whose encoding exceeds 4096 bytes ends the whole session: the
  receive buffer admits payloads of up to 4096 bytes, the sender refuses the message, and the refusal is
  treated like a lost connection.
\<close>

lemma oversized_reply_ends_session:
  assumes "MAX_UDP_SIZE < encoded_size (client_message (st_session t) data source)"
  shows "relay_remote conn st tok t (Inr (data, source)) True = finish_task st tok t"
  using assms by (simp add: relay_remote_def send_def Let_def)

end
