(* ===== verification/Net.thy ===== *)
theory Net
  imports Transport_Error
begin

unbundle bit_operations_syntax

text \<open>
  Addresses of the standard library: \<open>IpAddr\<close> and \<open>SocketAddr\<close> with their order, their text form and the
  parsers behind \<open>str::parse\<close>. The flow label and the scope of an IPv6 socket address, which the sources
  never set, are left out. A \<open>BTreeSet\<close> is a strictly increasing list.
\<close>

type_synonym u128 = "128 word"

section \<open>Addresses\<close>

datatype ip_addr = V4 u32 | V6 u128

datatype socket_addr = SocketAddr (sa_ip: ip_addr) (sa_port: u16)

fun is_ipv4 :: "ip_addr \<Rightarrow> bool" where
  "is_ipv4 (V4 _) = True"
| "is_ipv4 (V6 _) = False"

instantiation ip_addr :: linorder
begin

fun less_eq_ip_addr :: "ip_addr \<Rightarrow> ip_addr \<Rightarrow> bool" where
  "less_eq_ip_addr (V4 a) (V4 b) = (a \<le> b)"
| "less_eq_ip_addr (V4 _) (V6 _) = True"
| "less_eq_ip_addr (V6 _) (V4 _) = False"
| "less_eq_ip_addr (V6 a) (V6 b) = (a \<le> b)"

definition less_ip_addr :: "ip_addr \<Rightarrow> ip_addr \<Rightarrow> bool" where
  "less_ip_addr a b = (a \<le> b \<and> \<not> b \<le> a)"

instance
proof (standard, goal_cases)
  case (1 x y)
  show ?case by (simp add: less_ip_addr_def)
next
  case (2 x)
  show ?case by (cases x) simp_all
next
  case (3 x y z)
  then show ?case by (cases x; cases y; cases z) simp_all
next
  case (4 x y)
  then show ?case by (cases x; cases y) simp_all
next
  case (5 x y)
  show ?case by (cases x; cases y) (simp_all add: linear)
qed

end

instantiation socket_addr :: linorder
begin

definition less_eq_socket_addr :: "socket_addr \<Rightarrow> socket_addr \<Rightarrow> bool" where
  "less_eq_socket_addr a b = (sa_ip a < sa_ip b \<or> sa_ip a = sa_ip b \<and> sa_port a \<le> sa_port b)"

definition less_socket_addr :: "socket_addr \<Rightarrow> socket_addr \<Rightarrow> bool" where
  "less_socket_addr a b = (a \<le> b \<and> \<not> b \<le> a)"

instance
proof (standard, goal_cases)
  case (1 x y)
  show ?case by (simp add: less_socket_addr_def)
next
  case (2 x)
  show ?case by (simp add: less_eq_socket_addr_def)
next
  case (3 x y z)
  then show ?case by (auto simp: less_eq_socket_addr_def)
next
  case (4 x y)
  then show ?case by (cases x; cases y) (auto simp: less_eq_socket_addr_def)
next
  case (5 x y)
  show ?case by (auto simp: less_eq_socket_addr_def not_less)
qed

end

text \<open>\<open>BTreeSet::insert\<close>, which says whether the element is new, and collecting an iterator.\<close>

definition bt_insert :: "'a::linorder \<Rightarrow> 'a list \<Rightarrow> 'a list" where
  "bt_insert x xs = (if x \<in> set xs then xs else insort x xs)"

definition bt_collect :: "'a::linorder list \<Rightarrow> 'a list" where
  "bt_collect xs = foldl (\<lambda>acc x. bt_insert x acc) [] xs"

lemma set_bt_insert [simp]: "set (bt_insert x xs) = insert x (set xs)"
  by (auto simp: bt_insert_def set_insort_key)

lemma sorted_bt_insert: "sorted xs \<and> distinct xs \<Longrightarrow> sorted (bt_insert x xs) \<and> distinct (bt_insert x xs)"
  by (simp add: bt_insert_def sorted_insort distinct_insort)

lemma bt_collect_foldl:
  "sorted acc \<and> distinct acc \<Longrightarrow>
     set (foldl (\<lambda>acc x. bt_insert x acc) acc xs) = set acc \<union> set xs \<and>
     sorted (foldl (\<lambda>acc x. bt_insert x acc) acc xs) \<and> distinct (foldl (\<lambda>acc x. bt_insert x acc) acc xs)"
  by (induction xs arbitrary: acc) (auto simp: sorted_bt_insert)

lemma bt_collect [simp]: "set (bt_collect xs) = set xs" "sorted (bt_collect xs)" "distinct (bt_collect xs)"
  using bt_collect_foldl [of "[]" xs] by (simp_all add: bt_collect_def)

section \<open>Text form\<close>

definition ipv4_octets :: "u32 \<Rightarrow> u8 list" where
  "ipv4_octets a = be_bytes 4 a"

fun join_with :: "string \<Rightarrow> string list \<Rightarrow> string" where
  "join_with sep [] = []"
| "join_with sep [x] = x"
| "join_with sep (x # xs) = x @ sep @ join_with sep xs"

definition ipv4_display :: "u32 \<Rightarrow> string" where
  "ipv4_display a = join_with ''.'' (map uint_string (ipv4_octets a))"

definition ipv6_segments :: "u128 \<Rightarrow> u16 list" where
  "ipv6_segments a = map (\<lambda>i. ucast (drop_bit (16 * (7 - i)) a)) [0..<8]"

text \<open>The first longest run of zero segments, as start and length.\<close>

fun longest_zero_run :: "nat \<Rightarrow> nat \<times> nat \<Rightarrow> nat \<times> nat \<Rightarrow> u16 list \<Rightarrow> nat \<times> nat" where
  "longest_zero_run i cur best [] = best"
| "longest_zero_run i cur best (s # ss) =
     (let cur' = (if s = 0 then (if snd cur = 0 then (i, 1) else (fst cur, snd cur + 1)) else (0, 0));
          best' = (if snd best < snd cur' then cur' else best) in
      longest_zero_run (Suc i) cur' best' ss)"

definition segments_display :: "u16 list \<Rightarrow> string" where
  "segments_display ss = join_with '':'' (map (\<lambda>s. hex_digits (unat s)) ss)"

definition ipv6_display :: "u128 \<Rightarrow> string" where
  "ipv6_display a =
     (let ss = ipv6_segments a in
      if take 5 ss = [0, 0, 0, 0, 0] \<and> ss ! 5 = 0xffff then ''::ffff:'' @ ipv4_display (ucast a)
      else let (start, len) = longest_zero_run 0 (0, 0) (0, 0) ss in
        if 1 < len then segments_display (take start ss) @ ''::'' @ segments_display (drop (start + len) ss)
        else segments_display ss)"

fun ip_display :: "ip_addr \<Rightarrow> string" where
  "ip_display (V4 a) = ipv4_display a"
| "ip_display (V6 a) = ipv6_display a"

fun socket_addr_display :: "socket_addr \<Rightarrow> string" where
  "socket_addr_display (SocketAddr (V4 a) p) = ipv4_display a @ '':'' @ uint_string p"
| "socket_addr_display (SocketAddr (V6 a) p) = ''['' @ ipv6_display a @ '']:'' @ uint_string p"

section \<open>Parsers\<close>

text \<open>
  The parsers consume a prefix and return the rest; \<open>str::parse\<close> wants the whole text. A number has at
  most \<open>max_digits\<close> digits if a bound is given and may have leading zeros only if that is allowed.
\<close>

fun take_digits :: "nat \<Rightarrow> string \<Rightarrow> nat list \<times> string" where
  "take_digits r [] = ([], [])"
| "take_digits r (c # cs) =
     (case to_digit r c of None \<Rightarrow> ([], c # cs)
      | Some d \<Rightarrow> (case take_digits r cs of (ds, rest) \<Rightarrow> (d # ds, rest)))"

definition read_number :: "nat \<Rightarrow> nat option \<Rightarrow> bool \<Rightarrow> nat \<Rightarrow> string \<Rightarrow> (nat \<times> string) option" where
  "read_number r max_digits allow_zero_prefix limit s =
     (let (ds, rest) = take_digits r s;
          n = foldl (\<lambda>acc d. acc * r + d) 0 ds in
      if ds = [] then None
      else if (case max_digits of None \<Rightarrow> False | Some k \<Rightarrow> k < length ds) then None
      else if limit < n then None
      else if \<not> allow_zero_prefix \<and> hd ds = 0 \<and> 1 < length ds then None
      else Some (n, rest))"

definition read_given_char :: "char \<Rightarrow> string \<Rightarrow> string option" where
  "read_given_char c s = (case s of [] \<Rightarrow> None | x # xs \<Rightarrow> if x = c then Some xs else None)"

definition read_separator :: "char \<Rightarrow> nat \<Rightarrow> (string \<Rightarrow> ('a \<times> string) option) \<Rightarrow> string \<Rightarrow> ('a \<times> string) option" where
  "read_separator sep index inner s =
     (if 0 < index then Option.bind (read_given_char sep s) inner else inner s)"

fun read_octets :: "nat \<Rightarrow> nat \<Rightarrow> string \<Rightarrow> (nat list \<times> string) option" where
  "read_octets 0 i s = Some ([], s)"
| "read_octets (Suc n) i s =
     (case read_separator (CHR ''.'') i (read_number 10 (Some 3) False 255) s of
        None \<Rightarrow> None
      | Some (v, rest) \<Rightarrow>
          (case read_octets n (Suc i) rest of None \<Rightarrow> None | Some (vs, rest') \<Rightarrow> Some (v # vs, rest')))"

definition read_ipv4 :: "string \<Rightarrow> (u32 \<times> string) option" where
  "read_ipv4 s = map_option (\<lambda>(vs, rest). (from_be_bytes (map word_of_nat vs), rest)) (read_octets 4 0 s)"

text \<open>Groups of an IPv6 address up to a limit; the flag says that an embedded IPv4 address ended them.\<close>

fun read_groups :: "nat \<Rightarrow> nat \<Rightarrow> string \<Rightarrow> u16 list \<times> bool \<times> string" where
  "read_groups 0 i s = ([], False, s)"
| "read_groups (Suc n) i s =
     (case (if 0 < n then read_separator (CHR '':'') i read_ipv4 s else None) of
        Some (a, rest) \<Rightarrow> ([ucast (drop_bit 16 a), ucast a], True, rest)
      | None \<Rightarrow>
         (case read_separator (CHR '':'') i (read_number 16 (Some 4) True 65535) s of
            None \<Rightarrow> ([], False, s)
          | Some (g, rest) \<Rightarrow>
              (case read_groups n (Suc i) rest of (gs, v4, rest') \<Rightarrow> (word_of_nat g # gs, v4, rest'))))"

definition ipv6_of_segments :: "u16 list \<Rightarrow> u128" where
  "ipv6_of_segments ss = foldl (\<lambda>acc s. push_bit 16 acc OR ucast s) 0 ss"

definition read_ipv6 :: "string \<Rightarrow> (u128 \<times> string) option" where
  "read_ipv6 s =
     (let (head, head_ipv4, rest) = read_groups 8 0 s in
      if length head = 8 then Some (ipv6_of_segments head, rest)
      else if head_ipv4 then None
      else case Option.bind (read_given_char (CHR '':'') rest) (read_given_char (CHR '':'')) of
             None \<Rightarrow> None
           | Some rest1 \<Rightarrow>
               let (tail, _, rest2) = read_groups (8 - (length head + 1)) 0 rest1 in
               Some (ipv6_of_segments (head @ replicate (8 - length head - length tail) 0 @ tail), rest2))"

definition whole :: "('a \<times> string) option \<Rightarrow> 'a option" where
  "whole r = (case r of Some (x, []) \<Rightarrow> Some x | _ \<Rightarrow> None)"

definition parse_ip :: "string \<Rightarrow> ip_addr option" where
  "parse_ip s =
     (case read_ipv4 s of
        Some (a, rest) \<Rightarrow> if rest = [] then Some (V4 a) else None
      | None \<Rightarrow> map_option V6 (whole (read_ipv6 s)))"

definition read_port :: "string \<Rightarrow> (nat \<times> string) option" where
  "read_port s = Option.bind (read_given_char (CHR '':'') s) (read_number 10 None True 65535)"

definition parse_socket_addr :: "string \<Rightarrow> socket_addr option" where
  "parse_socket_addr s =
     (case Option.bind (read_ipv4 s) (\<lambda>(a, rest). map_option (\<lambda>(p, r). ((a, p), r)) (read_port rest)) of
        Some ((a, p), rest) \<Rightarrow> if rest = [] then Some (SocketAddr (V4 a) (word_of_nat p)) else None
      | None \<Rightarrow>
         whole (Option.bind (read_given_char (CHR ''['') s) (\<lambda>s1.
                Option.bind (read_ipv6 s1) (\<lambda>(a, s2).
                Option.bind (read_given_char (CHR '']'') s2) (\<lambda>s3.
                map_option (\<lambda>(p, r). (SocketAddr (V6 a) (word_of_nat p), r)) (read_port s3))))))"

section \<open>Hexadecimal digits\<close>

lemma to_digit_hex_char: "d < 16 \<Longrightarrow> to_digit 16 (hex_char d) = Some d"
proof -
  assume d: "d < 16"
  show ?thesis
  proof (cases "d < 10")
    case True
    then show ?thesis by (simp add: hex_char_def digit_char_def to_digit_def Let_def)
  next
    case False
    then show ?thesis using d by (simp add: hex_char_def to_digit_def Let_def)
  qed
qed

section \<open>Reading back an IPv4 address\<close>

lemma take_digits_append:
  assumes "\<forall>d \<in> set ds. d < 10" and "rest = [] \<or> to_digit 10 (hd rest) = None"
  shows "take_digits 10 (map digit_char ds @ rest) = (ds, rest)"
  using assms(1)
proof (induction ds)
  case Nil
  then show ?case using assms(2) by (cases rest) auto
next
  case (Cons d ds)
  then show ?case by simp
qed

fun decimal :: "nat \<Rightarrow> nat list" where
  "decimal n = (if n < 10 then [n] else decimal (n div 10) @ [n mod 10])"

declare decimal.simps [simp del]

lemma nat_string_decimal: "nat_string n = map digit_char (decimal n)"
proof (induction n rule: decimal.induct)
  case (1 n)
  then show ?case by (cases "n < 10") (simp_all add: nat_string.simps [of n] decimal.simps [of n])
qed

lemma decimal_props:
  "(\<forall>d \<in> set (decimal n). d < 10) \<and> decimal n \<noteq> [] \<and> foldl (\<lambda>acc d. acc * 10 + d) 0 (decimal n) = n \<and>
   (hd (decimal n) = 0 \<longrightarrow> n = 0)"
proof (induction n rule: decimal.induct)
  case (1 n)
  then show ?case by (cases "n < 10") (auto simp: decimal.simps [of n])
qed

lemma decimal_zero [simp]: "decimal 0 = [0]"
  by (simp add: decimal.simps)

lemma length_decimal_octet: "n \<le> 255 \<Longrightarrow> length (decimal n) \<le> 3"
proof -
  assume "n \<le> 255"
  then have "n div 10 < 100" by simp
  then have "n div 10 div 10 < 10" by simp
  then show ?thesis by (simp add: decimal.simps [of n] decimal.simps [of "n div 10"] decimal.simps [of "n div 10 div 10"])
qed

lemma read_number_octet:
  assumes "n \<le> 255" and "rest = [] \<or> to_digit 10 (hd rest) = None"
  shows "read_number 10 (Some 3) False 255 (nat_string n @ rest) = Some (n, rest)"
  using decimal_props [of n] take_digits_append [of "decimal n" rest] length_decimal_octet [OF assms(1)] assms
  by (auto simp: read_number_def nat_string_decimal Let_def)

lemma read_ipv4_display:
  assumes "rest = [] \<or> to_digit 10 (hd rest) = None"
  shows "read_ipv4 (ipv4_display a @ rest) = Some (a, rest)"
proof -
  obtain w x y z where o: "be_bytes 4 a = [w, x, y, z]"
    by (simp add: eval_nat_numeral)
  have b: "unat (v :: u8) \<le> 255" for v using unat_less_word [of v] by simp
  have dot: "to_digit 10 (CHR ''.'') = None" by (simp add: to_digit_def)
  have "from_be_bytes [w, x, y, z] = a" using from_be_bytes_id(2) [of a] o by simp
  moreover have four: "(4 :: nat) = Suc (Suc (Suc (Suc 0)))" by simp
  have "read_octets 4 0 (ipv4_display a @ rest) = Some ([unat w, unat x, unat y, unat z], rest)"
    unfolding four using assms b dot
    by (simp add: ipv4_display_def ipv4_octets_def o uint_string_def read_separator_def
        read_given_char_def read_number_octet)
  ultimately show ?thesis by (simp add: read_ipv4_def)
qed

lemma parse_ip_display_v4: "parse_ip (ipv4_display a) = Some (V4 a)"
  using read_ipv4_display [of "[]" a] by (simp add: parse_ip_def)

end
