(* ===== verification/Stun.thy ===== *)
theory Stun
  imports Net
begin

unbundle bit_operations_syntax

text \<open>
  STUN discovery (\<open>hysteria-realm/src/stun.rs\<close>): server names, binding requests, the parser of binding
  responses with its indexing (an index out of range would be a panic), and the discovery loop over the
  datagrams that arrive before the deadline. Name resolution and the random source are parameters.
\<close>

section \<open>Definitions\<close>

abbreviation (input) MAGIC_COOKIE :: u32 where
  "MAGIC_COOKIE \<equiv> 0x2112a442"

abbreviation (input) BINDING_REQUEST :: u16 where
  "BINDING_REQUEST \<equiv> 0x0001"

abbreviation (input) BINDING_SUCCESS :: u16 where
  "BINDING_SUCCESS \<equiv> 0x0101"

abbreviation (input) MAPPED_ADDRESS :: u16 where
  "MAPPED_ADDRESS \<equiv> 0x0001"

abbreviation (input) XOR_MAPPED_ADDRESS :: u16 where
  "XOR_MAPPED_ADDRESS \<equiv> 0x0020"

abbreviation (input) DEFAULT_STUN_PORT :: u16 where
  "DEFAULT_STUN_PORT \<equiv> 3478"

datatype addr_family = AnyFamily | Ipv4 | Ipv6

fun allows :: "addr_family \<Rightarrow> ip_addr \<Rightarrow> bool" where
  "allows AnyFamily _ = True"
| "allows Ipv4 (V4 _) = True"
| "allows Ipv6 (V6 _) = True"
| "allows _ _ = False"

datatype stun_error =
    StunInvalidConfig string
  | StunIo string
  | StunTimeout
  | StunInvalidPacket string
  | StunRandom string

record stun_request =
  stun_server :: socket_addr
  stun_transaction :: bytes
  stun_packet :: bytes

definition split_server :: "string \<Rightarrow> stun_error + (string \<times> u16)" where
  "split_server server =
     (if server = [] then Inl (StunInvalidConfig ''STUN server is empty'')
      else case parse_socket_addr server of
        Some address \<Rightarrow> Inr (ip_display (sa_ip address), sa_port address)
      | None \<Rightarrow>
         (case parse_ip server of
            Some address \<Rightarrow> Inr (ip_display address, DEFAULT_STUN_PORT)
          | None \<Rightarrow>
             (let fallback = (if CHR '':'' \<in> set server then Inl (StunInvalidConfig ''invalid STUN server address'')
                              else Inr (server, DEFAULT_STUN_PORT)) in
              case rsplit_once server (CHR '':'') of
                None \<Rightarrow> fallback
              | Some (host, port) \<Rightarrow>
                  if host \<noteq> [] \<and> port \<noteq> [] \<and> CHR '':'' \<notin> set host then
                    and_then (ok_or (StunInvalidConfig ''invalid STUN server port'') (parse_u16 port)) (\<lambda>p.
                    if p = 0 then Inl (StunInvalidConfig ''invalid STUN server port'') else Inr (host, p))
                  else fallback)))"

abbreviation (input) binding_request :: "bytes \<Rightarrow> bytes" where
  "binding_request transaction \<equiv> be_bytes 2 BINDING_REQUEST @ [0, 0] @ be_bytes 4 MAGIC_COOKIE @ transaction"

abbreviation (input) transaction_id :: "'r random_source \<Rightarrow> ('r, stun_error, bytes) eff" where
  "transaction_id fill r \<equiv> (case fill r 12 of (res, r') \<Rightarrow> (ok_or (StunRandom ''random source'') res, r'))"

text \<open>Addresses of all servers, in order and without repetitions.\<close>

fun resolve_servers ::
  "(string \<Rightarrow> u16 \<Rightarrow> string + socket_addr list) \<Rightarrow> addr_family \<Rightarrow> string list \<Rightarrow> socket_addr list \<Rightarrow>
     stun_error + socket_addr list" where
  "resolve_servers lookup family [] output = Inr output"
| "resolve_servers lookup family (server # servers) output =
     and_then (split_server server) (\<lambda>(host, port).
     and_then (map_err StunIo (lookup host port)) (\<lambda>addresses.
     resolve_servers lookup family servers
       (foldl (\<lambda>out a. if allows family (sa_ip a) \<and> a \<notin> set out then out @ [a] else out) output addresses)))"

primrec make_requests :: "'r random_source \<Rightarrow> socket_addr list \<Rightarrow> ('r, stun_error, stun_request list) eff" where
  "make_requests fill [] = eff_return []"
| "make_requests fill (server # servers) =
     eff_bind (transaction_id fill) (\<lambda>transaction.
     eff_bind (make_requests fill servers) (\<lambda>requests.
     eff_return (\<lparr>stun_server = server, stun_transaction = transaction,
                  stun_packet = binding_request transaction\<rparr> # requests)))"

definition prepare_requests ::
  "(string \<Rightarrow> u16 \<Rightarrow> string + socket_addr list) \<Rightarrow> 'r random_source \<Rightarrow> addr_family \<Rightarrow> string list \<Rightarrow>
     ('r, stun_error, stun_request list) eff" where
  "prepare_requests lookup fill family servers =
     (if servers = [] then eff_lift (Inl (StunInvalidConfig ''at least one STUN server is required''))
      else eff_bind (eff_lift (resolve_servers lookup family servers [])) (\<lambda>addresses.
           if addresses = [] then eff_lift (Inl (StunInvalidConfig ''no STUN addresses match the requested family''))
           else make_requests fill addresses))"

definition xor_list :: "bytes \<Rightarrow> bytes \<Rightarrow> bytes" where
  "xor_list bs key = map2 (XOR) bs key"

definition parse_address :: "bytes \<Rightarrow> bool \<Rightarrow> bytes \<Rightarrow> stun_error + socket_addr" where
  "parse_address value xored transaction =
     (if length value < 4 \<or> value ! 0 \<noteq> 0 then Inl (StunInvalidPacket ''invalid mapped address'')
      else
        let port0 = from_be_bytes [value ! 2, value ! 3] :: u16;
            port = (if xored then port0 XOR ucast (drop_bit 16 MAGIC_COOKIE) else port0) in
        if value ! 1 = 0x01 \<and> length value = 8 then
          let raw = take 4 (drop 4 value);
              octets = (if xored then xor_list raw (be_bytes 4 MAGIC_COOKIE) else raw) in
          Inr (SocketAddr (V4 (from_be_bytes octets)) port)
        else if value ! 1 = 0x02 \<and> length value = 20 then
          let raw = take 16 (drop 4 value);
              octets = (if xored then xor_list raw (be_bytes 4 MAGIC_COOKIE @ transaction) else raw) in
          Inr (SocketAddr (V6 (from_be_bytes octets)) port)
        else Inl (StunInvalidPacket ''invalid mapped address family or length''))"

text \<open>
  The loop over the attributes of a response: \<open>packet[position]\<close> and the slice of the value are checked
  accesses. \<open>(length + 3) & !3\<close> rounds up to a multiple of four.
\<close>

function attribute_loop ::
  "bytes \<Rightarrow> bytes \<Rightarrow> nat \<Rightarrow> nat \<Rightarrow> socket_addr option \<Rightarrow> socket_addr option \<Rightarrow>
     stun_error fault + (socket_addr option \<times> socket_addr option)" where
  "attribute_loop packet transaction end_pos position mapped xor_mapped =
     (if position + 4 \<le> end_pos then
        and_then (index_at packet position) (\<lambda>k0.
        and_then (index_at packet (position + 1)) (\<lambda>k1.
        and_then (index_at packet (position + 2)) (\<lambda>l0.
        and_then (index_at packet (position + 3)) (\<lambda>l1.
        let kind = from_be_bytes [k0, k1] :: u16; len = unat (from_be_bytes [l0, l1] :: u16) in
        if end_pos < position + 4 + len then Inl (Err (StunInvalidPacket ''truncated attribute''))
        else
          and_then (slice_range packet (position + 4) (position + 4 + len)) (\<lambda>value.
          let xor_mapped' = (if kind = XOR_MAPPED_ADDRESS then ok (parse_address value True transaction) else xor_mapped);
              mapped' = (if kind = MAPPED_ADDRESS then ok (parse_address value False transaction) else mapped) in
          attribute_loop packet transaction end_pos (position + 4 + 4 * ((len + 3) div 4)) mapped' xor_mapped')))))
      else Inr (mapped, xor_mapped))"
  by pat_completeness auto
termination
  by (relation "measure (\<lambda>(packet, transaction, end_pos, position, mapped, xor_mapped). end_pos - position)") auto

declare attribute_loop.simps [simp del]

definition parse_binding_response :: "bytes \<Rightarrow> stun_error fault + (bytes \<times> socket_addr)" where
  "parse_binding_response packet =
     (if length packet < 20 then Inl (Err (StunInvalidPacket ''truncated header''))
      else if packet ! 0 AND 0xc0 \<noteq> 0 then Inl (Err (StunInvalidPacket ''truncated header''))
      else if from_be_bytes [packet ! 0, packet ! 1] \<noteq> BINDING_SUCCESS
      then Inl (Err (StunInvalidPacket ''not a binding success response''))
      else
        let body_length = unat (from_be_bytes [packet ! 2, packet ! 3] :: u16) in
        if length packet < 20 + body_length \<or>
           from_be_bytes [packet ! 4, packet ! 5, packet ! 6, packet ! 7] \<noteq> MAGIC_COOKIE
        then Inl (Err (StunInvalidPacket ''invalid header''))
        else
          and_then (slice_range packet 8 20) (\<lambda>transaction.
          and_then (attribute_loop packet transaction (20 + body_length) 20 None None) (\<lambda>(mapped, xor_mapped).
          ok_or (Err (StunInvalidPacket ''missing mapped address''))
            (map_option (\<lambda>address. (transaction, address))
              (case xor_mapped of Some a \<Rightarrow> Some a | None \<Rightarrow> mapped)))))"

text \<open>
  Discovery over the datagrams (or receive errors) that arrive before the deadline; the end of the list
  is the timeout. \<open>sent_ok\<close> tells which requests the socket accepted.
\<close>

fun discover_loop ::
  "(bytes, socket_addr) hmap \<Rightarrow> socket_addr list \<Rightarrow> (string + bytes) list \<Rightarrow> stun_error + socket_addr list" where
  "discover_loop transactions results [] = Inr results"
| "discover_loop transactions results (received # rest) =
     (if transactions = [] then Inr results
      else case received of
        Inl e \<Rightarrow> Inl (StunIo e)
      | Inr packet \<Rightarrow>
         (case parse_binding_response packet of
            Inl _ \<Rightarrow> discover_loop transactions results rest
          | Inr (transaction, address) \<Rightarrow>
              if hm_get transactions transaction \<noteq> None
              then discover_loop (hm_remove transaction transactions) (bt_insert address results) rest
              else discover_loop transactions results rest))"

definition discover :: "(stun_request \<Rightarrow> bool) \<Rightarrow> stun_request list \<Rightarrow> (string + bytes) list \<Rightarrow> stun_error + socket_addr list" where
  "discover sent_ok requests inputs =
     (let transactions = foldl (\<lambda>m q. if sent_ok q then hm_insert (stun_transaction q) (stun_server q) m else m) [] requests in
      if transactions = [] then Inl (StunInvalidConfig ''failed to send STUN binding requests'')
      else and_then (discover_loop transactions [] inputs) (\<lambda>results.
           if results = [] then Inl StunTimeout else Inr results))"

section \<open>Absence of panics\<close>

lemma attribute_loop_no_panic:
  "end_pos \<le> length packet \<Longrightarrow> attribute_loop packet transaction end_pos position mapped xor_mapped \<noteq> Inl Panic"
proof (induction packet transaction end_pos position mapped xor_mapped rule: attribute_loop.induct)
  case (1 packet transaction end_pos position mapped xor_mapped)
  show ?case
  proof (cases "position + 4 \<le> end_pos")
    case False
    then show ?thesis by (subst attribute_loop.simps) simp
  next
    case True
    then have idx: "index_at packet (position + i) = (Inr (packet ! (position + i)) :: stun_error fault + u8)"
      if "i < 4" for i
      using 1(2) that by (simp add: index_at_def)
    let ?len = "unat (from_be_bytes [packet ! (position + 2), packet ! (position + 3)] :: u16)"
    show ?thesis
    proof (cases "end_pos < position + 4 + ?len")
      case trunc: True
      then show ?thesis
        using True idx [of 0] idx [of 1] idx [of 2] idx [of 3]
        by (subst attribute_loop.simps) (simp add: Let_def)
    next
      case False
      then have sl: "slice_range packet (position + 4) (position + 4 + ?len) =
          (Inr (take ?len (drop (position + 4) packet)) :: stun_error fault + bytes)"
        using 1(2) by (simp add: slice_range_def)
      show ?thesis
        using True False idx [of 0] idx [of 1] idx [of 2] idx [of 3] sl 1
        by (subst attribute_loop.simps) (simp add: Let_def)
    qed
  qed
qed

section \<open>A response of a server\<close>

text \<open>
  The binding response of RFC 5389 with the mapped address in its XORed form, which is what servers send.
\<close>

fun address_value :: "bytes \<Rightarrow> socket_addr \<Rightarrow> bytes" where
  "address_value transaction (SocketAddr (V4 a) p) =
     [0, 0x01] @ be_bytes 2 (p XOR ucast (drop_bit 16 MAGIC_COOKIE)) @ xor_list (be_bytes 4 a) (be_bytes 4 MAGIC_COOKIE)"
| "address_value transaction (SocketAddr (V6 a) p) =
     [0, 0x02] @ be_bytes 2 (p XOR ucast (drop_bit 16 MAGIC_COOKIE)) @
     xor_list (be_bytes 16 a) (be_bytes 4 MAGIC_COOKIE @ transaction)"

definition binding_response :: "bytes \<Rightarrow> socket_addr \<Rightarrow> bytes" where
  "binding_response transaction address =
     (let value = address_value transaction address in
      be_bytes 2 BINDING_SUCCESS @ be_bytes 2 (word_of_nat (4 + length value) :: u16) @
      be_bytes 4 MAGIC_COOKIE @ transaction @
      be_bytes 2 XOR_MAPPED_ADDRESS @ be_bytes 2 (word_of_nat (length value) :: u16) @ value)"

lemma length_xor_list [simp]: "length (xor_list a b) = min (length a) (length b)"
  by (simp add: xor_list_def)

lemma xor_list_cancel: "length a \<le> length b \<Longrightarrow> xor_list (xor_list a b) b = a"
  by (rule nth_equalityI) (simp_all add: xor_list_def xor.assoc)

lemma from_be_bytes_16: "from_be_bytes (be_bytes 16 (w :: u128)) = w"
  by (simp add: from_be_bytes_be_bytes take_bit_word_eq_self)

lemma attribute_loop_last:
  assumes packet: "packet = pre @ [k0, k1, l0, l1] @ value" and pos: "length pre = position"
    and len: "unat (from_be_bytes [l0, l1] :: u16) = length value" and four: "4 * ((length value + 3) div 4) = length value"
    and kind: "from_be_bytes [k0, k1] = XOR_MAPPED_ADDRESS"
  shows "attribute_loop packet transaction (length packet) position mapped xor_mapped =
    Inr (mapped, ok (parse_address value True transaction))"
proof -
  have le: "position + 4 \<le> length packet" using packet pos by simp
  have idx: "index_at packet position = (Inr k0 :: stun_error fault + u8)"
    "index_at packet (position + 1) = (Inr k1 :: stun_error fault + u8)"
    "index_at packet (position + 2) = (Inr l0 :: stun_error fault + u8)"
    "index_at packet (position + 3) = (Inr l1 :: stun_error fault + u8)"
    using packet pos by (simp_all add: index_at_def nth_append)
  have sl: "slice_range packet (position + 4) (position + 4 + length value) = (Inr value :: stun_error fault + bytes)"
    using packet pos by (simp add: slice_range_def)
  have fin: "length packet = position + 4 + length value" using packet pos by simp
  have ne: "XOR_MAPPED_ADDRESS \<noteq> MAPPED_ADDRESS" by simp
  have stop: "attribute_loop packet transaction (position + 4 + length value) (position + 4 + length value) m x = Inr (m, x)" for m x
    by (subst attribute_loop.simps) simp
  show ?thesis
    unfolding fin
    by (subst attribute_loop.simps)
      (simp only: le [unfolded fin] if_True idx and_then_simps Let_def len sl four kind ne stop less_irrefl if_False
        refl)
qed

lemma parse_address_value:
  "length transaction = 12 \<Longrightarrow> parse_address (address_value transaction address) True transaction = Inr address"
proof (cases address)
  case (SocketAddr ip p)
  let ?c = "ucast (drop_bit 16 MAGIC_COOKIE) :: u16"
  have port: "from_be_bytes [ucast (drop_bit 8 (p XOR ?c)), ucast (p XOR ?c)] = p XOR ?c"
    using from_be_bytes_id(1) [of "p XOR ?c"] by (simp only: be_bytes_2)
  have undo: "(p XOR ?c) XOR ?c = p" by (simp add: xor.assoc)
  assume t: "length transaction = 12"
  show ?thesis
  proof (cases ip)
    case (V4 a)
    have "xor_list (xor_list (be_bytes 4 a) (be_bytes 4 MAGIC_COOKIE)) (be_bytes 4 MAGIC_COOKIE) = be_bytes 4 a"
      by (rule xor_list_cancel) simp
    then show ?thesis
      using port undo SocketAddr V4 by (simp add: parse_address_def be_bytes_2 Let_def)
  next
    case (V6 a)
    let ?m = "be_bytes 4 MAGIC_COOKIE @ transaction"
    have "xor_list (xor_list (be_bytes 16 a) ?m) ?m = be_bytes 16 a"
      by (rule xor_list_cancel) (simp add: t)
    then show ?thesis
      using port undo SocketAddr V6 t by (simp add: parse_address_def be_bytes_2 Let_def from_be_bytes_16)
  qed
qed

lemma length_address_value:
  "length transaction = 12 \<Longrightarrow> length (address_value transaction a) = 8 \<or> length (address_value transaction a) = 20"
  by (cases a; cases "sa_ip a") auto

lemma unat_be_u16: "n < 65536 \<Longrightarrow>
  unat (from_be_bytes [ucast (drop_bit 8 (word_of_nat n :: u16)), ucast (word_of_nat n :: u16)] :: u16) = n"
  using from_be_bytes_id(1) [of "word_of_nat n :: u16"] by (simp add: be_bytes_2 unat_of_nat)

lemma discover_loop_sound:
  "discover_loop transactions results inputs = Inr addresses \<Longrightarrow> a \<in> set addresses \<Longrightarrow>
     a \<in> set results \<or> (\<exists>packet t. Inr packet \<in> set inputs \<and> parse_binding_response packet = Inr (t, a) \<and>
        hm_get transactions t \<noteq> None)"
proof (induction transactions results inputs rule: discover_loop.induct)
  case (1 transactions results)
  then show ?case by simp
next
  case (2 transactions results received rest)
  show ?case
  proof (cases "transactions = []")
    case True
    with 2 show ?thesis by simp
  next
    case False
    then obtain packet where r: "received = Inr packet" using 2(4) by (cases received) auto
    show ?thesis
    proof (cases "parse_binding_response packet")
      case (Inl e)
      then show ?thesis using 2 False r by fastforce
    next
      case (Inr p)
      obtain t b where p: "p = (t, b)" by (cases p)
      show ?thesis
      proof (cases "hm_get transactions t")
        case None
        then show ?thesis using 2 False r Inr p by fastforce
      next
        case (Some server)
        then have "a \<in> set (bt_insert b results) \<or> (\<exists>packet t'. Inr packet \<in> set rest \<and>
            parse_binding_response packet = Inr (t', a) \<and> hm_get (hm_remove t transactions) t' \<noteq> None)"
          using 2 False r Inr p by simp
        then show ?thesis using Inr p r Some by (fastforce simp: hm.get_remove split: if_splits)
      qed
    qed
  qed
qed

lemma sent_transactions:
  "hm_get (foldl (\<lambda>m q. if sent_ok q then hm_insert (stun_transaction q) (stun_server q) m else m) m0 requests) t \<noteq> None \<Longrightarrow>
     hm_get m0 t \<noteq> None \<or> (\<exists>q \<in> set requests. sent_ok q \<and> stun_transaction q = t)"
proof (induction requests arbitrary: m0)
  case Nil
  then show ?case by simp
next
  case (Cons q requests)
  let ?m = "if sent_ok q then hm_insert (stun_transaction q) (stun_server q) m0 else m0"
  have "hm_get ?m t \<noteq> None \<or> (\<exists>q \<in> set requests. sent_ok q \<and> stun_transaction q = t)"
    using Cons.prems by (intro Cons.IH) simp
  moreover have "hm_get ?m t \<noteq> None \<longrightarrow> hm_get m0 t \<noteq> None \<or> sent_ok q \<and> stun_transaction q = t"
    by (simp add: hm.get_insert)
  ultimately show ?case by (metis list.set_intros)
qed

section \<open>Properties\<close>

text \<open>
  Parsing a datagram as a STUN binding response never indexes out of range, whatever its bytes.
\<close>

lemma stun_parse_no_panic: "parse_binding_response packet \<noteq> Inl Panic"
proof -
  have no: "attribute_loop packet t (20 + n) 20 None None \<noteq> Inl Panic" if "20 + n \<le> length packet" for t n
    using that by (rule attribute_loop_no_panic)
  have "and_then (attribute_loop packet t (20 + n) 20 None None) (\<lambda>(mapped, xor_mapped).
          ok_or (Err (StunInvalidPacket ''missing mapped address''))
            (map_option (\<lambda>address. (t, address))
              (case xor_mapped of Some a \<Rightarrow> Some a | None \<Rightarrow> mapped))) \<noteq> Inl Panic"
    if "20 + n \<le> length packet" for t n
    using no [OF that, of t]
    by (auto simp: and_then_eq_Inl ok_or_def split: option.splits)
  then show ?thesis
    by (auto simp: parse_binding_response_def Let_def slice_range_def not_less)
qed

text \<open>
  The binding response of RFC 5389 for an address, in the XORed form, is parsed back to the
  transaction it answers and to that address, for IPv4 and IPv6.
\<close>

lemma stun_response_roundtrip:
  assumes "length transaction = 12"
  shows "parse_binding_response (binding_response transaction address) = Inr (transaction, address)"
proof -
  let ?v = "address_value transaction address"
  define packet where "packet = binding_response transaction address"
  define n where "n = length ?v"
  have n: "n = 8 \<or> n = 20" unfolding n_def by (rule length_address_value [OF assms])
  let ?l = "word_of_nat (4 + n) :: u16" and ?k = "word_of_nat n :: u16"
  let ?pre = "[1, 1, ucast (drop_bit 8 ?l), ucast ?l] @ be_bytes 4 MAGIC_COOKIE @ transaction"
  have packet: "packet = ?pre @ [0, 0x20, ucast (drop_bit 8 ?k), ucast ?k] @ ?v"
    by (simp add: packet_def binding_response_def Let_def n_def be_bytes_2 )
  have len: "length packet = 20 + (4 + n)" using assms by (simp add: packet n_def)
  have head: "packet ! 0 = 1" "packet ! 1 = 1" "packet ! 2 = ucast (drop_bit 8 ?l)" "packet ! 3 = ucast ?l"
    by (simp_all add: packet)
  have cookie: "from_be_bytes [packet ! 4, packet ! 5, packet ! 6, packet ! 7] = MAGIC_COOKIE"
    using from_be_bytes_id(2) [of MAGIC_COOKIE] by (simp add: packet be_bytes_4)
  have body: "unat (from_be_bytes [packet ! 2, packet ! 3] :: u16) = 4 + n"
    unfolding head using n by (intro unat_be_u16) auto
  have success: "from_be_bytes [packet ! 0, packet ! 1] = BINDING_SUCCESS"
    unfolding head by (simp add: from_be_bytes_def be_step_def )
  have sl: "slice_range packet 8 20 = (Inr transaction :: stun_error fault + bytes)"
    using assms by (simp add: slice_range_def packet be_bytes_4)
  have "attribute_loop packet transaction (length packet) 20 None None = Inr (None, ok (parse_address ?v True transaction))"
  proof (rule attribute_loop_last [OF packet])
    show "length ?pre = 20" using assms by simp
    show "unat (from_be_bytes [ucast (drop_bit 8 ?k), ucast ?k] :: u16) = length ?v"
      using n unfolding n_def [symmetric] by (intro unat_be_u16) auto
    show "4 * ((length ?v + 3) div 4) = length ?v" using n unfolding n_def [symmetric] by auto
    show "from_be_bytes [0, 0x20] = XOR_MAPPED_ADDRESS"
      by (simp add: from_be_bytes_def be_step_def )
  qed
  then have loop: "attribute_loop packet transaction (20 + (4 + n)) 20 None None = Inr (None, Some address)"
    using parse_address_value [OF assms] len by simp
  show ?thesis
    unfolding packet_def [symmetric] parse_binding_response_def
    using len head(1) success body cookie sl loop by (simp add: Let_def)
qed



end
