(* ===== verification/Punch.thy ===== *)
theory Punch
  imports Stun "HOL-Library.Monad_Syntax"
begin

unbundle bit_operations_syntax

text \<open>
  Realm hole punching: the punch packets of \<open>hysteria-realm/src/punch.rs\<close> and the candidate addresses and
  the exchange of \<open>hysteria-realm/src/engine.rs\<close>. SHA-256 is the parameter \<open>sha\<close>. Slicing a string at a
  position that is not a character boundary is a panic, so the functions that read metadata return faults.
\<close>

section \<open>Packets\<close>

abbreviation (input) MAX_PUNCH_PADDING :: usize where
  "MAX_PUNCH_PADDING \<equiv> 1024"

abbreviation (input) PUNCH_SALT_LENGTH :: usize where
  "PUNCH_SALT_LENGTH \<equiv> 8"

abbreviation (input) HEADER_LENGTH :: usize where
  "HEADER_LENGTH \<equiv> 25"

abbreviation (input) MINIMUM_WIRE_LENGTH :: usize where
  "MINIMUM_WIRE_LENGTH \<equiv> PUNCH_SALT_LENGTH + HEADER_LENGTH"

abbreviation (input) MAXIMUM_WIRE_LENGTH :: usize where
  "MAXIMUM_WIRE_LENGTH \<equiv> MINIMUM_WIRE_LENGTH + MAX_PUNCH_PADDING"

definition PUNCH_MAGIC :: bytes where
  "PUNCH_MAGIC = [72, 89, 82, 76, 77, 118, 49, 0]"

datatype punch_packet_error = PunchInvalid string | PunchRandom string

record punch_metadata =
  pm_nonce :: string
  pm_obfs :: string

datatype punch_packet_type = Hello | Ack

fun packet_type_byte :: "punch_packet_type \<Rightarrow> u8" where
  "packet_type_byte Hello = 0x01"
| "packet_type_byte Ack = 0x02"

record punch_packet =
  pp_kind :: punch_packet_type
  pp_padding_length :: usize

fun decode_hex_from :: "string \<Rightarrow> string \<Rightarrow> nat \<Rightarrow> nat \<Rightarrow> punch_packet_error fault + bytes" where
  "decode_hex_from name value index 0 = Inr []"
| "decode_hex_from name value index (Suc n) =
     and_then (str_slice value (index * 2) (index * 2 + 2)) (\<lambda>digits.
     and_then (ok_or (Err (PunchInvalid (''invalid '' @ name))) (parse_uint 16 255 digits)) (\<lambda>byte.
     and_then (decode_hex_from name value (Suc index) n) (\<lambda>rest.
     Inr (word_of_nat byte # rest))))"

definition decode_hex :: "nat \<Rightarrow> string \<Rightarrow> string \<Rightarrow> punch_packet_error fault + bytes" where
  "decode_hex n name value =
     (if length value \<noteq> n * 2 then Inl (Err (PunchInvalid (''invalid '' @ name @ '' length'')))
      else decode_hex_from name value 0 n)"

definition encode_hex :: "bytes \<Rightarrow> string" where
  "encode_hex input = concat (map (\<lambda>b. [hex_char (unat b div 16), hex_char (unat b mod 16)]) input)"

definition decode_metadata :: "punch_metadata \<Rightarrow> punch_packet_error fault + (bytes \<times> bytes)" where
  "decode_metadata m =
     and_then (decode_hex 16 ''nonce'' (pm_nonce m)) (\<lambda>nonce.
     and_then (decode_hex 32 ''obfs'' (pm_obfs m)) (\<lambda>obfs. Inr (nonce, obfs)))"

definition xor_packet :: "(bytes \<Rightarrow> bytes) \<Rightarrow> bytes \<Rightarrow> bytes \<Rightarrow> bytes \<Rightarrow> bytes" where
  "xor_packet sha packet obfs salt = xor_stream (sha (obfs @ salt)) 32 packet"

definition punch_fill_random :: "'r random_source \<Rightarrow> nat \<Rightarrow> ('r, punch_packet_error fault, bytes) eff" where
  "punch_fill_random fill n r =
     (case fill r n of (res, r') \<Rightarrow> (ok_or (Err (PunchRandom ''random source'')) res, r'))"

definition new_punch_metadata :: "'r random_source \<Rightarrow> ('r, punch_packet_error fault, punch_metadata) eff" where
  "new_punch_metadata fill =
     eff_bind (punch_fill_random fill 16) (\<lambda>nonce.
     eff_bind (punch_fill_random fill 32) (\<lambda>obfs.
     eff_return \<lparr>pm_nonce = encode_hex nonce, pm_obfs = encode_hex obfs\<rparr>))"

definition encode_with ::
  "(bytes \<Rightarrow> bytes) \<Rightarrow> 'r random_source \<Rightarrow> punch_packet_type \<Rightarrow> punch_metadata \<Rightarrow> bytes \<Rightarrow> usize \<Rightarrow>
     ('r, punch_packet_error fault, bytes) eff" where
  "encode_with sha fill kind m salt padding_length =
     (if MAX_PUNCH_PADDING < padding_length then eff_lift (Inl (Err (PunchInvalid ''padding is too large'')))
      else eff_bind (eff_lift (decode_metadata m)) (\<lambda>(nonce, obfs).
           eff_bind (if padding_length \<noteq> 0 then punch_fill_random fill padding_length else eff_return []) (\<lambda>padding.
           eff_return (salt @ xor_packet sha (PUNCH_MAGIC @ [packet_type_byte kind] @ nonce @ padding) obfs salt))))"

abbreviation (input) PADDING_RANGE :: u16 where
  "PADDING_RANGE \<equiv> 1025"

definition PADDING_LIMIT :: u16 where
  "PADDING_LIMIT = 0xffff - (0xffff mod PADDING_RANGE)"

text \<open>
  Rejection sampling: the loop ends when the random source fails or yields a value below the limit; a
  source that never does makes it run forever, which is the value \<open>None\<close>.
\<close>

partial_function (option) random_padding_length ::
  "'r random_source \<Rightarrow> 'r \<Rightarrow> ((punch_packet_error fault + usize) \<times> 'r) option" where
  "random_padding_length fill r =
     (case punch_fill_random fill 2 r of
        (Inl e, r') \<Rightarrow> Some (Inl e, r')
      | (Inr bs, r') \<Rightarrow>
          (let value = from_be_bytes bs :: u16 in
           if value < PADDING_LIMIT then Some (Inr (unat (value mod PADDING_RANGE)), r')
           else random_padding_length fill r'))"

definition punch_encode ::
  "(bytes \<Rightarrow> bytes) \<Rightarrow> 'r random_source \<Rightarrow> punch_packet_type \<Rightarrow> punch_metadata \<Rightarrow> 'r \<Rightarrow>
     ((punch_packet_error fault + bytes) \<times> 'r) option" where
  "punch_encode sha fill kind m r =
     Option.bind (random_padding_length fill r) (\<lambda>(res, r1).
     Some (case res of Inl e \<Rightarrow> (Inl e, r1)
           | Inr padding_length \<Rightarrow>
               eff_bind (punch_fill_random fill PUNCH_SALT_LENGTH) (\<lambda>salt.
                 encode_with sha fill kind m salt padding_length) r1))"

definition punch_decode :: "(bytes \<Rightarrow> bytes) \<Rightarrow> bytes \<Rightarrow> punch_metadata \<Rightarrow> punch_packet_error fault + punch_packet" where
  "punch_decode sha packet m =
     (if \<not> (MINIMUM_WIRE_LENGTH \<le> length packet \<and> length packet \<le> MAXIMUM_WIRE_LENGTH)
      then Inl (Err (PunchInvalid ''invalid packet length''))
      else and_then (decode_metadata m) (\<lambda>(nonce, obfs).
        let salt = take PUNCH_SALT_LENGTH packet;
            plaintext = xor_packet sha (drop PUNCH_SALT_LENGTH packet) obfs salt in
        if take (length PUNCH_MAGIC) plaintext \<noteq> PUNCH_MAGIC then Inl (Err (PunchInvalid ''bad magic''))
        else and_then (if plaintext ! length PUNCH_MAGIC = 0x01 then Inr Hello
                       else if plaintext ! length PUNCH_MAGIC = 0x02 then Inr Ack
                       else Inl (Err (PunchInvalid ''unknown packet type''))) (\<lambda>kind.
             if take (HEADER_LENGTH - (length PUNCH_MAGIC + 1)) (drop (length PUNCH_MAGIC + 1) plaintext) \<noteq> nonce
             then Inl (Err (PunchInvalid ''nonce mismatch''))
             else Inr \<lparr>pp_kind = kind, pp_padding_length = length plaintext - HEADER_LENGTH\<rparr>)))"

section \<open>Candidate addresses\<close>

abbreviation (input) SYMMETRIC_PORT_GAP :: u16 where
  "SYMMETRIC_PORT_GAP \<equiv> 4"

abbreviation (input) SYMMETRIC_EXTRA_PORTS :: u16 where
  "SYMMETRIC_EXTRA_PORTS \<equiv> 4"

abbreviation (input) SYMMETRIC_MAX_PORTS_PER_HOST :: usize where
  "SYMMETRIC_MAX_PORTS_PER_HOST \<equiv> 32"

record punch_families =
  fam_ipv4 :: bool
  fam_ipv6 :: bool

fun punch_families_new :: "socket_addr list \<Rightarrow> addr_family \<Rightarrow> punch_families" where
  "punch_families_new local_addresses Ipv4 = \<lparr>fam_ipv4 = True, fam_ipv6 = False\<rparr>"
| "punch_families_new local_addresses Ipv6 = \<lparr>fam_ipv4 = False, fam_ipv6 = True\<rparr>"
| "punch_families_new local_addresses AnyFamily =
     (let value = foldl (\<lambda>v a. v\<lparr>fam_ipv4 := fam_ipv4 v \<or> is_ipv4 (sa_ip a), fam_ipv6 := fam_ipv6 v \<or> \<not> is_ipv4 (sa_ip a)\<rparr>)
                    \<lparr>fam_ipv4 = False, fam_ipv6 = False\<rparr> local_addresses in
      if \<not> fam_ipv4 value \<and> \<not> fam_ipv6 value then \<lparr>fam_ipv4 = True, fam_ipv6 = True\<rparr> else value)"

fun families_allow :: "punch_families \<Rightarrow> ip_addr \<Rightarrow> bool" where
  "families_allow f (V4 _) = fam_ipv4 f"
| "families_allow f (V6 _) = fam_ipv6 f"

fun gaps_small :: "u16 list \<Rightarrow> bool" where
  "gaps_small (a # b # ps) = (b - a \<le> SYMMETRIC_PORT_GAP \<and> gaps_small (b # ps))"
| "gaps_small _ = True"

definition predictable_ports :: "u16 list \<Rightarrow> bool" where
  "predictable_ports ports = (2 \<le> length ports \<and> gaps_small ports)"

text \<open>Ports of the candidates by IPv4 host, in the order of first appearance.\<close>

definition push_port :: "(ip_addr, u16 list) hmap \<Rightarrow> socket_addr \<Rightarrow> (ip_addr, u16 list) hmap" where
  "push_port m a =
     (if is_ipv4 (sa_ip a) then hm_insert (sa_ip a) (unwrap_or [] (hm_get m (sa_ip a)) @ [sa_port a]) m else m)"

text \<open>\<open>for port in first..=end\<close> with the early exit after 32 new addresses.\<close>

fun add_ports :: "ip_addr \<Rightarrow> nat list \<Rightarrow> nat \<Rightarrow> socket_addr list \<Rightarrow> socket_addr list" where
  "add_ports ip [] added candidates = candidates"
| "add_ports ip (p # ps) added candidates =
     (let address = SocketAddr ip (word_of_nat p) in
      if address \<in> set candidates then add_ports ip ps added candidates
      else if added + 1 = SYMMETRIC_MAX_PORTS_PER_HOST then bt_insert address candidates
      else add_ports ip ps (added + 1) (bt_insert address candidates))"

definition extend_host :: "ip_addr \<times> u16 list \<Rightarrow> socket_addr list \<Rightarrow> socket_addr list" where
  "extend_host host candidates =
     (let ports = remdups_adj (sort (snd host)) in
      if \<not> predictable_ports ports then candidates
      else let end_port = saturating_add (last ports) SYMMETRIC_EXTRA_PORTS in
           add_ports (fst host) [unat (hd ports)..<unat end_port + 1] 0 candidates)"

definition candidate_punch_addresses :: "socket_addr list \<Rightarrow> socket_addr list \<Rightarrow> addr_family \<Rightarrow> socket_addr list" where
  "candidate_punch_addresses local_addresses peer_addresses family =
     (let families = punch_families_new local_addresses family;
          candidates = bt_collect (filter (\<lambda>a. sa_port a \<noteq> 0 \<and> families_allow families (sa_ip a)) peer_addresses);
          ports_by_ip = foldl push_port [] candidates in
      foldl (\<lambda>c host. extend_host host c) candidates ports_by_ip)"

section \<open>The exchange\<close>

datatype punch_error = PunchInvalidConfig string | PunchTimeout | PunchIo string | PunchPacketError punch_packet_error

text \<open>What \<open>select!\<close> can observe, and what the loop sends: a kind of packet to an address.\<close>

datatype punch_event = PunchDeadline | PunchTick | PunchReceived "string + (bytes \<times> socket_addr)"

fun punch_loop ::
  "(bytes \<Rightarrow> bytes) \<Rightarrow> punch_metadata \<Rightarrow> socket_addr list \<Rightarrow> punch_event list \<Rightarrow>
     (punch_error fault + (socket_addr \<times> punch_packet)) option \<times> (punch_packet_type \<times> socket_addr) list" where
  "punch_loop sha m candidates [] = (None, [])"
| "punch_loop sha m candidates (e # es) =
     (case e of
        PunchDeadline \<Rightarrow> (Some (Inl (Err PunchTimeout)), [])
      | PunchTick \<Rightarrow> (case punch_loop sha m candidates es of (res, out) \<Rightarrow> (res, map (Pair Hello) candidates @ out))
      | PunchReceived (Inl error) \<Rightarrow> (Some (Inl (Err (PunchIo error))), [])
      | PunchReceived (Inr (wire, peer)) \<Rightarrow>
          (case punch_decode sha wire m of
             Inl Panic \<Rightarrow> (Some (Inl Panic), [])
           | Inl (Err _) \<Rightarrow> punch_loop sha m candidates es
           | Inr packet \<Rightarrow>
               (Some (Inr (peer, packet)), if pp_kind packet = Hello then [(Ack, peer)] else [])))"

text \<open>
  The whole exchange: the metadata is tried on one packet first, which draws from the random source,
  then the loop runs over the events up to the deadline. \<open>None\<close> is an encoding whose padding draw never ends,
  and \<open>Some (None, _)\<close> a loop that is still waiting when the events end.
\<close>

definition punch ::
  "(bytes \<Rightarrow> bytes) \<Rightarrow> 'r random_source \<Rightarrow> socket_addr list \<Rightarrow> socket_addr list \<Rightarrow> punch_metadata \<Rightarrow> addr_family \<Rightarrow>
     punch_event list \<Rightarrow> 'r \<Rightarrow>
     ((punch_error fault + (socket_addr \<times> punch_packet)) option \<times> (punch_packet_type \<times> socket_addr) list) option" where
  "punch sha fill local_addresses peer_addresses m family events r =
     Option.bind (punch_encode sha fill Hello m r) (\<lambda>(res, _).
     Some (case res of
        Inl Panic \<Rightarrow> (Some (Inl Panic), [])
      | Inl (Err e) \<Rightarrow> (Some (Inl (Err (PunchPacketError e))), [])
      | Inr _ \<Rightarrow>
          let candidates = candidate_punch_addresses local_addresses peer_addresses family in
          if candidates = []
          then (Some (Inl (Err (PunchInvalidConfig ''no compatible peer addresses''))), [])
          else punch_loop sha m candidates events))"

section \<open>Hexadecimal text\<close>

lemma of_char_hex_char: "d < 16 \<Longrightarrow> (of_char (hex_char d) :: nat) < 128 \<and> (of_char (hex_char d) :: nat) \<noteq> 43"
  by (auto simp: hex_char_def digit_char_def)

lemma hex_char_ascii: "d < 16 \<Longrightarrow> byte_of_char (hex_char d) AND 0xC0 \<noteq> 0x80"
proof -
  assume d: "d < 16"
  have "\<not> bit (byte_of_char (hex_char d)) 7"
  proof -
    have "unat (byte_of_char (hex_char d)) < 2 ^ 7"
      using of_char_hex_char [OF d] by (simp add: byte_of_char_def unat_of_nat)
    then have "take_bit 7 (byte_of_char (hex_char d)) = byte_of_char (hex_char d)"
      by (intro unsigned_word_eqI [where ?'a = nat]) (simp add: unsigned_take_bit_eq take_bit_nat_eq_self)
    then show ?thesis by (metis bit_take_bit_iff less_irrefl)
  qed
  then show ?thesis
  proof (rule contrapos_nn)
    assume "byte_of_char (hex_char d) AND 0xC0 = 0x80"
    then have "bit (byte_of_char (hex_char d) AND 0xC0) 7 = bit (0x80 :: u8) 7" by simp
    then show "bit (byte_of_char (hex_char d)) 7" by (simp add: bit_simps)
  qed
qed

lemma parse_hex_pair:
  assumes "a < 16" and "b < 16"
  shows "parse_uint 16 255 [hex_char a, hex_char b] = Some (a * 16 + b)"
proof -
  have "hex_char a \<noteq> CHR ''+''" using of_char_hex_char [OF assms(1)] by auto
  moreover have "a * 16 + b \<le> 255" using assms by simp
  ultimately show ?thesis using assms by (simp add: parse_uint_def to_digit_hex_char)
qed

lemma length_encode_hex [simp]: "length (encode_hex bs) = 2 * length bs"
  by (induction bs) (simp_all add: encode_hex_def)

lemma encode_hex_nth:
  assumes "i < length bs"
  shows "encode_hex bs ! (2 * i) = hex_char (unat (bs ! i) div 16)"
    and "encode_hex bs ! Suc (2 * i) = hex_char (unat (bs ! i) mod 16)"
  using assms
proof (induction bs arbitrary: i)
  case (Cons b bs)
  {
    case 1
    then show ?case using Cons(1) [of "i - 1"] by (cases i) (simp_all add: encode_hex_def)
  next
    case 2
    then show ?case using Cons(2) [of "i - 1"] by (cases i) (simp_all add: encode_hex_def)
  }
qed simp_all

lemma encode_hex_boundary: "i \<le> 2 * length bs \<Longrightarrow> is_char_boundary (encode_hex bs) i"
proof (cases "i < 2 * length bs")
  case True
  define j where "j = i div 2"
  have j: "j < length bs" using True by (simp add: j_def)
  have b: "unat (bs ! j) div 16 < 16" "unat (bs ! j) mod 16 < 16" using unat_less_word [of "bs ! j"] by simp_all
  have "i = 2 * j \<or> i = Suc (2 * j)" by (auto simp: j_def)
  then show ?thesis
    using True encode_hex_nth [OF j] hex_char_ascii [OF b(1)] hex_char_ascii [OF b(2)]
    by (auto simp: is_char_boundary_def is_continuation_def)
qed (simp add: is_char_boundary_def is_continuation_def)

lemma encode_hex_slice:
  assumes "i < length bs"
  shows "str_slice (encode_hex bs) (i * 2) (i * 2 + 2) =
    Inr [hex_char (unat (bs ! i) div 16), hex_char (unat (bs ! i) mod 16)]"
proof -
  let ?h = "encode_hex bs"
  have "take 2 (drop (i * 2) ?h) = [?h ! (2 * i), ?h ! Suc (2 * i)]"
    using assms by (intro nth_equalityI) (auto simp: less_2_cases_iff mult.commute)
  then show ?thesis
    using assms encode_hex_boundary [of "i * 2" bs] encode_hex_boundary [of "i * 2 + 2" bs]
    by (simp add: str_slice_def encode_hex_nth)
qed

lemma decode_hex_from_encode:
  "index + n = length bs \<Longrightarrow> decode_hex_from name (encode_hex bs) index n = Inr (drop index bs)"
proof (induction n arbitrary: index)
  case 0
  then show ?case by simp
next
  case (Suc n)
  have i: "index < length bs" using Suc.prems by simp
  let ?h = "encode_hex bs" and ?b = "unat (bs ! index)"
  have b: "?b div 16 < 16" "?b mod 16 < 16" using unat_less_word [of "bs ! index"] by simp_all
  have "decode_hex_from name ?h (Suc index) n = Inr (drop (Suc index) bs)" using Suc by simp
  then show ?case using parse_hex_pair [OF b] i by (simp add: encode_hex_slice [simplified] Cons_nth_drop_Suc)
qed

lemma decode_hex_encode [codec_laws]: "length bs = n \<Longrightarrow> decode_hex n name (encode_hex bs) = Inr bs"
  using decode_hex_from_encode [of 0 n bs name] by (simp add: decode_hex_def)

section \<open>Packets round-trip\<close>

lemma length_decode_hex_from: "decode_hex_from name value i n = Inr bs \<Longrightarrow> length bs = n"
  by (induction n arbitrary: i bs) (auto simp: result_iffs)

lemma decode_metadata_lengths:
  assumes "decode_metadata m = Inr (nonce, obfs)"
  shows "length nonce = 16" and "length obfs = 32"
  using assms length_decode_hex_from
  by (auto simp: decode_metadata_def decode_hex_def result_iffs split: if_splits)

lemma punch_fill_random_length:
  "good_random fill \<Longrightarrow> punch_fill_random fill n r = (Inr bs, r') \<Longrightarrow> length bs = n"
  by (auto simp: good_random_def punch_fill_random_def result_iffs split: prod.splits)

lemma length_PUNCH_MAGIC [simp]: "length PUNCH_MAGIC = 8"
  by (simp add: PUNCH_MAGIC_def)

lemma length_xor_packet [simp]: "length (xor_packet sha p obfs salt) = length p"
  by (simp add: xor_packet_def)

lemma punch_decode_wire:
  assumes meta: "decode_metadata m = Inr (nonce, obfs)" and salt: "length salt = PUNCH_SALT_LENGTH"
    and pad: "length padding \<le> MAX_PUNCH_PADDING"
  shows "punch_decode sha (salt @ xor_packet sha (PUNCH_MAGIC @ [packet_type_byte kind] @ nonce @ padding) obfs salt) m =
    Inr \<lparr>pp_kind = kind, pp_padding_length = length padding\<rparr>"
proof -
  define plain where "plain = PUNCH_MAGIC @ [packet_type_byte kind] @ nonce @ padding"
  define wire where "wire = salt @ xor_packet sha plain obfs salt"
  have n: "length nonce = 16" using decode_metadata_lengths [OF meta] by simp
  have plain: "length plain = HEADER_LENGTH + length padding" "take 8 plain = PUNCH_MAGIC"
    "plain ! 8 = packet_type_byte kind" "take (HEADER_LENGTH - 9) (drop 9 plain) = nonce"
    using n by (simp_all add: plain_def nth_append)
  have len: "MINIMUM_WIRE_LENGTH \<le> length wire" "length wire \<le> MAXIMUM_WIRE_LENGTH"
    using plain(1) salt pad by (simp_all add: wire_def )
  have parts: "take PUNCH_SALT_LENGTH wire = salt"
    "xor_packet sha (drop PUNCH_SALT_LENGTH wire) obfs salt = plain"
    using salt by (simp_all add: xor_packet_def wire_def)
  have "punch_decode sha wire m = Inr \<lparr>pp_kind = kind, pp_padding_length = length padding\<rparr>"
    using len plain by (cases kind) (simp_all add: punch_decode_def meta Let_def parts)
  then show ?thesis by (simp add: wire_def plain_def)
qed

lemma encode_with_wire:
  assumes fill: "good_random fill" and enc: "encode_with sha fill kind m salt padding_length r = (Inr bs, r')"
    and salt: "length salt = PUNCH_SALT_LENGTH"
  shows "punch_decode sha bs m = Inr \<lparr>pp_kind = kind, pp_padding_length = padding_length\<rparr>"
    and "length bs = MINIMUM_WIRE_LENGTH + padding_length" and "padding_length \<le> MAX_PUNCH_PADDING"
proof -
  obtain nonce obfs padding where small: "padding_length \<le> MAX_PUNCH_PADDING"
    and meta: "decode_metadata m = Inr (nonce, obfs)"
    and pad: "(if padding_length \<noteq> 0 then punch_fill_random fill padding_length else eff_return []) r = (Inr padding, r')"
    and bs: "bs = salt @ xor_packet sha (PUNCH_MAGIC @ [packet_type_byte kind] @ nonce @ padding) obfs salt"
    using enc by (auto simp: encode_with_def eff_iffs split: if_splits)
  have len: "length padding = padding_length"
    using pad punch_fill_random_length [OF fill] by (cases "padding_length = 0") (auto simp: eff_iffs)
  then show "punch_decode sha bs m = Inr \<lparr>pp_kind = kind, pp_padding_length = padding_length\<rparr>"
    using punch_decode_wire [OF meta salt] small bs by simp
  show "length bs = MINIMUM_WIRE_LENGTH + padding_length"
    using len bs salt decode_metadata_lengths [OF meta] by simp
  show "padding_length \<le> MAX_PUNCH_PADDING" by (rule small)
qed

text \<open>The sampling loop returns as soon as one of the draws is below the limit.\<close>

lemma random_padding_length_returns:
  fixes states :: "nat \<Rightarrow> 'r"
  shows "(\<forall>i < k. \<exists>bs. fill (states i) 2 = (Some bs, states (Suc i)) \<and> \<not> (from_be_bytes bs :: u16) < PADDING_LIMIT) \<Longrightarrow>
     fill (states k) 2 = (Some bs, r') \<Longrightarrow> (from_be_bytes bs :: u16) < PADDING_LIMIT \<Longrightarrow>
     random_padding_length fill (states 0) = Some (Inr (unat ((from_be_bytes bs :: u16) mod PADDING_RANGE)), r')"
proof (induction k arbitrary: states)
  case 0
  then show ?case by (subst random_padding_length.simps) (simp add: punch_fill_random_def Let_def)
next
  case (Suc k)
  obtain b0 where b0: "fill (states 0) 2 = (Some b0, states 1)" "\<not> (from_be_bytes b0 :: u16) < PADDING_LIMIT"
    using Suc.prems(1) by force
  have "random_padding_length fill (states 1) = Some (Inr (unat ((from_be_bytes bs :: u16) mod PADDING_RANGE)), r')"
    using Suc.IH [of "\<lambda>i. states (Suc i)"] Suc.prems by simp
  then show ?case using b0 by (subst random_padding_length.simps) (simp add: punch_fill_random_def Let_def)
qed

section \<open>Candidates\<close>

lemma add_ports_props:
  assumes "sorted candidates" and "distinct candidates" and "added < SYMMETRIC_MAX_PORTS_PER_HOST"
  shows "sorted (add_ports ip ps added candidates) \<and> distinct (add_ports ip ps added candidates) \<and>
     set candidates \<subseteq> set (add_ports ip ps added candidates) \<and>
     set (add_ports ip ps added candidates) \<subseteq> set candidates \<union> (\<lambda>p. SocketAddr ip (word_of_nat p)) ` set ps \<and>
     length (add_ports ip ps added candidates) + added \<le> length candidates + SYMMETRIC_MAX_PORTS_PER_HOST"
  using assms
proof (induction ip ps added candidates rule: add_ports.induct)
  case (1 ip added candidates)
  then show ?case by simp
next
  case (2 ip p ps added candidates)
  let ?a = "SocketAddr ip (word_of_nat p)"
  show ?case
  proof (cases "?a \<in> set candidates")
    case True
    then show ?thesis using 2(1) [OF refl True] 2(3-5) by (auto simp: Let_def)
  next
    case False
    have s: "sorted (bt_insert ?a candidates)" "distinct (bt_insert ?a candidates)"
      using sorted_bt_insert 2(3,4) by blast+
    have len: "length (bt_insert ?a candidates) = Suc (length candidates)" using False by (simp add: bt_insert_def)
    show ?thesis
    proof (cases "added + 1 = SYMMETRIC_MAX_PORTS_PER_HOST")
      case True
      then show ?thesis using False s len by (auto simp: Let_def)
    next
      case more: False
      then have "added + 1 < SYMMETRIC_MAX_PORTS_PER_HOST" using 2(5) by simp
      then show ?thesis using 2(2) [OF refl False more s] False more len by (auto simp: Let_def)
    qed
  qed
qed

text \<open>Every host in the table is an IPv4 address whose listed ports are those of candidates.\<close>

definition ports_from :: "socket_addr set \<Rightarrow> (ip_addr, u16 list) hmap \<Rightarrow> bool" where
  "ports_from A m \<longleftrightarrow> hm_ok m \<and> (\<forall>ip ps. hm_get m ip = Some ps \<longrightarrow> is_ipv4 ip \<and> ps \<noteq> [] \<and> (\<forall>p \<in> set ps. SocketAddr ip p \<in> A))"

lemma ports_from_push: "ports_from A m \<Longrightarrow> a \<in> A \<Longrightarrow> ports_from A (push_port m a)"
  by (cases "hm_get m (sa_ip a)") (auto simp: ports_from_def push_port_def hm_laws split: if_splits)

lemma ports_from_foldl: "ports_from A m \<Longrightarrow> set as \<subseteq> A \<Longrightarrow> ports_from A (foldl push_port m as)"
  by (induction as arbitrary: m) (auto simp: ports_from_push)

definition near_peer :: "socket_addr set \<Rightarrow> socket_addr \<Rightarrow> bool" where
  "near_peer A a \<longleftrightarrow> (\<exists>p \<in> A. \<exists>q \<in> A. is_ipv4 (sa_ip a) \<and> sa_ip p = sa_ip a \<and> sa_ip q = sa_ip a \<and>
     unat (sa_port p) \<le> unat (sa_port a) \<and> unat (sa_port a) \<le> unat (sa_port q) + 4)"

definition host_count :: "ip_addr \<Rightarrow> socket_addr list \<Rightarrow> nat" where
  "host_count ip as = card {a \<in> set as. sa_ip a = ip}"

definition extends_host :: "socket_addr set \<Rightarrow> ip_addr \<Rightarrow> socket_addr list \<Rightarrow> socket_addr list \<Rightarrow> bool" where
  "extends_host A ip c c' \<longleftrightarrow> sorted c' \<and> distinct c' \<and> set c \<subseteq> set c' \<and>
     (\<forall>a \<in> set c' - set c. sa_ip a = ip \<and> near_peer A a) \<and>
     host_count ip c' \<le> host_count ip c + SYMMETRIC_MAX_PORTS_PER_HOST \<and>
     (\<forall>other. other \<noteq> ip \<longrightarrow> host_count other c' = host_count other c)"

lemma extend_host_props:
  assumes c: "sorted c" "distinct c" and ip: "is_ipv4 ip" and ps: "\<forall>p \<in> set ps. SocketAddr ip p \<in> A"
  shows "extends_host A ip c (extend_host (ip, ps) c)"
proof -
  define ports where "ports = remdups_adj (sort ps)"
  show ?thesis
  proof (cases "predictable_ports ports")
    case False
    then show ?thesis using c by (simp add: extend_host_def ports_def [symmetric] Let_def extends_host_def)
  next
    case True
    then have ne: "ports \<noteq> []" by (auto simp: predictable_ports_def)
    have set_ports: "set ports = set ps" by (simp add: ports_def)
    let ?stop = "saturating_add (last ports) SYMMETRIC_EXTRA_PORTS"
    define c' where "c' = add_ports ip [unat (hd ports)..<unat ?stop + 1] 0 c"
    have eq: "extend_host (ip, ps) c = c'"
      using True by (simp add: extend_host_def ports_def [symmetric] Let_def c'_def)
    have props: "sorted c' \<and> distinct c' \<and> set c \<subseteq> set c' \<and>
        set c' \<subseteq> set c \<union> (\<lambda>p. SocketAddr ip (word_of_nat p)) ` {unat (hd ports)..<unat ?stop + 1} \<and>
        length c' \<le> length c + SYMMETRIC_MAX_PORTS_PER_HOST"
      using add_ports_props [OF c, of 0 ip "[unat (hd ports)..<unat ?stop + 1]"]
      by (simp add: c'_def del: upt_Suc)
    have new: "sa_ip a = ip \<and> near_peer A a" if "a \<in> set c' - set c" for a
    proof -
      have "a \<in> (\<lambda>p. SocketAddr ip (word_of_nat p)) ` {unat (hd ports)..<unat ?stop + 1}" using that props by blast
      then obtain p where p: "a = SocketAddr ip (word_of_nat p)" "unat (hd ports) \<le> p" "p \<le> unat ?stop"
        by (auto simp: less_Suc_eq_le)
      have e: "unat ?stop \<le> unat (last ports) + 4" "unat ?stop < 65536"
        using unat_less_word [of ?stop] by (simp_all add: unat_saturating_add )
      then have "unat (word_of_nat p :: u16) = p" using p by (simp add: unat_of_nat)
      moreover have "hd ports \<in> set ps" "last ports \<in> set ps" using ne set_ports by (metis hd_in_set, metis last_in_set)
      then have "SocketAddr ip (hd ports) \<in> A" "SocketAddr ip (last ports) \<in> A" using ps by blast+
      moreover have "unat (hd ports) \<le> p" "p \<le> unat (last ports) + 4" using p e by simp_all
      ultimately show ?thesis
        unfolding near_peer_def p(1) using ip
        by (intro conjI bexI [of _ "SocketAddr ip (hd ports)"] bexI [of _ "SocketAddr ip (last ports)"]) simp_all
    qed
    have other: "host_count o' c' = host_count o' c" if "o' \<noteq> ip" for o'
    proof -
      have "{a \<in> set c'. sa_ip a = o'} = {a \<in> set c. sa_ip a = o'}" using new props that by blast
      then show ?thesis by (simp add: host_count_def)
    qed
    have "card (set c' - set c) \<le> SYMMETRIC_MAX_PORTS_PER_HOST"
      using props c by (simp add: card_Diff_subset distinct_card le_diff_conv add.commute)
    moreover have "{a \<in> set c'. sa_ip a = ip} \<subseteq> {a \<in> set c. sa_ip a = ip} \<union> (set c' - set c)" by blast
    then have "card {a \<in> set c'. sa_ip a = ip} \<le> card ({a \<in> set c. sa_ip a = ip} \<union> (set c' - set c))"
      by (intro card_mono) simp_all
    then have "host_count ip c' \<le> host_count ip c + card (set c' - set c)"
      unfolding host_count_def using card_Un_le le_trans by blast
    ultimately show ?thesis using props new other unfolding eq extends_host_def by auto
  qed
qed

lemma extend_hosts_props:
  assumes "sorted c" and "distinct c" and "distinct (map fst hosts)"
    and "\<forall>(ip, ps) \<in> set hosts. is_ipv4 ip \<and> (\<forall>p \<in> set ps. SocketAddr ip p \<in> A)"
  shows "let c' = foldl (\<lambda>c host. extend_host host c) c hosts in
     sorted c' \<and> distinct c' \<and> set c \<subseteq> set c' \<and> (\<forall>a \<in> set c' - set c. near_peer A a) \<and>
     (\<forall>ip. host_count ip c' \<le> host_count ip c + (if ip \<in> fst ` set hosts then SYMMETRIC_MAX_PORTS_PER_HOST else 0))"
  using assms
proof (induction hosts arbitrary: c)
  case Nil
  then show ?case by simp
next
  case (Cons host hosts)
  obtain ip ps where host: "host = (ip, ps)" by (cases host)
  let ?c = "extend_host host c"
  have ext: "extends_host A ip c ?c"
    unfolding host using Cons.prems host by (intro extend_host_props) auto
  let ?c' = "foldl (\<lambda>c host. extend_host host c) ?c hosts"
  have IH: "sorted ?c' \<and> distinct ?c' \<and> set ?c \<subseteq> set ?c' \<and> (\<forall>a \<in> set ?c' - set ?c. near_peer A a) \<and>
     (\<forall>ip. host_count ip ?c' \<le> host_count ip ?c + (if ip \<in> fst ` set hosts then SYMMETRIC_MAX_PORTS_PER_HOST else 0))"
    using Cons.IH [of ?c] ext Cons.prems by (simp add: extends_host_def Let_def)
  then have hosts: "host_count i ?c' \<le> host_count i ?c + (if i \<in> fst ` set hosts then SYMMETRIC_MAX_PORTS_PER_HOST else 0)" for i
    by blast
  have "host_count i ?c' \<le> host_count i c + (if i \<in> fst ` set (host # hosts) then SYMMETRIC_MAX_PORTS_PER_HOST else 0)" for i
  proof (cases "i = ip")
    case True
    then have "i \<notin> fst ` set hosts" using Cons.prems(3) host by auto
    then have "host_count i ?c' \<le> host_count i ?c" using hosts [of i] by simp
    then show ?thesis using ext True host by (simp add: extends_host_def)
  next
    case False
    then have "host_count i ?c = host_count i c" using ext by (simp add: extends_host_def)
    then show ?thesis using hosts [of i] False host by simp
  qed
  then show ?case using IH ext by (auto simp: extends_host_def Let_def)
qed

lemma punch_encode_decodes:
  assumes "good_random fill" and "punch_encode sha fill kind m r = Some (Inr wire, r')"
  shows "\<exists>n \<le> MAX_PUNCH_PADDING. punch_decode sha wire m = Inr \<lparr>pp_kind = kind, pp_padding_length = n\<rparr> \<and>
     length wire = MINIMUM_WIRE_LENGTH + n"
proof -
  obtain n r1 salt r2 where salt: "punch_fill_random fill PUNCH_SALT_LENGTH r1 = (Inr salt, r2)"
    and enc: "encode_with sha fill kind m salt n r2 = (Inr wire, r')"
  proof (cases "random_padding_length fill r")
    case None
    then show ?thesis using assms(2) by (simp add: punch_encode_def)
  next
    case (Some p)
    obtain res r1 where p: "p = (res, r1)" by force
    show ?thesis using assms(2) Some p that by (cases res) (auto simp: punch_encode_def eff_bind_eq)
  qed
  show ?thesis
    using encode_with_wire [OF assms(1) enc punch_fill_random_length [OF assms(1) salt]] by blast
qed

section \<open>Properties\<close>

definition counting_random :: "nat random_source" where
  "counting_random r n = (Some (replicate n (word_of_nat r)), r + 1)"

definition sample_metadata :: punch_metadata where
  "sample_metadata = \<lparr>pm_nonce = replicate 32 (CHR ''a''), pm_obfs = replicate 64 (CHR ''0'')\<rparr>"

lemma padding_zero:
  "(from_be_bytes [0, 0] :: u16) < PADDING_LIMIT" "unat ((from_be_bytes [0, 0] :: u16) mod PADDING_RANGE) = 0"
  by code_simp+

lemma padding_retry:
  "\<not> (from_be_bytes [0xff, 1] :: u16) < PADDING_LIMIT" "(from_be_bytes [0, 1] :: u16) < PADDING_LIMIT"
  by code_simp+

lemma sample_punch_encode:
  "\<exists>wire. punch_encode (\<lambda>_. replicate 32 9) counting_random kind sample_metadata 0 = Some (Inr wire, 2)"
proof -
  have pad: "random_padding_length counting_random 0 = Some (Inr 0, 1)"
    using random_padding_length_returns [of 0 counting_random "\<lambda>_. 0" "[0, 0]" 1] padding_zero
    by (simp add: counting_random_def numeral_2_eq_2)
  have "\<exists>nonce obfs. decode_metadata sample_metadata = Inr (nonce, obfs)"
    by (rule exI [of _ "replicate 16 0xaa"], rule exI [of _ "replicate 32 0"]) code_simp
  then show ?thesis
    by (auto simp: punch_encode_def pad eff_bind_def eff_lift_def eff_return_def encode_with_def punch_fill_random_def
        counting_random_def)
qed

lemma good_counting_random: "good_random counting_random"
  by (auto simp: good_random_def counting_random_def)

text \<open>
  C35: The rejection sampling of the padding length ends, with the value of the first draw below the
  limit, as soon as the random source yields such a draw.
\<close>

theorem punch_padding_returns:
  assumes "\<forall>i < k. \<exists>bs. fill (states i) 2 = (Some bs, states (Suc i)) \<and> \<not> (from_be_bytes bs :: u16) < PADDING_LIMIT"
    and "fill (states k) 2 = (Some bs, r')" and "(from_be_bytes bs :: u16) < PADDING_LIMIT"
  shows "random_padding_length fill (states 0) = Some (Inr (unat ((from_be_bytes bs :: u16) mod PADDING_RANGE)), r')"
  using assms by (rule random_padding_length_returns [where states = states and k = k and fill = fill])

theorem punch_padding_returns_witness:
  "random_padding_length (\<lambda>r n. (Some [if r = 0 then 0xff else 0, 1], r + 1)) 0 =
     Some (Inr (unat ((from_be_bytes [0, 1] :: u16) mod PADDING_RANGE)), 2 :: nat)"
  using punch_padding_returns [of 1 "\<lambda>r n. (Some [if r = 0 then 0xff else 0, 1], r + 1)" "\<lambda>i. i" "[0, 1]" 2]
  by (simp add: padding_retry numeral_2_eq_2)


text \<open>
  The candidate addresses are sorted and distinct and contain every usable peer address. Every
  other candidate is an IPv4 address of a usable peer whose port is not below the peer's lowest and at
  most four above its highest port, and no host gets more than 32 extra ports.
\<close>

lemma punch_candidates:
  "let families = punch_families_new local_addresses family;
       peers = {a \<in> set peer_addresses. sa_port a \<noteq> 0 \<and> families_allow families (sa_ip a)};
       candidates = candidate_punch_addresses local_addresses peer_addresses family in
   sorted candidates \<and> distinct candidates \<and> peers \<subseteq> set candidates \<and>
   set candidates \<subseteq> peers \<union> Collect (near_peer peers) \<and>
   host_count ip candidates \<le> card {a \<in> peers. sa_ip a = ip} + SYMMETRIC_MAX_PORTS_PER_HOST"
proof -
  define families where "families = punch_families_new local_addresses family"
  define peers where "peers = {a \<in> set peer_addresses. sa_port a \<noteq> 0 \<and> families_allow families (sa_ip a)}"
  define c where "c = bt_collect (filter (\<lambda>a. sa_port a \<noteq> 0 \<and> families_allow families (sa_ip a)) peer_addresses)"
  define hosts where "hosts = foldl push_port [] c"
  have set_c: "set c = peers" by (auto simp: c_def peers_def)
  have pf: "ports_from peers hosts"
    unfolding hosts_def by (rule ports_from_foldl) (simp_all add: ports_from_def set_c)
  have "distinct (map fst hosts)" using pf by (simp add: ports_from_def hm_ok_def)
  moreover have "\<forall>(i, ps) \<in> set hosts. is_ipv4 i \<and> (\<forall>p \<in> set ps. SocketAddr i p \<in> peers)"
    using pf hm_mem_get [of hosts] by (fastforce simp: ports_from_def)
  ultimately have props: "let c' = foldl (\<lambda>c host. extend_host host c) c hosts in
     sorted c' \<and> distinct c' \<and> set c \<subseteq> set c' \<and> (\<forall>a \<in> set c' - set c. near_peer peers a) \<and>
     (\<forall>ip. host_count ip c' \<le> host_count ip c + (if ip \<in> fst ` set hosts then SYMMETRIC_MAX_PORTS_PER_HOST else 0))"
    by (intro extend_hosts_props) (simp_all add: c_def)
  have cand: "candidate_punch_addresses local_addresses peer_addresses family =
      foldl (\<lambda>c host. extend_host host c) c hosts"
    by (simp add: candidate_punch_addresses_def Let_def families_def c_def hosts_def)
  have count: "host_count ip c = card {a \<in> peers. sa_ip a = ip}" by (simp add: host_count_def set_c)
  have "host_count ip (foldl (\<lambda>c host. extend_host host c) c hosts) \<le>
      card {a \<in> peers. sa_ip a = ip} + (if ip \<in> fst ` set hosts then SYMMETRIC_MAX_PORTS_PER_HOST else 0)"
    using props unfolding Let_def count [symmetric] by blast
  then have "host_count ip (foldl (\<lambda>c host. extend_host host c) c hosts) \<le>
      card {a \<in> peers. sa_ip a = ip} + SYMMETRIC_MAX_PORTS_PER_HOST"
    by (rule order_trans) simp
  then show ?thesis
    unfolding Let_def families_def [symmetric] peers_def [symmetric] cand
    using props unfolding Let_def set_c by blast
qed

end
