(* ===== verification/Rust_Text.thy ===== *)
theory Rust_Text
  imports Net "HOL-Library.Code_Target_Nat"
begin

text \<open>
  Further operations of the Rust standard library on strings that the configuration, access-control
  and proxy components use: lines, fields, numbers of eight and thirty-two bits, character classes.
\<close>

section \<open>Definitions\<close>

text \<open>
  \<open>CliError\<close> of \<open>hysteria/src/lib.rs\<close>: a message, kept as its format string and the values put into it.
  The text of errors of other libraries is not kept.
\<close>

datatype cli_error = CliError string "string list"

abbreviation cli_error :: "string \<Rightarrow> cli_error" where
  "cli_error message \<equiv> CliError message []"

definition parse_u8 :: "string \<Rightarrow> u8 option" where
  "parse_u8 s = map_option word_of_nat (parse_uint 10 (2 ^ 8 - 1) s)"

text \<open>\<open>trim_end_matches\<close> and \<open>trim_start_matches\<close> with a character, \<open>find\<close> of a character, \<open>contains\<close> of a string.\<close>

definition trim_end_matches :: "char \<Rightarrow> string \<Rightarrow> string" where
  "trim_end_matches c s = rev (dropWhile (\<lambda>x. x = c) (rev s))"

definition find_char :: "char \<Rightarrow> string \<Rightarrow> nat option" where
  "find_char c s = (if c \<in> set s then Some (length (takeWhile (\<lambda>x. x \<noteq> c) s)) else None)"

fun contains_str :: "string \<Rightarrow> string \<Rightarrow> bool" where
  "contains_str [] p = (p = [])"
| "contains_str (c # s) p = (starts_with (c # s) p \<or> contains_str s p)"

text \<open>
  \<open>str::lines\<close>: the pieces between line feeds, without an empty last piece and without one carriage
  return at the end of each piece that a line feed ended.
\<close>

definition strip_cr :: "string \<Rightarrow> string" where
  "strip_cr l = unwrap_or l (strip_suffix l [CHR 0x0D])"

definition str_lines :: "string \<Rightarrow> string list" where
  "str_lines s =
     (let pieces = split_char (CHR 0x0A) s; l = last pieces in
      map strip_cr (butlast pieces) @ (if l = [] then [] else [l]))"

definition is_ascii_digit :: "char \<Rightarrow> bool" where
  "is_ascii_digit c = (let n = of_char c :: nat in 48 \<le> n \<and> n \<le> 57)"

definition is_ascii_alphabetic :: "char \<Rightarrow> bool" where
  "is_ascii_alphabetic c = (let n = of_char c :: nat in 65 \<le> n \<and> n \<le> 90 \<or> 97 \<le> n \<and> n \<le> 122)"

definition is_ascii_alphanumeric :: "char \<Rightarrow> bool" where
  "is_ascii_alphanumeric c = (is_ascii_digit c \<or> is_ascii_alphabetic c)"

definition is_ascii_hexdigit :: "char \<Rightarrow> bool" where
  "is_ascii_hexdigit c = (to_digit 16 c \<noteq> None)"

definition is_ascii_space :: "char \<Rightarrow> bool" where
  "is_ascii_space c = (of_char c \<in> {9, 10, 12, 13, 32 :: nat})"

fun fields_from :: "string \<Rightarrow> string \<Rightarrow> string list" where
  "fields_from acc [] = (if acc = [] then [] else [rev acc])"
| "fields_from acc (c # s) =
     (if is_ascii_space c then (if acc = [] then [] else [rev acc]) @ fields_from [] s
      else fields_from (c # acc) s)"

definition split_ascii_whitespace :: "string \<Rightarrow> string list" where
  "split_ascii_whitespace s = fields_from [] s"

text \<open>\<open>split_whitespace\<close>: the pieces between the characters with the property \<open>White_Space\<close>.\<close>

function whitespace_fields :: "string \<Rightarrow> string \<Rightarrow> string list" where
  "whitespace_fields acc s =
     (case s of
        [] \<Rightarrow> if acc = [] then [] else [rev acc]
      | c # r \<Rightarrow>
          (case find (\<lambda>w. w \<noteq> [] \<and> starts_with s w) whitespace_seqs of
             None \<Rightarrow> whitespace_fields (c # acc) r
           | Some w \<Rightarrow> (if acc = [] then [] else [rev acc]) @ whitespace_fields [] (drop (length w) s)))"
  by pat_completeness auto
termination
  by (relation "measure (\<lambda>(acc, s). length s)") (auto simp: find_Some_iff)

declare whitespace_fields.simps [simp del]

definition split_whitespace :: "string \<Rightarrow> string list" where
  "split_whitespace s = whitespace_fields [] s"

text \<open>\<open>get\<close> of a slice and of a range of a slice: \<open>None\<close> outside the bounds.\<close>

definition get_at :: "'a list \<Rightarrow> nat \<Rightarrow> 'a option" where
  "get_at xs i = (if i < length xs then Some (xs ! i) else None)"

definition get_range :: "'a list \<Rightarrow> nat \<Rightarrow> nat \<Rightarrow> 'a list option" where
  "get_range xs i j = (if i \<le> j \<and> j \<le> length xs then Some (take (j - i) (drop i xs)) else None)"

text \<open>A loop that stops at the first error: \<open>for x in xs { f(x)?; }\<close> and \<open>iter().map(f).collect()\<close>.\<close>

fun try_for_each :: "('a \<Rightarrow> 'e + unit) \<Rightarrow> 'a list \<Rightarrow> 'e + unit" where
  "try_for_each f [] = Inr ()"
| "try_for_each f (x # xs) = and_then (f x) (\<lambda>_. try_for_each f xs)"

fun try_map :: "('a \<Rightarrow> 'e + 'b) \<Rightarrow> 'a list \<Rightarrow> 'e + 'b list" where
  "try_map f [] = Inr []"
| "try_map f (x # xs) = and_then (f x) (\<lambda>y. and_then (try_map f xs) (\<lambda>ys. Inr (y # ys)))"

definition ensure :: "bool \<Rightarrow> 'e \<Rightarrow> 'e + unit" where
  "ensure b e = (if b then Inr () else Inl e)"

section \<open>Lemmas\<close>

lemma whitespace_seqs_code [code]:
  "whitespace_seqs =
     [[CHR 0x09], [CHR 0x0A], [CHR 0x0B], [CHR 0x0C], [CHR 0x0D], [CHR 0x20], [CHR 0xC2, CHR 0x85], [CHR
      0xC2, CHR 0xA0], [CHR 0xE1, CHR 0x9A, CHR 0x80], [CHR 0xE2, CHR 0x80, CHR 0xA8], [CHR 0xE2, CHR
      0x80, CHR 0xA9], [CHR 0xE2, CHR 0x80, CHR 0xAF], [CHR 0xE2, CHR 0x81, CHR 0x9F], [CHR 0xE3, CHR
      0x80, CHR 0x80], [CHR 0xE2, CHR 0x80, CHR 0x80], [CHR 0xE2, CHR 0x80, CHR 0x81], [CHR 0xE2, CHR
      0x80, CHR 0x82], [CHR 0xE2, CHR 0x80, CHR 0x83], [CHR 0xE2, CHR 0x80, CHR 0x84], [CHR 0xE2, CHR
      0x80, CHR 0x85], [CHR 0xE2, CHR 0x80, CHR 0x86], [CHR 0xE2, CHR 0x80, CHR 0x87], [CHR 0xE2, CHR
      0x80, CHR 0x88], [CHR 0xE2, CHR 0x80, CHR 0x89], [CHR 0xE2, CHR 0x80, CHR 0x8A]]"
  by code_simp

lemma find_whitespace_space: "find (\<lambda>w. w \<noteq> [] \<and> starts_with (CHR '' '' # s) w) whitespace_seqs = Some '' ''"
  by (simp add: whitespace_seqs_code starts_with_def)

lemma trim_space: "trim (CHR '' '' # s) = trim s"
proof -
  have "trim_start (CHR '' '' # s) = trim_start s"
    unfolding trim_start_def by (subst trim_start_by.simps) (simp add: find_whitespace_space)
  then show ?thesis by (simp add: trim_def)
qed

lemma map_err_eq_Inl: "map_err f r = Inl e \<longleftrightarrow> (\<exists>e'. r = Inl e' \<and> e = f e')"
  by (cases r) auto

lemma parse_u8_le: "parse_u8 s = Some w \<Longrightarrow> unat w \<le> 255"
  using unat_le_max [of w] by simp

lemma get_at_Some [simp]: "get_at xs i = Some x \<longleftrightarrow> i < length xs \<and> x = xs ! i"
  by (auto simp: get_at_def)

lemma get_at_ok [simp]: "i < length xs \<Longrightarrow> get_at xs i = Some (xs ! i)"
  by (simp add: get_at_def)

lemma get_range_Some:
  "get_range xs i j = Some ys \<longleftrightarrow> i \<le> j \<and> j \<le> length xs \<and> ys = take (j - i) (drop i xs)"
  by (auto simp: get_range_def)

lemma ensure_Inr [simp]: "ensure b e = Inr u \<longleftrightarrow> b"
  by (simp add: ensure_def)

lemma ensure_Inl: "ensure b e = Inl e' \<longleftrightarrow> \<not> b \<and> e' = e"
  by (auto simp: ensure_def)

lemma try_for_each_ok: "try_for_each f xs = Inr u \<longleftrightarrow> (\<forall>x \<in> set xs. f x = Inr ())"
  by (induction xs) (auto simp: and_then_eq_Inr)

lemma try_for_each_Inl: "try_for_each f xs = Inl e \<Longrightarrow> \<exists>x \<in> set xs. f x = Inl e"
  by (induction xs) (auto simp: and_then_eq_Inl)

lemma try_for_each_not: "(\<And>x. x \<in> set xs \<Longrightarrow> f x \<noteq> Inl e) \<Longrightarrow> try_for_each f xs \<noteq> Inl e"
  using try_for_each_Inl by fast

lemma try_map_ok: "try_map f xs = Inr ys \<longleftrightarrow> list_all2 (\<lambda>x y. f x = Inr y) xs ys"
proof (induction xs arbitrary: ys)
  case (Cons x xs)
  then show ?case by (cases ys) (auto simp: and_then_eq_Inr)
qed auto

lemma try_map_Inl: "try_map f xs = Inl e \<Longrightarrow> \<exists>x \<in> set xs. f x = Inl e"
  by (induction xs) (auto simp: and_then_eq_Inl)

lemma try_map_ok_mem: "try_map f xs = Inr ys \<Longrightarrow> y \<in> set ys \<Longrightarrow> \<exists>x \<in> set xs. f x = Inr y"
  by (induction xs arbitrary: ys) (auto simp: and_then_eq_Inr)

lemma find_char_Some: "find_char c s = Some i \<Longrightarrow> i < length s \<and> s ! i = c"
proof -
  assume "find_char c s = Some i"
  then have c: "c \<in> set s" and i: "i = length (takeWhile (\<lambda>x. x \<noteq> c) s)"
    by (auto simp: find_char_def split: if_splits)
  have "length (takeWhile (\<lambda>x. x \<noteq> c) s) < length s"
    using c by (metis (mono_tags) length_takeWhile_le nat_less_le takeWhile_eq_all_conv takeWhile_eq_take take_all_iff)
  then show ?thesis using i nth_length_takeWhile by blast
qed

lemma ends_with_iff: "ends_with s p \<longleftrightarrow> (\<exists>t. s = t @ p)"
proof -
  have "ends_with s p \<longleftrightarrow> (\<exists>t. rev s = rev p @ t)" by (simp add: ends_with_def starts_with_iff)
  also have "\<dots> \<longleftrightarrow> (\<exists>t. s = t @ p)" by (metis rev_append rev_rev_ident)
  finally show ?thesis .
qed

lemma contains_str_iff: "contains_str s p \<longleftrightarrow> (\<exists>a b. s = a @ p @ b)"
proof (induction s)
  case (Cons c s)
  have "(\<exists>a b. c # s = a @ p @ b) \<longleftrightarrow> (\<exists>b. c # s = p @ b) \<or> (\<exists>a b. s = a @ p @ b)"
    by (metis append_Cons append_Nil list.exhaust list.inject)
  then show ?case using Cons by (auto simp: starts_with_iff)
qed simp

section \<open>Pieces of strings\<close>

lemma split_char_once: "split_once s c = Some (a, b) \<Longrightarrow> split_char c s = a # split_char c b"
  by (subst split_char.simps) (auto simp: split_once_def split: if_splits)

lemma split_char_none: "split_once s c = None \<Longrightarrow> split_char c s = [s]"
  by (subst split_char.simps) (auto simp: split_once_def split: if_splits)

lemma split_char_not_Nil [simp]: "split_char c s \<noteq> []"
  by (subst split_char.simps) simp

lemma join_with_Cons: "xs \<noteq> [] \<Longrightarrow> join_with sep (x # xs) = x @ sep @ join_with sep xs"
  by (cases xs) simp_all

text \<open>Properties of the pieces of a string, by induction on the separators.\<close>

lemma split_char_induct [case_names last step]:
  assumes "\<And>s. split_once s c = None \<Longrightarrow> P s"
    and "\<And>s a b. split_once s c = Some (a, b) \<Longrightarrow> P b \<Longrightarrow> P s"
  shows "P s"
proof (induction "length s" arbitrary: s rule: less_induct)
  case less
  show ?case
  proof (cases "split_once s c")
    case (Some p)
    then obtain a b where ab: "split_once s c = Some (a, b)" by (cases p) auto
    have "length b < length s" using split_once_eq(1) [OF ab] by simp
    then show ?thesis using assms(2) [OF ab] less by blast
  qed (rule assms(1))
qed

lemma join_split: "join_with [c] (split_char c s) = s"
proof (induction s rule: split_char_induct [of c])
  case (step s a b)
  then show ?case using split_once_eq(1) [OF step(1)] by (simp add: split_char_once join_with_Cons)
qed (simp add: split_char_none)

lemma split_char_chars: "l \<in> set (split_char c s) \<Longrightarrow> set l \<subseteq> set s"
proof (induction s rule: split_char_induct [of c])
  case (step s a b)
  then show ?case using split_once_eq(1) [OF step(1)] by (auto simp: split_char_once)
qed (simp add: split_char_none)

section \<open>Ranges of slices\<close>

lemma get_range_middle: "xs = pre @ ys @ post \<Longrightarrow> i = length pre \<Longrightarrow> j = i + length ys \<Longrightarrow> get_range xs i j = Some ys"
  by (simp add: get_range_def)

lemma get_at_middle: "xs = pre @ y # post \<Longrightarrow> i = length pre \<Longrightarrow> get_at xs i = Some y"
  by (simp add: get_at_def)

lemma uint_string_digits: "list_all is_ascii_digit (uint_string w)"
proof -
  have "is_ascii_digit (digit_char d)" if "d < 10" for d using that by (simp add: is_ascii_digit_def digit_char_def)
  then have "list_all is_ascii_digit (nat_string n)" for n
    by (induction n rule: nat_string.induct) (subst nat_string.simps, auto)
  then show ?thesis by (simp add: uint_string_def)
qed

lemma split_char_join:
  "xs \<noteq> [] \<Longrightarrow> \<forall>x \<in> set xs. c \<notin> set x \<Longrightarrow> split_char c (join_with [c] xs) = xs"
proof (induction xs)
  case (Cons x xs)
  show ?case
  proof (cases "xs = []")
    case True
    then show ?thesis using Cons.prems by (subst split_char.simps) simp
  next
    case False
    have "split_once (x @ c # join_with [c] xs) c = Some (x, join_with [c] xs)"
      using Cons.prems by (intro split_once_append) simp
    then show ?thesis using Cons False by (simp add: join_with_Cons split_char_once)
  qed
qed simp

end
