(* ===== verification/Acl.thy ===== *)
theory Acl
  imports Rust_Text Transport_Error
begin

unbundle bit_operations_syntax

text \<open>
  Access-control rules of the server: the matchers of the GeoIP and GeoSite databases
  (\<open>hysteria/src/geo.rs\<close>) and the rule language with its parser, validation, matching and
  routing (\<open>hysteria/src/outbound.rs\<close>). The download and the protocol-buffer decoding of the
  databases, regular expressions, the conversion of host names to Unicode, the parser of authorities
  and the resolver are parameters. Arithmetic wraps around, as in release builds.
\<close>

section \<open>GeoIP and GeoSite databases\<close>

record geo_cidr =
  gc_ip :: bytes
  gc_prefix :: u32

record geo_ip =
  gi_cidr :: "geo_cidr list"
  gi_inverse_match :: bool

record site_domain =
  sd_kind :: int
  sd_value :: string
  sd_attribute :: "string list"

record geo_databases =
  gd_ip :: "(string, geo_ip) hmap option"
  gd_site :: "(string, site_domain list) hmap option"

record geo_ip_matcher =
  gm_networks :: "(ip_addr \<times> u8) list"
  gm_inverse :: bool

record geo_domain =
  dom_kind :: int
  dom_value :: string
  dom_regex :: "string option"
  dom_attributes :: "string list"

record geo_site_matcher =
  gs_domains :: "geo_domain list"
  gs_required :: "string list"

definition checked_shl_ones :: "nat \<Rightarrow> nat \<Rightarrow> 'a::len word" where
  "checked_shl_ones w n = (if n < w then push_bit n (- 1) else 0)"

fun geo_cidr_contains :: "ip_addr \<Rightarrow> u8 \<Rightarrow> ip_addr \<Rightarrow> bool" where
  "geo_cidr_contains (V4 network) prefix (V4 candidate) =
     (prefix \<le> 32 \<and>
      (let bits = checked_shl_ones 32 (unat (32 - prefix)) in network AND bits = candidate AND bits))"
| "geo_cidr_contains (V6 network) prefix (V6 candidate) =
     (prefix \<le> 128 \<and>
      (let bits = checked_shl_ones 128 (unat (128 - prefix)) in network AND bits = candidate AND bits))"
| "geo_cidr_contains _ _ _ = False"

definition geo_ip_matches :: "geo_ip_matcher \<Rightarrow> ip_addr list \<Rightarrow> bool" where
  "geo_ip_matches m ips =
     ((list_ex (\<lambda>candidate. list_ex (\<lambda>(network, prefix). geo_cidr_contains network prefix candidate)
         (gm_networks m)) ips) \<noteq> gm_inverse m)"

definition domain_matches :: "(string \<Rightarrow> string \<Rightarrow> bool) \<Rightarrow> string list \<Rightarrow> string \<Rightarrow> geo_domain \<Rightarrow> bool" where
  "domain_matches is_match required host d =
     (list_all (\<lambda>attr. attr \<in> set (dom_attributes d)) required \<and>
      (if dom_kind d = 0 then contains_str host (dom_value d)
       else if dom_kind d = 1 then (case dom_regex d of None \<Rightarrow> False | Some regex \<Rightarrow> is_match regex host)
       else if dom_kind d = 2 then host = dom_value d \<or> ends_with host (CHR ''.'' # dom_value d)
       else if dom_kind d = 3 then host = dom_value d
       else False))"

definition geo_site_matches :: "(string \<Rightarrow> string \<Rightarrow> bool) \<Rightarrow> geo_site_matcher \<Rightarrow> string \<Rightarrow> bool" where
  "geo_site_matches is_match m host = list_ex (domain_matches is_match (gs_required m) host) (gs_domains m)"

definition network_of :: "geo_cidr \<Rightarrow> cli_error + (ip_addr \<times> u8)" where
  "network_of c =
     and_then (if length (gc_ip c) = 4 then Inr (V4 (from_be_bytes (gc_ip c)))
               else if length (gc_ip c) = 16 then Inr (V6 (from_be_bytes (gc_ip c)))
               else Inl (cli_error ''invalid GeoIP address length'')) (\<lambda>ip.
     and_then (ok_or (cli_error ''invalid GeoIP prefix'') (try_from_word (gc_prefix c))) (\<lambda>prefix.
     Inr (ip, prefix)))"

definition ip_matcher :: "geo_databases \<Rightarrow> string \<Rightarrow> cli_error + geo_ip_matcher" where
  "ip_matcher db name =
     and_then (ok_or (CliError ''GeoIP country code {name:?} not found'' [name])
         (case gd_ip db of None \<Rightarrow> None | Some entries \<Rightarrow> hm_get entries (to_ascii_lowercase name))) (\<lambda>entry.
     and_then (try_map network_of (gi_cidr entry)) (\<lambda>networks.
     Inr \<lparr>gm_networks = networks, gm_inverse = gi_inverse_match entry\<rparr>))"

definition compile_domain :: "(string \<Rightarrow> bool) \<Rightarrow> site_domain \<Rightarrow> cli_error + geo_domain" where
  "compile_domain regex_ok d =
     and_then (if sd_kind d = 1 then
                 (if regex_ok (sd_value d) then Inr (Some (sd_value d))
                  else Inl (cli_error ''invalid GeoSite regex: {error}''))
               else Inr None) (\<lambda>regex.
     Inr \<lparr>dom_kind = sd_kind d, dom_value = to_ascii_lowercase (sd_value d), dom_regex = regex,
          dom_attributes = map to_ascii_lowercase (sd_attribute d)\<rparr>)"

definition site_matcher :: "(string \<Rightarrow> bool) \<Rightarrow> geo_databases \<Rightarrow> string \<Rightarrow> cli_error + geo_site_matcher" where
  "site_matcher regex_ok db value =
     (let parts = split_char (CHR ''@'') value;
          name = to_ascii_lowercase (trim (hd parts));
          required = filter (\<lambda>part. part \<noteq> []) (map (\<lambda>part. to_ascii_lowercase (trim part)) (tl parts)) in
      and_then (ok_or (CliError ''GeoSite name {name:?} not found'' [name])
          (case gd_site db of None \<Rightarrow> None | Some entries \<Rightarrow> hm_get entries name)) (\<lambda>domains.
      and_then (try_map (compile_domain regex_ok) domains) (\<lambda>domains.
      Inr \<lparr>gs_domains = domains, gs_required = required\<rparr>)))"

text \<open>
  Loading: a database is read only when the rules mention it; a later entry with the same country
  code replaces an earlier one. A missing or old default file is downloaded, and a failed download
  matters only when no file exists.
\<close>

definition by_country_code :: "(string \<times> 'a) list \<Rightarrow> (string, 'a) hmap" where
  "by_country_code entries = foldl (\<lambda>m (code, entry). hm_insert (to_ascii_lowercase code) entry m) [] entries"

record file_metadata =
  fm_len :: nat
  fm_age :: "nat option"

definition prepare_file :: "string \<Rightarrow> string \<Rightarrow> file_metadata option \<Rightarrow> nat \<Rightarrow> cli_error + unit \<Rightarrow> cli_error + string" where
  "prepare_file configured default_path metadata update downloaded =
     (if configured \<noteq> [] then Inr configured
      else
        let stale = (case metadata of None \<Rightarrow> True
                     | Some m \<Rightarrow> fm_len m = 0 \<or> (case fm_age m of None \<Rightarrow> True | Some age \<Rightarrow> update < age)) in
        case downloaded of
          Inl e \<Rightarrow> if stale \<and> metadata = None then Inl e else Inr default_path
        | Inr _ \<Rightarrow> Inr default_path)"

definition geo_load ::
  "(string \<Rightarrow> nat option) \<Rightarrow> string \<Rightarrow> (nat \<Rightarrow> cli_error + (string \<times> geo_ip) list) \<Rightarrow>
     (nat \<Rightarrow> cli_error + (string \<times> site_domain list) list) \<Rightarrow> string \<Rightarrow> cli_error + geo_databases" where
  "geo_load parse_duration geo_update_interval read_geoip read_geosite rules =
     and_then (if geo_update_interval = [] then Inr (7 * 24 * 60 * 60 * 1000000000)
               else ok_or (cli_error ''invalid acl.geoUpdateInterval: {error}'') (parse_duration geo_update_interval)) (\<lambda>update.
     and_then (if contains_str (to_ascii_lowercase rules) ''geoip:''
               then and_then (read_geoip update) (\<lambda>entries. Inr (Some (by_country_code entries)))
               else Inr None) (\<lambda>ip.
     and_then (if contains_str (to_ascii_lowercase rules) ''geosite:''
               then and_then (read_geosite update) (\<lambda>entries. Inr (Some (by_country_code entries)))
               else Inr None) (\<lambda>site.
     Inr \<lparr>gd_ip = ip, gd_site = site\<rparr>)))"

section \<open>Rules\<close>

datatype host_matcher =
    MatchAll
  | Exact string
  | Suffix string
  | Wildcard string
  | MatchIp ip_addr
  | Cidr ip_addr u8
  | GeoIp geo_ip_matcher
  | GeoSite geo_site_matcher

datatype acl_protocol = Both | Tcp | Udp

record 'o acl_rule =
  ar_outbound :: 'o
  ar_matcher :: host_matcher
  ar_protocol :: acl_protocol
  ar_start_port :: u16
  ar_end_port :: u16
  ar_hijack :: "ip_addr option"

text \<open>
  The wildcard matcher: one pass over the value that remembers the last star and where to retry
  after it.
\<close>

definition STAR :: u8 where
  "STAR = 0x2A"

function wildcard_loop :: "bytes \<Rightarrow> bytes \<Rightarrow> nat \<Rightarrow> nat \<Rightarrow> nat option \<Rightarrow> nat \<Rightarrow> bool" where
  "wildcard_loop v p value_index pattern_index star retry =
     (if value_index < length v then
        if get_at p pattern_index = get_at v value_index then
          wildcard_loop v p (value_index + 1) (pattern_index + 1) star retry
        else if get_at p pattern_index = Some STAR then
          wildcard_loop v p value_index (pattern_index + 1) (Some pattern_index) value_index
        else
          (case star of
             Some star_index \<Rightarrow> wildcard_loop v p (retry + 1) (star_index + 1) star (retry + 1)
           | None \<Rightarrow> False)
      else list_all (\<lambda>byte. byte = STAR) (drop pattern_index p))"
  by pat_completeness auto
termination
  by (relation "measures [\<lambda>(v, p, vi, pi, star, retry). if (case star of None \<Rightarrow> 0 | Some s \<Rightarrow> s + 1) \<le> pi then 0 else 1,
      \<lambda>(v, p, vi, pi, star, retry). length p - (case star of None \<Rightarrow> 0 | Some s \<Rightarrow> s + 1),
      \<lambda>(v, p, vi, pi, star, retry). length v - retry,
      \<lambda>(v, p, vi, pi, star, retry). length v - vi]")
    (auto split: option.splits if_splits)

declare wildcard_loop.simps [simp del]

definition wildcard_matches :: "string \<Rightarrow> string \<Rightarrow> bool" where
  "wildcard_matches value pattern = wildcard_loop (as_bytes value) (as_bytes pattern) 0 0 None 0"

fun cidr_contains :: "ip_addr \<Rightarrow> u8 \<Rightarrow> ip_addr \<Rightarrow> bool" where
  "cidr_contains (V4 network) prefix (V4 candidate) =
     (let bits = checked_shl_ones 32 (unat (32 - prefix)) in network AND bits = candidate AND bits)"
| "cidr_contains (V6 network) prefix (V6 candidate) =
     (let bits = checked_shl_ones 128 (unat (128 - prefix)) in network AND bits = candidate AND bits)"
| "cidr_contains _ _ _ = False"

fun matcher_matches :: "(string \<Rightarrow> string \<Rightarrow> bool) \<Rightarrow> host_matcher \<Rightarrow> string \<Rightarrow> ip_addr list \<Rightarrow> bool" where
  "matcher_matches is_match MatchAll host ips = True"
| "matcher_matches is_match (Exact pattern) host ips = (host = pattern)"
| "matcher_matches is_match (Suffix pattern) host ips = (host = pattern \<or> ends_with host (CHR ''.'' # pattern))"
| "matcher_matches is_match (Wildcard pattern) host ips = wildcard_matches host pattern"
| "matcher_matches is_match (MatchIp expected) host ips = (expected \<in> set ips)"
| "matcher_matches is_match (Cidr network prefix) host ips = list_ex (\<lambda>ip. cidr_contains network prefix ip) ips"
| "matcher_matches is_match (GeoIp m) host ips = geo_ip_matches m ips"
| "matcher_matches is_match (GeoSite m) host ips = geo_site_matches is_match m host"

section \<open>The rule language\<close>

abbreviation (input) acl_syntax_error :: "nat \<Rightarrow> string \<Rightarrow> cli_error fault" where
  "acl_syntax_error line_number line \<equiv> Err (CliError ''invalid ACL syntax at line {line_number}: {line}'' [nat_string line_number, line])"

text \<open>
  One line: a comment and white space are removed, then \<open>name(field, ...)\<close> is split. The cut positions are
  next to the parentheses, hence character boundaries; whether they are in range is checked.
\<close>

definition acl_line :: "nat \<Rightarrow> string \<Rightarrow> cli_error fault + (nat \<times> string list) option" where
  "acl_line line_number raw =
     (let line = trim (hd (split_char (CHR ''#'') raw)) in
      if line = [] then Inr None
      else case find_char (CHR ''('') line of
        None \<Rightarrow> Inl (acl_syntax_error line_number line)
      | Some open_pos \<Rightarrow>
          if \<not> ends_with line '')'' \<or>
             \<not> list_all (\<lambda>c. is_ascii_alphanumeric c \<or> c = CHR ''_'') (take open_pos line)
          then Inl (acl_syntax_error line_number line)
          else and_then (slice_range line (open_pos + 1) (length line - 1)) (\<lambda>inner.
            let cells = take open_pos line # map trim (split_char (CHR '','') inner) in
            if \<not> (2 \<le> length cells \<and> length cells \<le> 4) \<or> cells ! 1 = []
            then Inl (acl_syntax_error line_number line)
            else Inr (Some (line_number, cells))))"

definition acl_lines :: "string \<Rightarrow> cli_error fault + (nat \<times> string list) list" where
  "acl_lines text =
     and_then (try_map (\<lambda>(index, raw). acl_line (index + 1) raw) (List.enumerate 0 (str_lines text))) (\<lambda>rules.
     Inr (flatten rules))"

definition compile_cidr :: "nat \<Rightarrow> string \<Rightarrow> string \<Rightarrow> string \<Rightarrow> cli_error + host_matcher" where
  "compile_cidr line value network prefix =
     and_then (ok_or (CliError ''ACL line {line}: invalid CIDR address {value:?}'' [nat_string line, value])
         (parse_ip network)) (\<lambda>network.
     and_then (ok_or (CliError ''ACL line {line}: invalid CIDR prefix {value:?}'' [nat_string line, value])
         (parse_u8 prefix)) (\<lambda>prefix.
     if prefix > (if is_ipv4 network then 32 else 128)
     then Inl (CliError ''ACL line {line}: invalid CIDR prefix {value:?}'' [nat_string line, value])
     else Inr (Cidr network prefix)))"

definition compile_matcher ::
  "(string \<Rightarrow> bool) \<Rightarrow> string \<Rightarrow> nat \<Rightarrow> geo_databases option \<Rightarrow> cli_error + host_matcher" where
  "compile_matcher regex_ok raw line geo =
     (let value = to_ascii_lowercase (trim_end_matches (CHR ''.'') raw) in
      if value = ''*'' \<or> value = ''all'' then Inr MatchAll
      else case strip_prefix value ''geoip:'' of
        Some name \<Rightarrow>
          and_then (ok_or (CliError ''ACL line {line}: GeoIP database unavailable'' [nat_string line]) geo) (\<lambda>db.
          and_then (ip_matcher db name) (\<lambda>m. Inr (GeoIp m)))
      | None \<Rightarrow> (case strip_prefix value ''geosite:'' of
        Some name \<Rightarrow>
          and_then (ok_or (CliError ''ACL line {line}: GeoSite database unavailable'' [nat_string line]) geo) (\<lambda>db.
          and_then (site_matcher regex_ok db name) (\<lambda>m. Inr (GeoSite m)))
      | None \<Rightarrow> (case strip_prefix value ''suffix:'' of
        Some suffix \<Rightarrow>
          if suffix = [] then Inl (CliError ''ACL line {line}: empty domain suffix'' [nat_string line])
          else Inr (Suffix suffix)
      | None \<Rightarrow> (case split_once value (CHR ''/'') of
        Some (network, prefix) \<Rightarrow> compile_cidr line value network prefix
      | None \<Rightarrow> (case parse_ip value of
        Some ip \<Rightarrow> Inr (MatchIp ip)
      | None \<Rightarrow> if CHR ''*'' \<in> set value then Inr (Wildcard value) else Inr (Exact value))))))"

definition parse_proto_port :: "string \<Rightarrow> nat \<Rightarrow> cli_error + (acl_protocol \<times> u16 \<times> u16)" where
  "parse_proto_port raw line =
     (let value = to_ascii_lowercase raw;
          invalid = CliError ''ACL line {line}: invalid protocol/port {value:?}'' [nat_string line, value] in
      if value = [] \<or> value = ''*'' \<or> value = ''*/*'' then Inr (Both, 0, 0)
      else
        let (protocol, ports) = (case split_once value (CHR ''/'') of None \<Rightarrow> (value, ''*'') | Some parts \<Rightarrow> parts) in
        and_then (if protocol = ''*'' then Inr Both else if protocol = ''tcp'' then Inr Tcp
                  else if protocol = ''udp'' then Inr Udp else Inl invalid) (\<lambda>protocol.
        if ports = ''*'' then Inr (protocol, 0, 0)
        else
          let (start, stop) = (case split_once ports (CHR ''-'') of None \<Rightarrow> (ports, ports) | Some parts \<Rightarrow> parts) in
          and_then (ok_or invalid (parse_u16 start)) (\<lambda>start.
          and_then (ok_or invalid (parse_u16 stop)) (\<lambda>stop.
          if start > stop then Inl (CliError ''ACL line {line}: invalid port range {value:?}'' [nat_string line, value])
          else Inr (protocol, start, stop)))))"

definition validate_rule :: "(string \<Rightarrow> bool) \<Rightarrow> string set \<Rightarrow> nat \<times> string list \<Rightarrow> cli_error fault + unit" where
  "validate_rule regex_ok names rule =
     (case rule of (line_index, cells) \<Rightarrow>
      and_then (index_at cells 0) (\<lambda>name.
      and_then (index_at cells 1) (\<lambda>matcher_text.
      let matcher = to_ascii_lowercase matcher_text; line = nat_string line_index in
      if to_ascii_lowercase name \<notin> names then
        Inl (Err (CliError ''ACL line {line_index}: outbound {:?} not found'' [line, name]))
      else if strip_prefix matcher ''geoip:'' = Some [] then
        Inl (Err (CliError ''ACL line {line_index}: empty GeoIP country code'' [line]))
      else if (case strip_prefix matcher ''geosite:'' of None \<Rightarrow> False | Some name \<Rightarrow> trim name = []) then
        Inl (Err (CliError ''ACL line {line_index}: empty GeoSite name'' [line]))
      else
        and_then (if \<not> starts_with matcher ''geoip:'' \<and> \<not> starts_with matcher ''geosite:''
                  then map_err Err (compile_matcher regex_ok matcher_text line_index None) else Inr MatchAll) (\<lambda>_.
        and_then (map_err Err (parse_proto_port (unwrap_or [] (get_at cells 2)) line_index)) (\<lambda>_.
        case get_at cells 3 of
          None \<Rightarrow> Inr ()
        | Some hijack \<Rightarrow>
            (case parse_ip hijack of
               None \<Rightarrow> Inl (Err (CliError ''ACL line {line_index}: invalid hijack address {hijack:?}'' [line, hijack]))
             | Some _ \<Rightarrow> Inr ()))))))"

definition validate_acl :: "(string \<Rightarrow> bool) \<Rightarrow> string \<Rightarrow> string set \<Rightarrow> cli_error fault + unit" where
  "validate_acl regex_ok text names = and_then (acl_lines text) (try_for_each (validate_rule regex_ok names))"

text \<open>Indexing the table of outbounds panics when the name is missing.\<close>

definition parse_rule ::
  "(string \<Rightarrow> bool) \<Rightarrow> (string, 'o) hmap \<Rightarrow> geo_databases option \<Rightarrow> nat \<times> string list \<Rightarrow> cli_error fault + 'o acl_rule" where
  "parse_rule regex_ok outbounds geo rule =
     (case rule of (line, cells) \<Rightarrow>
      and_then (map_err Err (parse_proto_port (unwrap_or [] (get_at cells 2)) line)) (\<lambda>(protocol, start_port, end_port).
      and_then (index_at cells 0) (\<lambda>name.
      and_then (ok_or Panic (hm_get outbounds (to_ascii_lowercase name))) (\<lambda>outbound.
      and_then (index_at cells 1) (\<lambda>matcher_text.
      and_then (map_err Err (compile_matcher regex_ok matcher_text line geo)) (\<lambda>matcher.
      and_then (case get_at cells 3 of
                  None \<Rightarrow> Inr None
                | Some value \<Rightarrow>
                    (case parse_ip value of
                       None \<Rightarrow> Inl (Err (CliError ''ACL line {line}: invalid hijack address'' [nat_string line]))
                     | Some ip \<Rightarrow> Inr (Some ip))) (\<lambda>hijack.
      Inr \<lparr>ar_outbound = outbound, ar_matcher = matcher, ar_protocol = protocol,
           ar_start_port = start_port, ar_end_port = end_port, ar_hijack = hijack\<rparr>)))))))"

definition parse_acl ::
  "(string \<Rightarrow> bool) \<Rightarrow> string \<Rightarrow> (string, 'o) hmap \<Rightarrow> geo_databases option \<Rightarrow> cli_error fault + 'o acl_rule list" where
  "parse_acl regex_ok text outbounds geo =
     and_then (acl_lines text) (try_map (parse_rule regex_ok outbounds geo))"

section \<open>Routing\<close>

text \<open>
  What the server can do with a destination. The results stand for streams and sockets; \<open>authority\<close> is
  the parser of authorities, which returns the host and the port if there is one.
\<close>

record ('s, 'u) server_outbound =
  ob_tcp :: "string \<Rightarrow> transport_error + 's"
  ob_udp :: "string \<Rightarrow> transport_error + 'u"
  ob_check_udp :: "string \<Rightarrow> transport_error + unit"

type_synonym authority_parser = "string \<Rightarrow> (string \<times> u16 option) option"

record resolved =
  res_ipv4 :: "ip_addr option"
  res_ipv6 :: "ip_addr option"

definition parse_host_port :: "authority_parser \<Rightarrow> string \<Rightarrow> string + (string \<times> u16)" where
  "parse_host_port authority address =
     (case authority address of
        None \<Rightarrow> Inl ''invalid address {address:?}: {error}''
      | Some (host, None) \<Rightarrow> Inl ''address {address:?} requires a port''
      | Some (host, Some port) \<Rightarrow> Inr (host, port))"

definition format_authority :: "string \<Rightarrow> u16 \<Rightarrow> string" where
  "format_authority host port =
     (if CHR '':'' \<in> set host \<and> \<not> starts_with host ''[''
      then ''['' @ host @ '']:'' @ uint_string port
      else host @ '':'' @ uint_string port)"

definition rule_applies ::
  "(string \<Rightarrow> string \<Rightarrow> bool) \<Rightarrow> 'o acl_rule \<Rightarrow> acl_protocol \<Rightarrow> string \<Rightarrow> u16 \<Rightarrow> ip_addr list \<Rightarrow> bool" where
  "rule_applies is_match rule protocol host port ips =
     (\<not> (ar_protocol rule \<noteq> Both \<and> ar_protocol rule \<noteq> protocol) \<and>
      \<not> (ar_start_port rule \<noteq> 0 \<and> \<not> (ar_start_port rule \<le> port \<and> port \<le> ar_end_port rule)) \<and>
      matcher_matches is_match (ar_matcher rule) host ips)"

fun scan_rules ::
  "(string \<Rightarrow> string \<Rightarrow> bool) \<Rightarrow> 'o acl_rule list \<Rightarrow> 'o \<Rightarrow> string \<Rightarrow> acl_protocol \<Rightarrow> string \<Rightarrow> u16 \<Rightarrow> ip_addr list \<Rightarrow> 'o \<times> string" where
  "scan_rules is_match [] fallback address protocol host port ips = (fallback, address)"
| "scan_rules is_match (rule # rules) fallback address protocol host port ips =
     (if rule_applies is_match rule protocol host port ips
      then (ar_outbound rule,
            case ar_hijack rule of None \<Rightarrow> address | Some ip \<Rightarrow> format_authority (ip_display ip) port)
      else scan_rules is_match rules fallback address protocol host port ips)"

record 'o acl_outbound =
  ao_rules :: "'o acl_rule list"
  ao_default :: 'o

text \<open>The operations of other libraries that routing uses.\<close>

record acl_env =
  env_authority :: authority_parser
  env_to_unicode :: "string \<Rightarrow> string"
  env_is_match :: "string \<Rightarrow> string \<Rightarrow> bool"
  env_resolve :: "string \<Rightarrow> u16 \<Rightarrow> resolved"

definition acl_select ::
  "acl_env \<Rightarrow> 'o acl_outbound \<Rightarrow> string \<Rightarrow> acl_protocol \<Rightarrow> transport_error + ('o \<times> string)" where
  "acl_select env acl address protocol =
     and_then (map_err Protocol (parse_host_port (env_authority env) address)) (\<lambda>(host, port).
     let normalized = env_to_unicode env (to_ascii_lowercase (trim_end_matches (CHR ''.'') host));
         found = env_resolve env host port;
         ips = flatten [res_ipv4 found, res_ipv6 found] in
     Inr (scan_rules (env_is_match env) (ao_rules acl) (ao_default acl) address protocol normalized port ips))"

definition acl_server ::
  "acl_env \<Rightarrow> ('s, 'u) server_outbound acl_outbound \<Rightarrow> ('s, 'u) server_outbound" where
  "acl_server env acl =
     \<lparr>ob_tcp = (\<lambda>address. and_then (acl_select env acl address Tcp) (\<lambda>(outbound, target). ob_tcp outbound target)),
      ob_udp = (\<lambda>address. and_then (acl_select env acl address Udp) (\<lambda>(outbound, target). ob_udp outbound target)),
      ob_check_udp =
        (\<lambda>address. and_then (acl_select env acl address Udp) (\<lambda>(outbound, target). ob_check_udp outbound target))\<rparr>"

abbreviation (input) reject_outbound :: "('s, 'u) server_outbound" where
  "reject_outbound \<equiv> \<lparr>ob_tcp = (\<lambda>_. Inl (Protocol ''rejected by ACL'')), ob_udp = (\<lambda>_. Inl (Protocol ''rejected by ACL'')),
      ob_check_udp = (\<lambda>_. Inl (Protocol ''rejected by ACL''))\<rparr>"

section \<open>Wildcards\<close>

text \<open>The reference: a star stands for any bytes, everything else for itself.\<close>

fun glob :: "bytes \<Rightarrow> bytes \<Rightarrow> bool" where
  "glob [] v = (v = [])"
| "glob (c # p) [] = (c = STAR \<and> glob p [])"
| "glob (c # p) (b # v) = (if c = STAR then glob p (b # v) \<or> glob (c # p) v else c = b \<and> glob p v)"

lemma glob_Nil: "glob p [] \<longleftrightarrow> list_all (\<lambda>byte. byte = STAR) p"
  by (induction p) auto

lemma glob_star: "glob (STAR # p) v \<longleftrightarrow> (\<exists>k \<le> length v. glob p (drop k v))"
proof (induction v)
  case (Cons b v)
  have "(\<exists>k \<le> length (b # v). glob p (drop k (b # v))) \<longleftrightarrow> glob p (b # v) \<or> (\<exists>k \<le> length v. glob p (drop k v))"
    (is "?l \<longleftrightarrow> ?r")
  proof
    assume ?l
    then obtain k where k: "k \<le> length (b # v)" "glob p (drop k (b # v))" by blast
    then show ?r by (cases k) auto
  next
    assume ?r
    then show ?l by (auto intro: exI [of _ 0] exI [of _ "Suc _"])
  qed
  then show ?case using Cons by simp
qed simp

lemma glob_literals: "STAR \<notin> set l \<Longrightarrow> glob (l @ p) v \<longleftrightarrow> take (length l) v = l \<and> glob p (drop (length l) v)"
proof (induction l arbitrary: v)
  case (Cons c l)
  then show ?case by (cases v) auto
qed simp

definition wild_inv :: "bytes \<Rightarrow> bytes \<Rightarrow> nat \<Rightarrow> nat \<Rightarrow> nat option \<Rightarrow> nat \<Rightarrow> bool" where
  "wild_inv v p vi pi star retry =
     (vi \<le> length v \<and> pi \<le> length p \<and>
      (case star of None \<Rightarrow> True
       | Some s \<Rightarrow> s < pi \<and> retry \<le> vi \<and> vi - retry = pi - Suc s \<and>
           take (pi - Suc s) (drop (Suc s) p) = take (vi - retry) (drop retry v)))"

definition wild_goal :: "bytes \<Rightarrow> bytes \<Rightarrow> nat \<Rightarrow> nat \<Rightarrow> nat option \<Rightarrow> nat \<Rightarrow> bool" where
  "wild_goal v p vi pi star retry =
     (case star of None \<Rightarrow> glob (drop pi p) (drop vi v)
      | Some s \<Rightarrow> \<exists>k. retry \<le> k \<and> k \<le> length v \<and> glob (drop (Suc s) p) (drop k v))"

lemma wild_segment:
  assumes "wild_inv v p vi pi (Some s) retry" and "STAR \<notin> set v"
  shows "glob (drop (Suc s) p) (drop k v) \<longleftrightarrow>
     take (vi - retry) (drop k v) = take (vi - retry) (drop retry v) \<and> glob (drop pi p) (drop (k + (vi - retry)) v)"
proof -
  define l where "l = take (vi - retry) (drop retry v)"
  have "vi - retry \<le> length v - retry" using assms(1) by (auto simp: wild_inv_def intro: diff_le_mono)
  then have len: "length l = vi - retry" by (simp add: l_def)
  have "drop (Suc s) p = take (pi - Suc s) (drop (Suc s) p) @ drop (pi - Suc s) (drop (Suc s) p)"
    by (rule append_take_drop_id [symmetric])
  moreover have "drop (pi - Suc s) (drop (Suc s) p) = drop pi p" using assms(1) by (simp add: wild_inv_def)
  ultimately have eq: "drop (Suc s) p = l @ drop pi p" using assms(1) by (simp add: wild_inv_def l_def)
  have "STAR \<notin> set l" using assms(2) unfolding l_def by (meson in_set_dropD in_set_takeD)
  then show ?thesis unfolding eq by (simp add: glob_literals len l_def [symmetric] add.commute)
qed

lemma wild_match:
  assumes inv: "wild_inv v p vi pi star retry" and v: "STAR \<notin> set v" and vi: "vi < length v"
    and eq: "get_at p pi = Some (v ! vi)"
  shows "wild_inv v p (vi + 1) (pi + 1) star retry \<and>
     wild_goal v p (vi + 1) (pi + 1) star retry = wild_goal v p vi pi star retry"
proof -
  have pi: "pi < length p" "p ! pi = v ! vi" using eq by auto
  have "v ! vi \<noteq> STAR" using v vi by (metis nth_mem)
  then have "glob (drop pi p) (drop vi v) = glob (drop (Suc pi) p) (drop (Suc vi) v)"
    using pi vi by (simp add: Cons_nth_drop_Suc [symmetric, of pi] Cons_nth_drop_Suc [symmetric, of vi])
  moreover have "take (Suc pi - Suc s) (drop (Suc s) p) = take (Suc vi - retry) (drop retry v)"
    if "star = Some s" for s
  proof -
    have i: "s < pi" "retry \<le> vi" "vi - retry = pi - Suc s"
      "take (pi - Suc s) (drop (Suc s) p) = take (vi - retry) (drop retry v)"
      using inv that by (auto simp: wild_inv_def)
    have "Suc pi - Suc s = Suc (pi - Suc s)" "Suc vi - retry = Suc (vi - retry)" using i by simp_all
    moreover have "retry + pi - Suc s = vi" using i by arith
    ultimately show ?thesis using i pi vi by (simp add: take_Suc_conv_app_nth)
  qed
  ultimately show ?thesis using inv vi pi by (auto simp: wild_inv_def wild_goal_def split: option.splits)
qed

lemma wild_star:
  assumes inv: "wild_inv v p vi pi star retry" and v: "STAR \<notin> set v" and eq: "get_at p pi = Some STAR"
  shows "wild_inv v p vi (pi + 1) (Some pi) vi \<and>
     wild_goal v p vi (pi + 1) (Some pi) vi = wild_goal v p vi pi star retry"
proof -
  have pi: "pi < length p" "p ! pi = STAR" using eq by auto
  have vi: "vi \<le> length v" using inv by (simp add: wild_inv_def)
  have drop_star: "drop pi p = STAR # drop (Suc pi) p" using pi by (simp add: Cons_nth_drop_Suc [symmetric])
  have spread: "glob (drop pi p) (drop j v) \<longleftrightarrow> (\<exists>k. j \<le> k \<and> k \<le> length v \<and> glob (drop (Suc pi) p) (drop k v))"
    if "j \<le> length v" for j
  proof -
    have "(\<exists>k \<le> length v - j. glob (drop (Suc pi) p) (drop (k + j) v)) \<longleftrightarrow>
        (\<exists>k. j \<le> k \<and> k \<le> length v \<and> glob (drop (Suc pi) p) (drop k v))"
      using that by (metis (no_types, opaque_lifting) add.commute le_add1 le_diff_conv2 ordered_cancel_comm_monoid_diff_class.diff_add)
    then show ?thesis unfolding drop_star by (simp add: glob_star)
  qed
  have "wild_goal v p vi (pi + 1) (Some pi) vi = wild_goal v p vi pi star retry"
  proof (cases star)
    case None
    then show ?thesis using spread [OF vi] by (simp add: wild_goal_def)
  next
    case (Some s)
    define L where "L = vi - retry"
    have r: "retry \<le> vi" using inv Some by (simp add: wild_inv_def)
    have seg: "glob (drop (Suc s) p) (drop k v) \<longleftrightarrow>
        take L (drop k v) = take L (drop retry v) \<and> glob (drop pi p) (drop (k + L) v)" for k
      using wild_segment [OF inv [unfolded Some] v] by (simp add: L_def)
    have len: "k + L \<le> length v" if "take L (drop k v) = take L (drop retry v)" "k \<le> length v" for k
    proof -
      have "length (take L (drop k v)) = L" unfolding that(1) using r vi by (simp add: L_def)
      then show ?thesis using that(2) by simp
    qed
    have "(\<exists>k. retry \<le> k \<and> k \<le> length v \<and> glob (drop (Suc s) p) (drop k v)) \<longleftrightarrow> glob (drop pi p) (drop vi v)"
    proof
      assume "\<exists>k. retry \<le> k \<and> k \<le> length v \<and> glob (drop (Suc s) p) (drop k v)"
      then obtain k where k: "retry \<le> k" "k \<le> length v" "take L (drop k v) = take L (drop retry v)"
          "glob (drop pi p) (drop (k + L) v)"
        using seg by blast
      then obtain j where "k + L \<le> j" "j \<le> length v" "glob (drop (Suc pi) p) (drop j v)"
        using spread [OF len [OF k(3, 2)]] by blast
      then show "glob (drop pi p) (drop vi v)" unfolding spread [OF vi] using k(1) r L_def
        by (intro exI [of _ j]) simp
    next
      assume "glob (drop pi p) (drop vi v)"
      then have "glob (drop (Suc s) p) (drop retry v)" unfolding seg using r by (simp add: L_def)
      then show "\<exists>k. retry \<le> k \<and> k \<le> length v \<and> glob (drop (Suc s) p) (drop k v)" using r vi by fastforce
    qed
    then show ?thesis using Some spread [OF vi] by (simp add: wild_goal_def)
  qed
  then show ?thesis using pi vi by (simp add: wild_inv_def)
qed

lemma wild_retry:
  assumes inv: "wild_inv v p vi pi (Some s) retry" and v: "STAR \<notin> set v" and vi: "vi < length v"
    and ne: "get_at p pi \<noteq> Some (v ! vi)" "get_at p pi \<noteq> Some STAR"
  shows "wild_inv v p (retry + 1) (s + 1) (Some s) (retry + 1) \<and>
     wild_goal v p (retry + 1) (s + 1) (Some s) (retry + 1) = wild_goal v p vi pi (Some s) retry"
proof -
  have r: "retry \<le> vi" "s < pi" "pi \<le> length p" using inv by (simp_all add: wild_inv_def)
  have "\<not> glob (drop pi p) (drop vi v)"
  proof (cases "pi < length p")
    case True
    then show ?thesis using ne vi
      by (simp add: Cons_nth_drop_Suc [symmetric, of pi] Cons_nth_drop_Suc [symmetric, of vi])
  next
    case False
    then show ?thesis using vi by simp
  qed
  then have "\<not> glob (drop (Suc s) p) (drop retry v)"
    unfolding wild_segment [OF inv v] using r by simp
  then have "(\<exists>k. retry \<le> k \<and> k \<le> length v \<and> glob (drop (Suc s) p) (drop k v)) \<longleftrightarrow>
      (\<exists>k. Suc retry \<le> k \<and> k \<le> length v \<and> glob (drop (Suc s) p) (drop k v))"
    by (metis Suc_leD not_less_eq_eq order_antisym)
  then show ?thesis using r vi by (simp add: wild_inv_def wild_goal_def)
qed

lemma wild_end:
  assumes inv: "wild_inv v p vi pi star retry" and v: "STAR \<notin> set v" and vi: "\<not> vi < length v"
  shows "list_all (\<lambda>byte. byte = STAR) (drop pi p) = wild_goal v p vi pi star retry"
proof (cases star)
  case None
  then show ?thesis using vi by (simp add: wild_goal_def glob_Nil)
next
  case (Some s)
  have eq: "vi = length v" "retry \<le> length v" using inv vi Some by (simp_all add: wild_inv_def)
  have seg: "glob (drop (Suc s) p) (drop k v) \<longleftrightarrow> k = retry \<and> list_all (\<lambda>byte. byte = STAR) (drop pi p)"
    if "retry \<le> k" "k \<le> length v" for k
  proof -
    have "take (vi - retry) (drop k v) = take (vi - retry) (drop retry v) \<longleftrightarrow> drop k v = drop retry v"
      using eq that by simp
    also have "\<dots> \<longleftrightarrow> k = retry" using that eq
      by (metis diff_diff_cancel length_drop)
    finally show ?thesis unfolding wild_segment [OF inv [unfolded Some] v] using eq by (auto simp: glob_Nil)
  qed
  then show ?thesis using Some eq by (auto simp: wild_goal_def)
qed

lemma wildcard_loop_correct:
  "wild_inv v p vi pi star retry \<Longrightarrow> STAR \<notin> set v \<Longrightarrow>
     wildcard_loop v p vi pi star retry = wild_goal v p vi pi star retry"
proof (induction v p vi pi star retry rule: wildcard_loop.induct)
  case (1 v p vi pi star retry)
  note inv = 1(4) and v = 1(5)
  show ?case
  proof (cases "vi < length v")
    case False
    then show ?thesis using wild_end [OF inv v False] by (subst wildcard_loop.simps) simp
  next
    case vi: True
    have unfold: "wildcard_loop v p vi pi star retry =
        (if get_at p pi = Some (v ! vi) then wildcard_loop v p (vi + 1) (pi + 1) star retry
         else if get_at p pi = Some STAR then wildcard_loop v p vi (pi + 1) (Some pi) vi
         else case star of None \<Rightarrow> False | Some s \<Rightarrow> wildcard_loop v p (retry + 1) (s + 1) star (retry + 1))"
      using vi by (subst wildcard_loop.simps) simp
    show ?thesis
    proof (cases "get_at p pi = Some (v ! vi)")
      case True
      then show ?thesis using wild_match [OF inv v vi True] 1(1) vi v unfold by simp
    next
      case ne: False
      show ?thesis
      proof (cases "get_at p pi = Some STAR")
        case True
        then show ?thesis using wild_star [OF inv v True] 1(2) vi v ne unfold by simp
      next
        case False
        show ?thesis
        proof (cases star)
          case None
          have "\<not> glob (drop pi p) (drop vi v)"
            using ne False vi
            by (cases "pi < length p")
              (simp_all add: Cons_nth_drop_Suc [symmetric, of pi] Cons_nth_drop_Suc [symmetric, of vi])
          then show ?thesis unfolding unfold by (simp only: None ne False if_False option.case wild_goal_def)
        next
          case (Some s)
          then have "wildcard_loop v p (retry + 1) (s + 1) (Some s) (retry + 1) = wild_goal v p vi pi (Some s) retry"
            using wild_retry [OF inv [unfolded Some] v vi ne False] 1(3) vi v ne False by simp
          then show ?thesis unfolding unfold by (simp only: Some ne False if_False option.case)
        qed
      qed
    qed
  qed
qed

lemma wildcard_matches_glob:
  assumes "CHR ''*'' \<notin> set value"
  shows "wildcard_matches value pattern = glob (as_bytes pattern) (as_bytes value)"
proof -
  have "STAR = byte_of_char (CHR ''*'')" by code_simp
  then have "STAR \<notin> set (as_bytes value)"
    using assms by (auto simp: as_bytes_def) (metis char_of_byte_of_char)
  then show ?thesis
    unfolding wildcard_matches_def
    by (subst wildcard_loop_correct) (simp_all add: wild_inv_def wild_goal_def)
qed

section \<open>Address prefixes\<close>

lemma bit_checked_shl_ones:
  "bit (checked_shl_ones LENGTH('a) n :: 'a::len word) i \<longleftrightarrow> n \<le> i \<and> i < LENGTH('a)"
  by (auto simp: checked_shl_ones_def bit_simps)

lemma and_high_bits:
  "x AND checked_shl_ones LENGTH('a) n = y AND checked_shl_ones LENGTH('a) n \<longleftrightarrow> drop_bit n x = drop_bit n (y :: 'a::len word)"
proof
  assume eq: "x AND checked_shl_ones LENGTH('a) n = y AND checked_shl_ones LENGTH('a) n"
  show "drop_bit n x = drop_bit n y"
  proof (rule bit_eqI)
    fix i
    have "bit (x AND checked_shl_ones LENGTH('a) n) (n + i) = bit (y AND checked_shl_ones LENGTH('a) n) (n + i)"
      using eq by simp
    then show "bit (drop_bit n x) i = bit (drop_bit n y) i"
      by (auto simp: bit_simps bit_checked_shl_ones dest: bit_imp_le_length)
  qed
next
  assume eq: "drop_bit n x = drop_bit n y"
  show "x AND checked_shl_ones LENGTH('a) n = y AND checked_shl_ones LENGTH('a) n"
  proof (rule bit_eqI)
    fix i
    have "bit (drop_bit n x) (i - n) = bit (drop_bit n y) (i - n)" using eq by simp
    then show "bit (x AND checked_shl_ones LENGTH('a) n) i = bit (y AND checked_shl_ones LENGTH('a) n) i"
      by (auto simp: bit_simps bit_checked_shl_ones)
  qed
qed

text \<open>The reference: both addresses have the same family and the same leading bits.\<close>

fun same_prefix :: "nat \<Rightarrow> ip_addr \<Rightarrow> ip_addr \<Rightarrow> bool" where
  "same_prefix n (V4 a) (V4 b) = (drop_bit (32 - n) a = drop_bit (32 - n) b)"
| "same_prefix n (V6 a) (V6 b) = (drop_bit (128 - n) a = drop_bit (128 - n) b)"
| "same_prefix _ _ _ = False"

definition family_bits :: "ip_addr \<Rightarrow> nat" where
  "family_bits ip = (if is_ipv4 ip then 32 else 128)"

lemma unat_sub_u8: "p \<le> n \<Longrightarrow> unat (n - p :: u8) = unat n - unat p"
  by (simp add: unat_sub)

lemma cidr_contains_prefix:
  assumes "unat prefix \<le> family_bits network"
  shows "cidr_contains network prefix ip = same_prefix (unat prefix) network ip"
    and "geo_cidr_contains network prefix ip = same_prefix (unat prefix) network ip"
proof -
  have "prefix \<le> 32" if "is_ipv4 network"
    using assms that by (simp add: family_bits_def word_le_nat_alt)
  moreover have "prefix \<le> 128" if "\<not> is_ipv4 network"
    using assms that by (simp add: family_bits_def word_le_nat_alt)
  ultimately have "cidr_contains network prefix ip = same_prefix (unat prefix) network ip \<and>
      geo_cidr_contains network prefix ip = same_prefix (unat prefix) network ip"
    using and_high_bits [where 'a = 32] and_high_bits [where 'a = 128]
    by (cases network; cases ip) (simp_all add: Let_def unat_sub_u8)
  then show "cidr_contains network prefix ip = same_prefix (unat prefix) network ip"
    and "geo_cidr_contains network prefix ip = same_prefix (unat prefix) network ip" by auto
qed

section \<open>Well-formed rules\<close>

fun matcher_ok :: "host_matcher \<Rightarrow> bool" where
  "matcher_ok (Exact pattern) = (CHR ''*'' \<notin> set pattern)"
| "matcher_ok (Suffix pattern) = (pattern \<noteq> [])"
| "matcher_ok (Wildcard pattern) = (CHR ''*'' \<in> set pattern)"
| "matcher_ok (Cidr network prefix) = (unat prefix \<le> family_bits network)"
| "matcher_ok _ = True"

definition rule_ok :: "'o acl_rule \<Rightarrow> bool" where
  "rule_ok r = (matcher_ok (ar_matcher r) \<and> ar_start_port r \<le> ar_end_port r)"

lemma compile_cidr_ok: "compile_cidr line value network prefix = Inr m \<Longrightarrow> matcher_ok m"
  by (auto simp: compile_cidr_def result_iffs family_bits_def word_le_nat_alt word_less_nat_alt split: if_splits)

lemma compile_matcher_ok: "compile_matcher regex_ok raw line geo = Inr m \<Longrightarrow> matcher_ok m"
  by (auto simp: compile_matcher_def Let_def result_iffs split: if_splits option.splits prod.splits
      dest: compile_cidr_ok)

lemma parse_proto_port_ok: "parse_proto_port raw line = Inr (protocol, start, stop) \<Longrightarrow> start \<le> stop"
  by (auto simp: parse_proto_port_def Let_def result_iffs split: if_splits option.splits prod.splits)

lemma parse_rule_ok: "parse_rule regex_ok outbounds geo rule = Inr r \<Longrightarrow> rule_ok r"
  by (auto simp: parse_rule_def rule_ok_def result_iffs split: prod.splits option.splits
      dest: compile_matcher_ok parse_proto_port_ok)

lemma parse_acl_ok: "parse_acl regex_ok text outbounds geo = Inr rules \<Longrightarrow> r \<in> set rules \<Longrightarrow> rule_ok r"
  by (auto simp: parse_acl_def result_iffs dest!: try_map_ok_mem parse_rule_ok)

section \<open>Absence of panics\<close>

lemma acl_line_cells:
  assumes "acl_line n raw = Inr (Some (m, cells))"
  shows "m = n \<and> 2 \<le> length cells \<and> length cells \<le> 4 \<and> cells ! 1 \<noteq> []"
  using assms by (auto simp: acl_line_def Let_def result_iffs split: if_splits option.splits)

lemma acl_line_no_panic: "acl_line n raw \<noteq> Inl Panic"
proof -
  define line where "line = trim (hd (split_char (CHR ''#'') raw))"
  have "open_pos + 1 \<le> length line - 1" if f: "find_char (CHR ''('') line = Some open_pos" and e: "ends_with line '')''" for open_pos
  proof -
    have o: "open_pos < length line" "line ! open_pos = CHR ''(''" using find_char_Some [OF f] by auto
    obtain t where t: "line = t @ '')''" using e by (auto simp: ends_with_iff)
    then have "open_pos \<noteq> length t" using o by auto
    then show ?thesis using o t by simp
  qed
  then show ?thesis
    by (auto simp: acl_line_def line_def [symmetric] Let_def and_then_eq_Inl split: option.splits)
qed

lemma acl_lines_cells:
  assumes "acl_lines text = Inr rules" and "(n, cells) \<in> set rules"
  shows "2 \<le> length cells \<and> length cells \<le> 4"
proof -
  obtain rs where rs: "try_map (\<lambda>(index, raw). acl_line (index + 1) raw) (List.enumerate 0 (str_lines text)) = Inr rs"
    and "rules = flatten rs"
    using assms(1) by (auto simp: acl_lines_def result_iffs)
  then have "Some (n, cells) \<in> set rs" using assms(2) by (auto simp: flatten_def List.map_filter_def)
  then show ?thesis using try_map_ok_mem [OF rs] acl_line_cells by fastforce
qed

lemma acl_lines_no_panic: "acl_lines text \<noteq> Inl Panic"
  using acl_line_no_panic by (auto simp: acl_lines_def and_then_eq_Inl dest: try_map_Inl)

lemma compile_matcher_geo: "compile_matcher regex_ok raw line None = Inr m \<Longrightarrow> compile_matcher regex_ok raw line geo = Inr m"
  by (auto simp: compile_matcher_def Let_def result_iffs split: if_splits option.splits prod.splits)

definition geo_rule :: "nat \<times> string list \<Rightarrow> bool" where
  "geo_rule rule = (let matcher = to_ascii_lowercase (snd rule ! 1) in starts_with matcher ''geoip:'' \<or> starts_with matcher ''geosite:'')"

lemma parse_rule_after_validate:
  assumes valid: "validate_rule regex_ok names rule = Inr ()" and cells: "2 \<le> length (snd rule)"
    and names: "names \<subseteq> fst ` set outbounds"
  shows "parse_rule regex_ok outbounds geo rule \<noteq> Inl Panic"
    and "\<not> geo_rule rule \<Longrightarrow> is_ok (parse_rule regex_ok outbounds geo rule)"
proof -
  obtain line cs where rule: "rule = (line, cs)" by force
  have idx: "index_at cs 0 = (Inr (cs ! 0) :: cli_error fault + string)" "index_at cs 1 = (Inr (cs ! 1) :: cli_error fault + string)"
    using cells rule by (auto simp: index_at_def)
  have "to_ascii_lowercase (cs ! 0) \<in> names"
    using valid idx by (auto simp: validate_rule_def rule Let_def split: if_splits)
  then obtain ob where ob: "hm_get outbounds (to_ascii_lowercase (cs ! 0)) = Some ob"
    using names by (metis (no_types, lifting) hm_get_def map_of_eq_None_iff not_Some_eq subsetD)
  obtain pr where pr: "parse_proto_port (unwrap_or [] (get_at cs 2)) line = Inr pr"
    using valid idx by (auto simp: validate_rule_def rule Let_def result_iffs split: if_splits)
  have hijack: "get_at cs 3 = None \<or> (\<exists>h ip. get_at cs 3 = Some h \<and> parse_ip h = Some ip)"
    using valid idx by (auto simp: validate_rule_def rule Let_def result_iffs split: if_splits option.splits)
  show "parse_rule regex_ok outbounds geo rule \<noteq> Inl Panic"
    using hijack idx ob pr
    by (auto simp: parse_rule_def rule and_then_eq_Inl map_err_eq_Inl split: prod.splits option.splits)
  show "is_ok (parse_rule regex_ok outbounds geo rule)" if no_geo: "\<not> geo_rule rule"
  proof -
    obtain m where "compile_matcher regex_ok (cs ! 1) line None = Inr m"
      using valid idx no_geo by (auto simp: validate_rule_def geo_rule_def rule Let_def result_iffs split: if_splits)
    then have m: "compile_matcher regex_ok (cs ! 1) line geo = Inr m" by (rule compile_matcher_geo)
    obtain protocol start stop where pr': "pr = (protocol, start, stop)" by (cases pr)
    show ?thesis using hijack idx ob pr m by (auto simp: parse_rule_def rule pr')
  qed
qed

lemma parse_acl_after_validate:
  assumes "validate_acl regex_ok text names = Inr ()" and "names \<subseteq> fst ` set outbounds"
  shows "parse_acl regex_ok text outbounds geo \<noteq> Inl Panic \<and>
     (\<exists>lines. acl_lines text = Inr lines \<and>
       (list_ex geo_rule lines \<or> is_ok (parse_acl regex_ok text outbounds geo)))"
proof -
  obtain lines where lines: "acl_lines text = Inr lines"
    and valid: "\<forall>rule \<in> set lines. validate_rule regex_ok names rule = Inr ()"
    using assms(1) by (auto simp: validate_acl_def result_iffs try_for_each_ok)
  have cells: "2 \<le> length (snd rule)" if "rule \<in> set lines" for rule
    using acl_lines_cells [OF lines, of "fst rule" "snd rule"] that by simp
  have "parse_rule regex_ok outbounds geo rule \<noteq> Inl Panic" if "rule \<in> set lines" for rule
    using parse_rule_after_validate(1) valid cells assms(2) that by blast
  then have "parse_acl regex_ok text outbounds geo \<noteq> Inl Panic"
    using lines by (auto simp: parse_acl_def dest: try_map_Inl)
  moreover have "is_ok (parse_acl regex_ok text outbounds geo)" if "\<not> list_ex geo_rule lines"
  proof -
    have "is_ok (parse_rule regex_ok outbounds geo rule)" if "rule \<in> set lines" for rule
      using parse_rule_after_validate(2) valid cells assms(2) that \<open>\<not> list_ex geo_rule lines\<close>
      by (metis list_ex_iff)
    then have "\<nexists>e. try_map (parse_rule regex_ok outbounds geo) lines = Inl e"
      by (metis is_ok_simps(1) try_map_Inl)
    then show ?thesis using lines by (cases "try_map (parse_rule regex_ok outbounds geo) lines") (auto simp: parse_acl_def)
  qed
  ultimately show ?thesis using lines by blast
qed

section \<open>Routing as a decision list\<close>

text \<open>What each matcher means, and the route of a destination: the first rule that applies decides.\<close>

fun matcher_spec :: "(string \<Rightarrow> string \<Rightarrow> bool) \<Rightarrow> host_matcher \<Rightarrow> string \<Rightarrow> ip_addr list \<Rightarrow> bool" where
  "matcher_spec is_match MatchAll host ips = True"
| "matcher_spec is_match (Exact pattern) host ips = (host = pattern)"
| "matcher_spec is_match (Suffix pattern) host ips = (host = pattern \<or> (\<exists>label. host = label @ ''.'' @ pattern))"
| "matcher_spec is_match (Wildcard pattern) host ips = glob (as_bytes pattern) (as_bytes host)"
| "matcher_spec is_match (MatchIp expected) host ips = (expected \<in> set ips)"
| "matcher_spec is_match (Cidr network prefix) host ips = (\<exists>ip \<in> set ips. same_prefix (unat prefix) network ip)"
| "matcher_spec is_match (GeoIp m) host ips =
     ((\<exists>ip \<in> set ips. \<exists>(network, prefix) \<in> set (gm_networks m).
         unat prefix \<le> family_bits network \<and> same_prefix (unat prefix) network ip) \<noteq> gm_inverse m)"
| "matcher_spec is_match (GeoSite m) host ips =
     (\<exists>d \<in> set (gs_domains m). set (gs_required m) \<subseteq> set (dom_attributes d) \<and>
        (dom_kind d = 0 \<and> (\<exists>a b. host = a @ dom_value d @ b) \<or>
         dom_kind d = 1 \<and> (\<exists>regex. dom_regex d = Some regex \<and> is_match regex host) \<or>
         dom_kind d = 2 \<and> (host = dom_value d \<or> (\<exists>label. host = label @ ''.'' @ dom_value d)) \<or>
         dom_kind d = 3 \<and> host = dom_value d))"

definition rule_spec ::
  "(string \<Rightarrow> string \<Rightarrow> bool) \<Rightarrow> acl_protocol \<Rightarrow> string \<Rightarrow> u16 \<Rightarrow> ip_addr list \<Rightarrow> 'o acl_rule \<Rightarrow> bool" where
  "rule_spec is_match protocol host port ips r =
     (ar_protocol r \<in> {Both, protocol} \<and>
      (ar_start_port r = 0 \<or> port \<in> {ar_start_port r..ar_end_port r}) \<and>
      matcher_spec is_match (ar_matcher r) host ips)"

definition route_spec ::
  "(string \<Rightarrow> string \<Rightarrow> bool) \<Rightarrow> 'o acl_rule list \<Rightarrow> 'o \<Rightarrow> string \<Rightarrow> acl_protocol \<Rightarrow> string \<Rightarrow> u16 \<Rightarrow> ip_addr list \<Rightarrow> 'o \<times> string" where
  "route_spec is_match rules fallback address protocol host port ips =
     (case filter (rule_spec is_match protocol host port ips) rules of
        [] \<Rightarrow> (fallback, address)
      | r # _ \<Rightarrow> (ar_outbound r, case ar_hijack r of None \<Rightarrow> address | Some ip \<Rightarrow> format_authority (ip_display ip) port))"

lemma geo_network_prefix:
  "geo_cidr_contains network prefix ip \<longleftrightarrow> unat prefix \<le> family_bits network \<and> same_prefix (unat prefix) network ip"
proof (cases "unat prefix \<le> family_bits network")
  case True
  then show ?thesis by (simp add: cidr_contains_prefix)
next
  case False
  then have "\<not> geo_cidr_contains network prefix ip"
    by (cases network; cases ip) (auto simp: family_bits_def word_le_nat_alt)
  then show ?thesis using False by simp
qed

lemma matcher_matches_spec:
  assumes "matcher_ok m" and "CHR ''*'' \<notin> set host"
  shows "matcher_matches is_match m host ips = matcher_spec is_match m host ips"
proof (cases m)
  case (GeoIp g)
  then show ?thesis by (simp add: geo_ip_matches_def geo_network_prefix list_ex_iff split_beta)
next
  case (GeoSite g)
  have "domain_matches is_match (gs_required g) host d \<longleftrightarrow> set (gs_required g) \<subseteq> set (dom_attributes d) \<and>
        (dom_kind d = 0 \<and> (\<exists>a b. host = a @ dom_value d @ b) \<or>
         dom_kind d = 1 \<and> (\<exists>regex. dom_regex d = Some regex \<and> is_match regex host) \<or>
         dom_kind d = 2 \<and> (host = dom_value d \<or> (\<exists>label. host = label @ ''.'' @ dom_value d)) \<or>
         dom_kind d = 3 \<and> host = dom_value d)" for d
    by (auto simp: domain_matches_def list_all_iff contains_str_iff ends_with_iff split: option.splits)
  then show ?thesis using GeoSite by (simp add: geo_site_matches_def list_ex_iff)
next
  case (Cidr network prefix)
  then show ?thesis using assms(1) by (simp add: cidr_contains_prefix list_ex_iff)
qed (use assms in \<open>simp_all add: wildcard_matches_glob ends_with_iff\<close>)

lemma rule_applies_spec:
  assumes "rule_ok r" and "CHR ''*'' \<notin> set host"
  shows "rule_applies is_match r protocol host port ips = rule_spec is_match protocol host port ips r"
  using assms matcher_matches_spec [of "ar_matcher r" host is_match ips]
  by (auto simp: rule_applies_def rule_spec_def rule_ok_def)

lemma scan_rules_spec:
  assumes "\<forall>r \<in> set rules. rule_ok r" and "CHR ''*'' \<notin> set host"
  shows "scan_rules is_match rules fallback address protocol host port ips =
     route_spec is_match rules fallback address protocol host port ips"
  using assms(1)
  by (induction rules) (auto simp: route_spec_def rule_applies_spec [OF _ assms(2)] split: option.splits)


section \<open>Properties\<close>

text \<open>
  C33: The wildcard matcher accepts a host exactly when the pattern generates it, a star standing for
  any bytes, provided the host itself contains no star.
\<close>

theorem wildcard_equivalence:
  assumes "CHR ''*'' \<notin> set host"
  shows "wildcard_matches host pattern \<longleftrightarrow> glob (as_bytes pattern) (as_bytes host)"
  by (rule wildcard_matches_glob [OF assms])

theorem wildcard_equivalence_witness:
  "wildcard_matches ''abcbc.example'' ''a*bc.ex*'' \<longleftrightarrow> glob (as_bytes ''a*bc.ex*'') (as_bytes ''abcbc.example'')"
  by (rule wildcard_equivalence) simp

text \<open>A host with a star escapes patterns that would match it: the star of the pattern is taken literally.\<close>

lemma wildcard_star_bypass:
  "\<not> wildcard_matches ''*a.example.com'' ''*.example.com'' \<and> glob (as_bytes ''*.example.com'') (as_bytes ''*a.example.com'')"
  by code_simp

text \<open>
  A network with a prefix length of its family contains an address exactly when both have the same
  family and agree on the leading bits.
\<close>

lemma cidr_equivalence:
  assumes "unat prefix \<le> family_bits network"
  shows "(cidr_contains network prefix ip \<longleftrightarrow> same_prefix (unat prefix) network ip) \<and>
     (geo_cidr_contains network prefix ip \<longleftrightarrow> same_prefix (unat prefix) network ip)"
  using cidr_contains_prefix [OF assms] by simp


definition sample_outbounds :: "(string, nat) hmap" where
  "sample_outbounds = [(''direct'', 0), (''reject'', 1)]"

definition sample_acl :: string where
  "sample_acl = ''reject(10.0.0.0/8)'' @ [CHR 0x0A] @ ''direct(*.Example.com, tcp/80-443, 127.0.0.1) # web''"

definition sample_rules :: "nat acl_rule list" where
  "sample_rules =
     [\<lparr>ar_outbound = 1, ar_matcher = Cidr (V4 0x0A000000) 8, ar_protocol = Both, ar_start_port = 0, ar_end_port = 0, ar_hijack = None\<rparr>,
      \<lparr>ar_outbound = 0, ar_matcher = Wildcard ''*.example.com'', ar_protocol = Tcp, ar_start_port = 80, ar_end_port = 443,
       ar_hijack = Some (V4 0x7F000001)\<rparr>]"

lemma sample_acl_parses: "parse_acl (\<lambda>_. True) sample_acl sample_outbounds None = Inr sample_rules"
  by code_simp


text \<open>
  C2: For hosts without a star, routing implements the decision list that the rules describe: the
  first rule whose protocol, port range and matcher fit the destination determines the outbound and
  the target, a hijack address replacing the host, and the default takes the rest.
\<close>

theorem acl_routes_by_first_rule:
  assumes "parse_acl regex_ok text outbounds geo = Inr rules"
    and "parse_host_port (env_authority env) address = Inr (host, port)"
    and "CHR ''*'' \<notin> set (env_to_unicode env (to_ascii_lowercase (trim_end_matches (CHR ''.'') host)))"
  shows "acl_select env \<lparr>ao_rules = rules, ao_default = fallback\<rparr> address protocol =
     Inr (route_spec (env_is_match env) rules fallback address protocol
       (env_to_unicode env (to_ascii_lowercase (trim_end_matches (CHR ''.'') host))) port
       (flatten [res_ipv4 (env_resolve env host port), res_ipv6 (env_resolve env host port)]))"
proof -
  have "\<forall>r \<in> set rules. rule_ok r" using parse_acl_ok [OF assms(1)] by blast
  then show ?thesis using assms(2) scan_rules_spec [OF _ assms(3)] by (simp add: acl_select_def Let_def)
qed

definition sample_env :: acl_env where
  "sample_env =
     \<lparr>env_authority = (\<lambda>a. if a = ''WWW.example.com.:443'' then Some (''WWW.example.com.'', Some 443) else None),
      env_to_unicode = (\<lambda>s. s), env_is_match = (\<lambda>_ _. False),
      env_resolve = (\<lambda>_ _. \<lparr>res_ipv4 = Some (V4 0x08080808), res_ipv6 = None\<rparr>)\<rparr>"

theorem acl_routes_by_first_rule_witness:
  "acl_select sample_env \<lparr>ao_rules = sample_rules, ao_default = 7\<rparr> ''WWW.example.com.:443'' Tcp = Inr (0, ''127.0.0.1:443'')"
proof -
  have p: "parse_host_port (env_authority sample_env) ''WWW.example.com.:443'' = Inr (''WWW.example.com.'', 443)"
    by code_simp
  have h: "env_to_unicode sample_env (to_ascii_lowercase (trim_end_matches (CHR ''.'') ''WWW.example.com.'')) = ''www.example.com''"
    by code_simp
  have r: "flatten [res_ipv4 (env_resolve sample_env ''WWW.example.com.'' 443),
      res_ipv6 (env_resolve sample_env ''WWW.example.com.'' 443)] = [V4 0x08080808]" by code_simp
  have "glob (as_bytes ''*.example.com'') (as_bytes ''www.example.com'')" "\<not> same_prefix 8 (V4 0x0A000000) (V4 0x08080808)"
    by code_simp+
  then have "route_spec (env_is_match sample_env) sample_rules 7 ''WWW.example.com.:443'' Tcp ''www.example.com'' 443 [V4 0x08080808] =
      (0, format_authority (ip_display (V4 0x7F000001)) 443)"
    by (simp add: route_spec_def sample_rules_def rule_spec_def)
  moreover have "format_authority (ip_display (V4 0x7F000001)) 443 = ''127.0.0.1:443''" by code_simp
  ultimately show ?thesis
    using acl_routes_by_first_rule [OF sample_acl_parses p, of 7 Tcp] unfolding h r by simp
qed

text \<open>
  C32: Once the rules have been validated against names that the outbound table has, parsing them does
  not panic; without rules about a geographic database it succeeds.
\<close>

theorem acl_validated_parses:
  assumes "validate_acl regex_ok text names = Inr ()" and "names \<subseteq> fst ` set outbounds"
  shows "parse_acl regex_ok text outbounds geo \<noteq> Inl Panic \<and>
     (\<exists>lines. acl_lines text = Inr lines \<and>
       (list_ex geo_rule lines \<or> is_ok (parse_acl regex_ok text outbounds geo)))"
  by (rule parse_acl_after_validate [OF assms])

theorem acl_validated_parses_witness:
  "parse_acl (\<lambda>_. True) sample_acl sample_outbounds None \<noteq> Inl Panic"
proof -
  have "validate_acl (\<lambda>_. True) sample_acl {''direct'', ''reject''} = Inr ()" by code_simp
  then show ?thesis
    using acl_validated_parses [of "\<lambda>_. True" sample_acl "{''direct'', ''reject''}" sample_outbounds None]
    by (simp add: sample_outbounds_def)
qed

end
