(* ===== verification/Config_Types.thy ===== *)
theory Config_Types
  imports Rust_Text
begin

text \<open>
  The configuration files of \<open>hysteria/src/config.rs\<close> as records, one per struct with its fields in order.
  A field that the file may leave out has the default of its type; reading YAML is not modelled.
\<close>

datatype bandwidth_value = BandwidthInteger u64 | BandwidthText string

record sniff_config =
  sn_enable :: bool
  sn_timeout :: string
  sn_rewrite_domain :: bool
  sn_tcp_ports :: string
  sn_udp_ports :: string

record server_quic_config =
  sq_disable_stateless_reset :: bool
  sq_init_stream_receive_window :: u64
  sq_max_stream_receive_window :: u64
  sq_init_connection_receive_window :: u64
  sq_max_connection_receive_window :: u64
  sq_max_idle_timeout :: string
  sq_max_incoming_streams :: u64
  sq_disable_path_mtu_discovery :: bool

record acl_config =
  ac_file :: string
  ac_inline :: "string list"
  ac_geoip :: string
  ac_geosite :: string
  ac_geo_update_interval :: string

record resolver_plain_config =
  rp_addr :: string
  rp_timeout :: string

record resolver_tls_config =
  rt_addr :: string
  rt_timeout :: string
  rt_sni :: string
  rt_insecure :: bool

record resolver_config =
  rc_kind :: string
  rc_tcp :: resolver_plain_config
  rc_udp :: resolver_plain_config
  rc_tls :: resolver_tls_config
  rc_https :: resolver_tls_config

record direct_outbound_config =
  dc_mode :: string
  dc_bind_ipv4 :: string
  dc_bind_ipv6 :: string
  dc_bind_device :: string
  dc_fast_open :: bool

record socks5_outbound_config =
  so_addr :: string
  so_username :: string
  so_password :: string

record http_outbound_config =
  ho_url :: string
  ho_insecure :: bool

record outbound_config =
  oc_name :: string
  oc_kind :: string
  oc_direct :: direct_outbound_config
  oc_socks5 :: socks5_outbound_config
  oc_http :: http_outbound_config

record server_tls =
  st_cert :: string
  st_key :: string
  st_sni_guard :: string
  st_client_ca :: string

record server_ech =
  se_key_path :: string

record server_acme_http =
  ah_alt_port :: u16

record server_acme_tls =
  at_alt_port :: u16

record server_acme_dns =
  ad_name :: string
  ad_config :: "(string, string) hmap"

record server_acme =
  sa_domains :: "string list"
  sa_email :: string
  sa_ca :: string
  sa_listen_host :: string
  sa_dir :: string
  sa_kind :: string
  sa_http :: server_acme_http
  sa_tls :: server_acme_tls
  sa_dns :: server_acme_dns
  sa_disable_http :: bool
  sa_disable_tls_alpn :: bool
  sa_alt_http_port :: u16
  sa_alt_tls_alpn_port :: u16

record server_auth_http =
  uh_url :: string
  uh_insecure :: bool

record server_auth =
  su_kind :: string
  su_password :: string
  su_userpass :: "(string, string) hmap"
  su_http :: server_auth_http
  su_command :: string

record traffic_stats_config =
  ts_listen :: string
  ts_secret :: string

record masquerade_file =
  mf_dir :: string

record masquerade_proxy =
  mp_url :: string
  mp_rewrite_host :: bool
  mp_x_forwarded :: bool
  mp_insecure :: bool

record masquerade_string =
  ms_content :: string
  ms_headers :: "(string, string) hmap"
  ms_status_code :: u16

record masquerade_config =
  mc_kind :: string
  mc_file :: masquerade_file
  mc_proxy :: masquerade_proxy
  mc_string :: masquerade_string
  mc_listen_http :: string
  mc_listen_https :: string
  mc_force_https :: bool

record obfs_salamander =
  os_password :: string

record obfs_gecko =
  og_password :: string
  og_min_packet_size :: usize
  og_max_packet_size :: usize

record obfs_config =
  obc_kind :: string
  obc_salamander :: obfs_salamander
  obc_gecko :: obfs_gecko

record realm_port_mapping_config =
  pm_enabled :: bool
  pm_timeout :: string
  pm_lifetime :: string

record server_realm_config =
  sr_stun_servers :: "string list"
  sr_stun_timeout :: string
  sr_punch_timeout :: string
  sr_heartbeat_interval :: string
  sr_insecure :: bool
  sr_ip_mode :: string
  sr_port_mapping :: realm_port_mapping_config

record bandwidth =
  bw_up :: "bandwidth_value option"
  bw_down :: "bandwidth_value option"
  bw_disable_loss_compensation :: bool

record congestion_config =
  cg_kind :: string
  cg_bbr_profile :: string

record server_config =
  sc_listen :: string
  sc_realm :: server_realm_config
  sc_tls :: server_tls
  sc_acme :: "server_acme option"
  sc_ech :: "server_ech option"
  sc_auth :: server_auth
  sc_speed_test :: bool
  sc_quic :: server_quic_config
  sc_disable_udp :: bool
  sc_udp_idle_timeout :: string
  sc_bandwidth :: bandwidth
  sc_congestion :: congestion_config
  sc_ignore_client_bandwidth :: bool
  sc_obfs :: obfs_config
  sc_traffic_stats :: traffic_stats_config
  sc_masquerade :: masquerade_config
  sc_outbounds :: "outbound_config list"
  sc_acl :: acl_config
  sc_resolver :: resolver_config
  sc_sniff :: sniff_config

record client_udp_transport_config =
  cu_hop_interval :: string
  cu_min_hop_interval :: string
  cu_max_hop_interval :: string

record client_transport_config =
  ct_kind :: string
  ct_udp :: client_udp_transport_config

record client_quic_socket_options =
  co_bind_interface :: string
  co_firewall_mark :: "u32 option"
  co_fd_control_unix_socket :: string

record client_quic_config =
  cq_disable_chrome_parrot :: "bool option"
  cq_init_stream_receive_window :: u64
  cq_max_stream_receive_window :: u64
  cq_init_connection_receive_window :: u64
  cq_max_connection_receive_window :: u64
  cq_max_idle_timeout :: string
  cq_keep_alive_period :: string
  cq_disable_path_mtu_discovery :: bool
  cq_sockopts :: client_quic_socket_options

record socks5_config =
  s5_listen :: string
  s5_username :: string
  s5_password :: string
  s5_disable_udp :: bool

record http_proxy_config =
  hp_listen :: string
  hp_username :: string
  hp_password :: string
  hp_realm :: string

record transparent_tcp_config =
  tt_listen :: string

record transparent_udp_config =
  tu_listen :: string
  tu_timeout :: string

record tun_address_config =
  ta_ipv4 :: string
  ta_ipv6 :: string

record tun_route_config =
  tr_strict :: bool
  tr_ipv4 :: "string list"
  tr_ipv6 :: "string list"
  tr_ipv4_exclude :: "string list"
  tr_ipv6_exclude :: "string list"

record tun_config =
  tc_name :: string
  tc_mtu :: u16
  tc_timeout :: string
  tc_address :: tun_address_config
  tc_route :: "tun_route_config option"

record client_tls =
  cl_sni :: string
  cl_ca :: string
  cl_insecure :: bool
  cl_pin_sha256 :: string
  cl_client_certificate :: string
  cl_client_key :: string
  cl_ech :: string

record client_realm_config =
  cr_stun_servers :: "string list"
  cr_stun_timeout :: string
  cr_punch_timeout :: string
  cr_insecure :: bool
  cr_ip_mode :: string
  cr_port_mapping :: realm_port_mapping_config

record tcp_forwarding =
  tf_listen :: string
  tf_remote :: string

record udp_forwarding =
  uf_listen :: string
  uf_remote :: string
  uf_timeout :: string

record client_config =
  cc_server :: string
  cc_auth :: string
  cc_transport :: client_transport_config
  cc_quic :: client_quic_config
  cc_tls :: client_tls
  cc_realm :: client_realm_config
  cc_bandwidth :: bandwidth
  cc_congestion :: congestion_config
  cc_obfs :: obfs_config
  cc_tcp_forwarding :: "tcp_forwarding list"
  cc_udp_forwarding :: "udp_forwarding list"
  cc_socks5 :: "socks5_config option"
  cc_http :: "http_proxy_config option"
  cc_tcp_redirect :: "transparent_tcp_config option"
  cc_tcp_tproxy :: "transparent_tcp_config option"
  cc_udp_tproxy :: "transparent_udp_config option"
  cc_tun :: "tun_config option"
  cc_fast_open :: bool
  cc_lazy :: bool

record parsed_tun_routes =
  pr_ipv4 :: "(ip_addr \<times> u8) list"
  pr_ipv6 :: "(ip_addr \<times> u8) list"
  pr_ipv4_exclude :: "(ip_addr \<times> u8) list"
  pr_ipv6_exclude :: "(ip_addr \<times> u8) list"

end
