(* ===== verification/Resolver.thy ===== *)
theory Resolver
  imports Acl Config_Types
begin

unbundle bit_operations_syntax

text \<open>
  The resolver of the server (\<open>hysteria/src/resolver.rs\<close>): its configuration, DNS queries and responses, the
  chain of aliases and the exchanges over UDP and streams. Durations, URLs, TLS and the network are parameters.
\<close>

section \<open>Configuration\<close>

record url =
  url_scheme :: string
  url_host :: "string option"
  url_port_or_default :: "u16 option"
  url_path :: string
  url_username :: string
  url_password :: "string option"

text \<open>What the configuration code calls in other libraries; the TLS and HTTPS clients are only built or refused.\<close>

record resolver_env =
  re_authority :: authority_parser
  re_duration :: "string \<Rightarrow> nat option"
  re_url :: "string \<Rightarrow> url option"
  re_valid_host :: "string \<Rightarrow> bool"
  re_tls_client :: "bool \<Rightarrow> cli_error + unit"
  re_https_client :: "resolver_tls_config \<Rightarrow> url \<Rightarrow> cli_error + unit"

datatype resolver =
    SystemResolver
  | UdpResolver string nat
  | TcpResolver string nat
  | TlsResolver string nat string
  | HttpsResolver url

abbreviation (input) DEFAULT_DNS_TIMEOUT :: nat where
  "DEFAULT_DNS_TIMEOUT \<equiv> 2 * 1000000000"

abbreviation (input) parse_timeout :: "('a) resolver_env_scheme \<Rightarrow> string \<Rightarrow> cli_error + nat" where
  "parse_timeout env value \<equiv> (if value = [] then Inr DEFAULT_DNS_TIMEOUT
      else ok_or (cli_error ''invalid resolver timeout: {error}'') (re_duration env value))"

definition dns_address :: "('a) resolver_env_scheme \<Rightarrow> string \<Rightarrow> u16 \<Rightarrow> cli_error + string" where
  "dns_address env value port =
     (if value = [] then Inl (cli_error ''resolver address is required'')
      else case re_authority env value of
        Some (_, Some _) \<Rightarrow> Inr value
      | _ \<Rightarrow> Inr (format_authority value port))"

abbreviation (input) split_host :: "('a) resolver_env_scheme \<Rightarrow> string \<Rightarrow> cli_error + string" where
  "split_host env address \<equiv> (case re_authority env address of
        None \<Rightarrow> Inl (cli_error ''invalid resolver address: {error}'')
      | Some (host, _) \<Rightarrow> Inr host)"

definition resolver_tls :: "('a) resolver_env_scheme \<Rightarrow> resolver_tls_config \<Rightarrow> cli_error + resolver" where
  "resolver_tls env config =
     and_then (dns_address env (rt_addr config) 853) (\<lambda>address.
     and_then (split_host env address) (\<lambda>host.
     let name = (if rt_sni config = [] then host else rt_sni config) in
     and_then (parse_timeout env (rt_timeout config)) (\<lambda>timeout.
     and_then (re_tls_client env (rt_insecure config)) (\<lambda>_.
     Inr (TlsResolver address timeout name)))))"

definition resolver_https :: "('a) resolver_env_scheme \<Rightarrow> resolver_tls_config \<Rightarrow> cli_error + resolver" where
  "resolver_https env config =
     (if rt_addr config = [] then Inl (cli_error ''resolver.https.addr is required'')
      else
        let url_text = (if starts_with (rt_addr config) ''https://'' then rt_addr config
                        else ''https://'' @ rt_addr config @ ''/dns-query'') in
        and_then (ok_or (cli_error ''invalid resolver HTTPS URL: {error}'') (re_url env url_text)) (\<lambda>url.
        let url = (if url_path url = [] \<or> url_path url = ''/'' then url\<lparr>url_path := ''/dns-query''\<rparr> else url) in
        and_then (parse_timeout env (rt_timeout config)) (\<lambda>timeout.
        and_then (if rt_sni config = [] then Inr url
                  else and_then (ok_or (cli_error ''resolver HTTPS URL requires a host'') (url_host url)) (\<lambda>host.
                       case parse_ip host of
                         None \<Rightarrow> Inr url
                       | Some ip \<Rightarrow>
                           if re_valid_host env (rt_sni config) then Inr (url\<lparr>url_host := Some (rt_sni config)\<rparr>)
                           else Inl (cli_error ''invalid resolver HTTPS SNI''))) (\<lambda>url.
        and_then (re_https_client env config url) (\<lambda>_.
        Inr (HttpsResolver url))))))"

definition resolver_build :: "('a) resolver_env_scheme \<Rightarrow> resolver_config \<Rightarrow> cli_error + resolver" where
  "resolver_build env config =
     (let kind = to_ascii_lowercase (trim (rc_kind config)) in
      if kind = [] \<or> kind = ''system'' then Inr SystemResolver
      else if kind = ''udp'' then
        and_then (dns_address env (rp_addr (rc_udp config)) 53) (\<lambda>address.
        and_then (parse_timeout env (rp_timeout (rc_udp config))) (\<lambda>timeout. Inr (UdpResolver address timeout)))
      else if kind = ''tcp'' then
        and_then (dns_address env (rp_addr (rc_tcp config)) 53) (\<lambda>address.
        and_then (parse_timeout env (rp_timeout (rc_tcp config))) (\<lambda>timeout. Inr (TcpResolver address timeout)))
      else if kind = ''tls'' \<or> kind = ''tcp-tls'' then resolver_tls env (rc_tls config)
      else if kind = ''https'' \<or> kind = ''http'' then resolver_https env (rc_https config)
      else Inl (CliError ''unsupported resolver type {kind:?}'' [kind]))"

section \<open>Messages\<close>

record dns_answer =
  da_ip :: "ip_addr option"
  da_cname :: "string option"

abbreviation dns_error :: "string \<Rightarrow> transport_error fault" where
  "dns_error message \<equiv> Err (Protocol message)"

definition read_u16 :: "bytes \<Rightarrow> nat \<Rightarrow> transport_error fault + u16" where
  "read_u16 message offset =
     ok_or (dns_error ''truncated DNS message'') (map_option from_be_bytes (get_range message offset (offset + 2)))"

definition encode_label :: "string \<Rightarrow> transport_error fault + bytes" where
  "encode_label label =
     (if label = [] \<or> 63 < length label then Inl (dns_error ''invalid DNS name'')
      else and_then (ok_or (dns_error ''DNS label is too long'') (try_from_nat (length label))) (\<lambda>n.
        Inr (n # as_bytes label)))"

definition build_query :: "u16 \<Rightarrow> string \<Rightarrow> u16 \<Rightarrow> transport_error fault + bytes" where
  "build_query query_id host qtype =
     and_then (try_map encode_label (split_char (CHR ''.'') (trim_end_matches (CHR ''.'') host))) (\<lambda>labels.
     Inr (be_bytes 2 query_id @ be_bytes 2 (0x0100 :: u16) @ be_bytes 2 (1 :: u16) @ replicate 6 0 @
          concat labels @ [0] @ be_bytes 2 qtype @ be_bytes 2 (1 :: u16)))"

fun read_name_loop :: "nat \<Rightarrow> bytes \<Rightarrow> string list \<Rightarrow> nat \<Rightarrow> nat option \<Rightarrow> transport_error fault + (string \<times> nat)" where
  "read_name_loop 0 message labels offset stop = Inl (dns_error ''DNS compression pointer loop'')"
| "read_name_loop (Suc n) message labels offset stop =
     and_then (ok_or (dns_error ''truncated DNS name'') (get_at message offset)) (\<lambda>len.
     if len = 0 then Inr (join_with ''.'' labels, unwrap_or (offset + 1) stop)
     else if len AND 0xc0 = 0xc0 then
       and_then (ok_or (dns_error ''truncated DNS pointer'') (get_at message (offset + 1))) (\<lambda>second.
       read_name_loop n message labels (push_bit 8 (unat (len AND 0x3f)) OR unat second)
         (Some (unwrap_or (offset + 2) stop)))
     else
       and_then (ok_or (dns_error ''truncated DNS label'') (get_range message (offset + 1) (offset + 1 + unat len))) (\<lambda>label.
       if \<not> utf8_valid label then Inl (dns_error ''invalid DNS label'')
       else read_name_loop n message (labels @ [of_bytes label]) (offset + (unat len + 1)) stop))"

definition read_name :: "bytes \<Rightarrow> nat \<Rightarrow> transport_error fault + (string \<times> nat)" where
  "read_name message start = read_name_loop 128 message [] start None"

definition skip_name :: "bytes \<Rightarrow> nat \<Rightarrow> transport_error fault + nat" where
  "skip_name message offset = and_then (read_name message offset) (\<lambda>(_, stop). Inr stop)"

fun skip_questions :: "nat \<Rightarrow> bytes \<Rightarrow> nat \<Rightarrow> transport_error fault + nat" where
  "skip_questions 0 message offset = Inr offset"
| "skip_questions (Suc n) message offset =
     and_then (skip_name message offset) (\<lambda>stop.
     if length message < stop + 4 then Inl (dns_error ''truncated DNS question'')
     else skip_questions n message (stop + 4))"

definition read_answer ::
  "bytes \<Rightarrow> u16 \<Rightarrow> nat \<Rightarrow> dns_answer \<Rightarrow> transport_error fault + (nat \<times> dns_answer)" where
  "read_answer message qtype start answer =
     and_then (skip_name message start) (\<lambda>offset.
     if length message < offset + 10 then Inl (dns_error ''truncated DNS answer'')
     else
       and_then (read_u16 message offset) (\<lambda>kind.
       and_then (read_u16 message (offset + 8)) (\<lambda>len.
       let len = unat len; data = offset + 10 in
       if length message < data + len then Inl (dns_error ''truncated DNS record'')
       else
         and_then
           (if kind = qtype \<and> qtype = 1 \<and> len = 4 then
              and_then (slice_range message data (data + 4)) (\<lambda>bs. Inr (answer\<lparr>da_ip := Some (V4 (from_be_bytes bs))\<rparr>))
            else if kind = qtype \<and> qtype = 28 \<and> len = 16 then
              and_then (slice_range message data (data + 16)) (\<lambda>bs. Inr (answer\<lparr>da_ip := Some (V6 (from_be_bytes bs))\<rparr>))
            else if kind = 5 then
              and_then (read_name message data) (\<lambda>(name, _). Inr (answer\<lparr>da_cname := Some name\<rparr>))
            else Inr answer) (\<lambda>answer.
         Inr (data + len, answer)))))"

fun read_answers :: "nat \<Rightarrow> bytes \<Rightarrow> u16 \<Rightarrow> nat \<Rightarrow> dns_answer \<Rightarrow> transport_error fault + dns_answer" where
  "read_answers 0 message qtype offset answer = Inr answer"
| "read_answers (Suc n) message qtype offset answer =
     and_then (read_answer message qtype offset answer) (\<lambda>(offset, answer).
     read_answers n message qtype offset answer)"

definition parse_response :: "bytes \<Rightarrow> u16 \<Rightarrow> u16 \<Rightarrow> transport_error fault + dns_answer" where
  "parse_response message query_id qtype =
     (if length message < 12 then Inl (dns_error ''invalid DNS response header'')
      else
        and_then (read_u16 message 0) (\<lambda>response_id.
        and_then (read_u16 message 2) (\<lambda>flags.
        if response_id \<noteq> query_id \<or> flags AND 0x8000 = 0 then Inl (dns_error ''invalid DNS response header'')
        else if flags AND 0x000f \<noteq> 0 then Inl (dns_error ''DNS query returned an error'')
        else
          and_then (read_u16 message 4) (\<lambda>questions.
          and_then (read_u16 message 6) (\<lambda>answers.
          and_then (skip_questions (unat questions) message 12) (\<lambda>offset.
          read_answers (unat answers) message qtype offset \<lparr>da_ip = None, da_cname = None\<rparr>))))))"

section \<open>Lookups\<close>

text \<open>
  \<open>exchange n query\<close> is the outcome of the \<open>n\<close>-th exchange with the server; the identifier of a query is
  taken from a counter that wraps around.
\<close>

fun lookup_loop ::
  "nat \<Rightarrow> (nat \<Rightarrow> bytes \<Rightarrow> transport_error fault + bytes) \<Rightarrow> nat \<Rightarrow> string \<Rightarrow> u16 \<Rightarrow> u16 \<Rightarrow> transport_error fault + ip_addr option" where
  "lookup_loop 0 exchange k current qtype next_id = Inl (dns_error ''DNS CNAME chain is too deep'')"
| "lookup_loop (Suc n) exchange k current qtype next_id =
     and_then (build_query next_id current qtype) (\<lambda>query.
     and_then (exchange k query) (\<lambda>response.
     and_then (parse_response response next_id qtype) (\<lambda>answer.
     if da_ip answer \<noteq> None then Inr (da_ip answer)
     else case da_cname answer of
       None \<Rightarrow> Inr None
     | Some cname \<Rightarrow> lookup_loop n exchange (Suc k) cname qtype (next_id + 1))))"

definition dns_lookup ::
  "(nat \<Rightarrow> bytes \<Rightarrow> transport_error fault + bytes) \<Rightarrow> string \<Rightarrow> u16 \<Rightarrow> u16 \<Rightarrow> transport_error fault + ip_addr option" where
  "dns_lookup exchange host qtype next_id = lookup_loop 16 exchange 0 host qtype next_id"

abbreviation (input) first_of_family :: "(ip_addr \<Rightarrow> bool) \<Rightarrow> socket_addr list \<Rightarrow> ip_addr option" where
  "first_of_family family addresses \<equiv> map_option sa_ip (find (\<lambda>a. family (sa_ip a)) addresses)"

text \<open>Resolving a host: addresses stand for themselves; the two lookups of a DNS server run side by side.\<close>

definition resolve_host ::
  "(string \<Rightarrow> string + socket_addr list) \<Rightarrow> (u16 \<Rightarrow> transport_error fault + ip_addr option) \<Rightarrow> resolver \<Rightarrow> string \<Rightarrow> u16 \<Rightarrow> resolved" where
  "resolve_host system lookup r host port =
     (case parse_ip host of
        Some ip \<Rightarrow>
          if is_ipv4 ip then \<lparr>res_ipv4 = Some ip, res_ipv6 = None\<rparr> else \<lparr>res_ipv4 = None, res_ipv6 = Some ip\<rparr>
      | None \<Rightarrow>
          if r = SystemResolver then
            (case system (format_authority host port) of
               Inl _ \<Rightarrow> \<lparr>res_ipv4 = None, res_ipv6 = None\<rparr>
             | Inr addresses \<Rightarrow>
                 \<lparr>res_ipv4 = first_of_family is_ipv4 addresses,
                  res_ipv6 = first_of_family (\<lambda>ip. \<not> is_ipv4 ip) addresses\<rparr>)
          else \<lparr>res_ipv4 = Option.bind (ok (lookup 1)) (\<lambda>ip. ip),
                res_ipv6 = Option.bind (ok (lookup 28)) (\<lambda>ip. ip)\<rparr>)"

section \<open>Exchanges\<close>

text \<open>What a receive on the UDP socket ends with before its timeout.\<close>

datatype dns_receive = DnsReceived bytes | DnsReceiveFailed string | DnsTimeout

text \<open>Two attempts; the last branch is the \<open>unreachable!\<close> after the loop.\<close>

fun udp_attempts :: "nat list \<Rightarrow> (nat \<Rightarrow> string + unit) \<Rightarrow> (nat \<Rightarrow> dns_receive) \<Rightarrow> transport_error fault + bytes" where
  "udp_attempts [] send receive = Inl Panic"
| "udp_attempts (attempt # attempts) send receive =
     and_then (map_err (\<lambda>e. Err (Io e)) (send attempt)) (\<lambda>_.
     case receive attempt of
       DnsReceived response \<Rightarrow> Inr response
     | DnsReceiveFailed e \<Rightarrow> Inl (Err (Io e))
     | DnsTimeout \<Rightarrow>
         if attempt = 0 then udp_attempts attempts send receive
         else Inl (dns_error ''DNS UDP query timed out''))"

definition exchange_udp ::
  "(string \<Rightarrow> string + socket_addr list) \<Rightarrow> (socket_addr \<Rightarrow> string + unit) \<Rightarrow> (nat \<Rightarrow> string + unit) \<Rightarrow> (nat \<Rightarrow> dns_receive) \<Rightarrow>
     string \<Rightarrow> transport_error fault + bytes" where
  "exchange_udp lookup connect send receive address =
     and_then (map_err (\<lambda>e. Err (Io e)) (lookup address)) (\<lambda>addresses.
     and_then (ok_or (dns_error ''DNS server did not resolve'') (get_at addresses 0)) (\<lambda>target.
     and_then (map_err (\<lambda>e. Err (Io e)) (connect target)) (\<lambda>_.
     udp_attempts [0, 1] send receive)))"

text \<open>Over a stream a message has a length prefix; \<open>incoming\<close> are the bytes the server sends in time.\<close>

definition exchange_stream :: "bytes \<Rightarrow> bytes \<Rightarrow> transport_error fault + (bytes \<times> bytes)" where
  "exchange_stream query incoming =
     and_then (ok_or (dns_error ''DNS query is too large'') (try_from_nat (length query) :: u16 option)) (\<lambda>len.
     and_then (ok_or (Err (Io ''DNS read'')) (get_range incoming 0 2)) (\<lambda>size.
     and_then (ok_or (Err (Io ''DNS read'')) (get_range incoming 2 (2 + unat (from_be_bytes size :: u16)))) (\<lambda>response.
     Inr (be_bytes 2 len @ query, response))))"

section \<open>Absence of panics\<close>

lemma read_u16_no_panic [simp]: "read_u16 message offset \<noteq> Inl Panic"
  by (auto simp: read_u16_def ok_or_def split: option.splits)

lemma ok_or_no_panic [simp]: "ok_or (Err e) x \<noteq> Inl Panic"
  by (auto simp: ok_or_def split: option.splits)

lemma read_name_loop_no_panic [simp]: "read_name_loop n message labels offset stop \<noteq> Inl Panic"
  by (induction n message labels offset stop rule: read_name_loop.induct)
    (auto simp: and_then_eq_Inl split: if_splits)

lemma skip_name_no_panic [simp]: "skip_name message offset \<noteq> Inl Panic"
  by (auto simp: skip_name_def read_name_def and_then_eq_Inl)

lemma skip_questions_no_panic [simp]: "skip_questions n message offset \<noteq> Inl Panic"
  by (induction n message offset rule: skip_questions.induct) (auto simp: and_then_eq_Inl split: if_splits)

lemma read_answer_no_panic [simp]: "read_answer message qtype start answer \<noteq> Inl Panic"
  by (auto simp: read_answer_def Let_def read_name_def and_then_eq_Inl slice_range_def split: if_splits)

lemma read_answers_no_panic [simp]: "read_answers n message qtype offset answer \<noteq> Inl Panic"
  by (induction n message qtype offset answer rule: read_answers.induct) (auto simp: and_then_eq_Inl)

lemma parse_response_no_panic [simp]: "parse_response message query_id qtype \<noteq> Inl Panic"
  by (auto simp: parse_response_def and_then_eq_Inl split: if_splits)

section \<open>Names\<close>

definition label_ok :: "string \<Rightarrow> bool" where
  "label_ok l = (l \<noteq> [] \<and> length l \<le> 63 \<and> (\<forall>c \<in> set l. of_char c < (128 :: nat)))"

definition name_bytes :: "string list \<Rightarrow> bytes" where
  "name_bytes labels = concat (map (\<lambda>l. word_of_nat (length l) # as_bytes l) labels)"

lemma label_lengths:
  assumes "n \<le> 63"
  shows "(word_of_nat n :: u8) AND 0xc0 = 0" and "unat (word_of_nat n :: u8) = n"
proof -
  have "list_all (\<lambda>n. (word_of_nat n :: u8) AND 0xc0 = 0) [0..<64]" by code_simp
  then show "(word_of_nat n :: u8) AND 0xc0 = 0" using assms by (simp add: list_all_iff)
  show "unat (word_of_nat n :: u8) = n" using assms by (simp add: unat_of_nat)
qed

lemma label_utf8: "label_ok l \<Longrightarrow> utf8_valid (as_bytes l)"
  by (rule utf8_valid_ascii)
    (auto simp: label_ok_def as_bytes_def byte_of_char_def word_less_nat_alt unat_of_nat)

lemma read_name_labels:
  assumes "list_all label_ok labels" and "message = pre @ name_bytes labels @ 0 # post" and "length labels < n"
  shows "read_name_loop n message seen (length pre) stop =
     Inr (join_with ''.'' (seen @ labels), unwrap_or (length pre + length (name_bytes labels) + 1) stop)"
  using assms
proof (induction labels arbitrary: pre n seen)
  case Nil
  then obtain n' where "n = Suc n'" by (cases n) auto
  then show ?case using Nil by (simp add: name_bytes_def nth_append)
next
  case (Cons l labels)
  obtain n' where n: "n = Suc n'" using Cons.prems(3) by (cases n) auto
  have l: "length l \<le> 63" "l \<noteq> []" "label_ok l" using Cons.prems(1) by (simp_all add: label_ok_def)
  let ?b = "word_of_nat (length l) :: u8"
  have b: "unat ?b = length l" "?b AND 0xc0 \<noteq> 0xc0" "?b \<noteq> 0"
    using label_lengths [OF l(1)] l(2) by (auto simp: unat_eq_0 [symmetric])
  have m: "message = (pre @ ?b # as_bytes l) @ name_bytes labels @ 0 # post"
    using Cons.prems(2) by (simp add: name_bytes_def)
  have at: "get_at message (length pre) = Some ?b" using m by (simp add: nth_append)
  have range: "get_range message (length pre + 1) (length pre + 1 + unat ?b) = Some (as_bytes l)"
    using m b by (simp add: get_range_def)
  have "read_name_loop n' message (seen @ [l]) (length (pre @ ?b # as_bytes l)) stop =
      Inr (join_with ''.'' ((seen @ [l]) @ labels),
        unwrap_or (length (pre @ ?b # as_bytes l) + length (name_bytes labels) + 1) stop)"
    by (rule Cons.IH) (use Cons.prems m n in simp_all)
  moreover have "length (pre @ ?b # as_bytes l) = length pre + (unat ?b + 1)" using b by simp
  moreover have "length (name_bytes (l # labels)) = length l + 1 + length (name_bytes labels)"
    by (simp add: name_bytes_def)
  ultimately show ?case using n at range b label_utf8 [OF l(3)] by (simp add: of_bytes_as_bytes ac_simps del: get_at_Some)
qed

section \<open>Queries and their answers\<close>

definition query_labels :: "string \<Rightarrow> string list" where
  "query_labels host = split_char (CHR ''.'') (trim_end_matches (CHR ''.'') host)"

definition dns_question :: "string list \<Rightarrow> u16 \<Rightarrow> bytes" where
  "dns_question labels qtype = name_bytes labels @ 0 # be_bytes 2 qtype @ be_bytes 2 (1 :: u16)"

text \<open>What a server sends that knows one address: the query with an answer that points to its question.\<close>

fun address_bytes :: "ip_addr \<Rightarrow> bytes" where
  "address_bytes (V4 a) = be_bytes 4 a"
| "address_bytes (V6 a) = be_bytes 16 a"

fun address_type :: "ip_addr \<Rightarrow> u16" where
  "address_type (V4 _) = 1"
| "address_type (V6 _) = 28"

definition answer_message :: "bytes \<Rightarrow> bytes \<Rightarrow> ip_addr \<Rightarrow> bytes" where
  "answer_message query ttl ip =
     take 2 query @ [0x81, 0x80, 0, 1, 0, 1, 0, 0, 0, 0] @ drop 12 query @
     [0xC0, 0x0C] @ be_bytes 2 (address_type ip) @ [0, 1] @ ttl @
     be_bytes 2 (word_of_nat (length (address_bytes ip)) :: u16) @ address_bytes ip"

lemma encode_label_ok: "encode_label l = Inr bs \<Longrightarrow> l \<noteq> [] \<and> length l \<le> 63 \<and> bs = word_of_nat (length l) # as_bytes l"
  by (auto simp: encode_label_def result_iffs try_from_nat_def split: if_splits)

lemma build_query_shape:
  assumes "build_query query_id host qtype = Inr query" and "\<forall>c \<in> set host. of_char c < (128 :: nat)"
  shows "query = be_bytes 2 query_id @ [1, 0, 0, 1] @ replicate 6 0 @ dns_question (query_labels host) qtype"
    and "list_all label_ok (query_labels host)"
proof -
  obtain bss where bss: "try_map encode_label (query_labels host) = Inr bss"
    and q: "query = be_bytes 2 query_id @ be_bytes 2 (0x0100 :: u16) @ be_bytes 2 (1 :: u16) @ replicate 6 0 @
       concat bss @ [0] @ be_bytes 2 qtype @ be_bytes 2 (1 :: u16)"
    using assms(1) by (auto simp: build_query_def query_labels_def result_iffs)
  have all: "list_all2 (\<lambda>l bs. encode_label l = Inr bs) (query_labels host) bss" using bss by (simp add: try_map_ok)
  then have "bss = map (\<lambda>l. word_of_nat (length l) # as_bytes l) (query_labels host)"
    by (induction rule: list_all2_induct) (auto dest: encode_label_ok)
  moreover have "be_bytes 2 (0x0100 :: u16) = [1, 0]" "be_bytes 2 (1 :: u16) = [0, 1]" by code_simp+
  ultimately show "query = be_bytes 2 query_id @ [1, 0, 0, 1] @ replicate 6 0 @ dns_question (query_labels host) qtype"
    unfolding q by (simp add: dns_question_def name_bytes_def)
  have enc: "\<forall>l \<in> set (query_labels host). \<exists>bs. encode_label l = Inr bs"
    using all by (induction rule: list_all2_induct) auto
  have "label_ok l" if "l \<in> set (query_labels host)" for l
  proof -
    have "set (trim_end_matches (CHR ''.'') host) \<subseteq> set host"
      by (auto simp: trim_end_matches_def dest: set_dropWhileD)
    then have "set l \<subseteq> set host" using split_char_chars that by (fastforce simp: query_labels_def)
    moreover have "l \<noteq> [] \<and> length l \<le> 63"
      using enc that encode_label_ok by blast
    ultimately show ?thesis using assms(2) by (auto simp: label_ok_def)
  qed
  then show "list_all label_ok (query_labels host)" by (simp add: list_all_iff)
qed

lemma read_u16_middle:
  assumes "message = pre @ be_bytes 2 w @ post" and "i = length pre"
  shows "read_u16 message i = Inr (w :: u16)"
  using get_range_middle [OF assms, of "i + 2"] by (simp add: read_u16_def from_be_bytes_id)

lemma pointer_target: "push_bit 8 (unat ((0xC0 :: u8) AND 0x3f)) OR unat (0x0C :: u8) = 12"
  by code_simp

lemma answer_record_type: "address_type ip \<noteq> 5"
  by (cases ip) simp_all

lemma parse_answer_message:
  assumes query: "build_query query_id host (address_type ip) = Inr query"
    and ascii: "\<forall>c \<in> set host. of_char c < (128 :: nat)"
    and short: "length (query_labels host) \<le> 126" and ttl: "length ttl = 4"
  shows "parse_response (answer_message query ttl ip) query_id (address_type ip) =
     Inr \<lparr>da_ip = Some ip, da_cname = None\<rparr>"
proof -
  define q where "q = dns_question (query_labels host) (address_type ip)"
  define h where "h = be_bytes 2 query_id @ [0x81, 0x80, 0, 1, 0, 1, 0, 0, 0, 0 :: u8]"
  define r where "r = be_bytes 2 (address_type ip) @ [0, 1] @ ttl @
     be_bytes 2 (word_of_nat (length (address_bytes ip)) :: u16) @ address_bytes ip"
  define m where "m = answer_message query ttl ip"
  note shape = build_query_shape [OF query ascii]
  have len_h: "length h = 12" by (simp add: h_def)
  have "take 2 query = be_bytes 2 query_id" "drop 12 query = q"
    using shape(1) by (simp_all add: q_def)
  then have m: "m = h @ q @ [0xC0, 0x0C] @ r"
    by (simp add: m_def answer_message_def h_def r_def)
  have name: "read_name_loop n m [] 12 stop =
      Inr (join_with ''.'' (query_labels host), unwrap_or (12 + length (name_bytes (query_labels host)) + 1) stop)"
    if "126 < n" for n stop
    using read_name_labels [OF shape(2), of m h "be_bytes 2 (address_type ip) @ be_bytes 2 (1 :: u16) @ [0xC0, 0x0C] @ r" n "[]" stop]
      that short len_h by (simp add: m q_def dns_question_def)
  have len_q: "length q = length (name_bytes (query_labels host)) + 5" by (simp add: q_def dns_question_def)
  have len_m: "length m = 12 + length q + 2 + length r" by (simp add: m len_h)
  have questions: "skip_questions 1 m 12 = Inr (12 + length q)"
    using len_m len_q by (simp add: skip_name_def read_name_def name)
  have at: "get_at m (12 + length q) = Some 0xC0"
    by (rule get_at_middle [of _ "h @ q" _ "0x0C # r"]) (simp_all add: m len_h)
  have at': "get_at m (12 + length q + 1) = Some 0x0C"
    by (rule get_at_middle [of _ "h @ q @ [0xC0]" _ r]) (simp_all add: m len_h)
  have pointer: "skip_name m (12 + length q) = Inr (12 + length q + 2)"
  proof -
    have "(0xC0 :: u8) AND 0xc0 = 0xc0" by code_simp
    then have "read_name_loop (Suc 127) m [] (12 + length q) None =
        read_name_loop 127 m [] (push_bit 8 (unat ((0xC0 :: u8) AND 0x3f)) OR unat (0x0C :: u8)) (Some (12 + length q + 2))"
      using at at' by (subst read_name_loop.simps(2)) (simp del: get_at_Some)
    moreover have "read_name m (12 + length q) = read_name_loop (Suc 127) m [] (12 + length q) None"
      by (simp add: read_name_def)
    ultimately show ?thesis unfolding pointer_target skip_name_def using name [of 127] by simp
  qed
  have kind: "read_u16 m (12 + length q + 2) = Inr (address_type ip)"
    by (rule read_u16_middle [of _ "h @ q @ [0xC0, 0x0C]"]) (simp_all add: m r_def len_h)
  have size: "read_u16 m (12 + length q + 2 + 8) = Inr (word_of_nat (length (address_bytes ip)))"
    by (rule read_u16_middle [of _ "h @ q @ [0xC0, 0x0C] @ be_bytes 2 (address_type ip) @ [0, 1] @ ttl"])
      (simp_all add: m r_def len_h ttl)
  have len_r: "length r = 10 + length (address_bytes ip)" by (simp add: r_def ttl)
  have data: "drop (12 + length q + 2 + 10) m = address_bytes ip"
    by (simp add: m r_def len_h ttl)
  have answer: "read_answer m (address_type ip) (12 + length q) \<lparr>da_ip = None, da_cname = None\<rparr> =
      Inr (length m, \<lparr>da_ip = Some ip, da_cname = None\<rparr>)"
    using pointer kind size len_r len_m data
    by (cases ip) (simp_all add: read_answer_def Let_def from_be_bytes_be_bytes take_bit_word_eq_self)
  have header: "read_u16 m 0 = Inr query_id" "read_u16 m 2 = Inr 0x8180" "read_u16 m 4 = Inr 1" "read_u16 m 6 = Inr 1"
  proof -
    have b: "be_bytes 2 (0x8180 :: u16) = [0x81, 0x80]" "be_bytes 2 (1 :: u16) = [0, 1]" by code_simp+
    show "read_u16 m 0 = Inr query_id" by (rule read_u16_middle [of _ "[]"]) (simp_all add: m h_def)
    show "read_u16 m 2 = Inr 0x8180"
      by (rule read_u16_middle [of _ "be_bytes 2 query_id"]) (simp_all add: m h_def b)
    show "read_u16 m 4 = Inr 1"
      by (rule read_u16_middle [of _ "be_bytes 2 query_id @ [0x81, 0x80]"]) (simp_all add: m h_def b)
    show "read_u16 m 6 = Inr 1"
      by (rule read_u16_middle [of _ "be_bytes 2 query_id @ [0x81, 0x80, 0, 1]"]) (simp_all add: m h_def b)
  qed
  have "(0x8180 :: u16) AND 0x8000 \<noteq> 0" "(0x8180 :: u16) AND 0x000f = 0" by code_simp+
  then show ?thesis
    unfolding m_def [symmetric] using header questions answer len_m by (simp add: parse_response_def)
qed

section \<open>Properties\<close>

text \<open>
  Reading a DNS response never panics, whatever bytes the server sends: every slice that is taken
  without a check is in range, and following compression pointers ends.
\<close>

lemma dns_parse_no_panic: "parse_response message query_id qtype \<noteq> Inl Panic"
  by simp

text \<open>
  C7: A lookup understands the server: when the query for a host can be built, an answer that repeats
  the question and carries one address record with a compressed name gives that address.
\<close>

theorem dns_lookup_answered:
  assumes "is_ok (build_query next_id host (address_type ip))" and "\<forall>c \<in> set host. of_char c < (128 :: nat)"
    and "length (query_labels host) \<le> 126" and "length ttl = 4"
  shows "dns_lookup (\<lambda>_ query. Inr (answer_message query ttl ip)) host (address_type ip) next_id = Inr (Some ip)"
proof -
  obtain query where q: "build_query next_id host (address_type ip) = Inr query"
    using assms(1) by (auto simp: is_ok_def split: sum.splits)
  have "lookup_loop (Suc 15) (\<lambda>_ query. Inr (answer_message query ttl ip)) 0 host (address_type ip) next_id = Inr (Some ip)"
    using q parse_answer_message [OF q assms(2-4)] by (subst lookup_loop.simps(2)) simp
  then show ?thesis by (simp add: dns_lookup_def)
qed

theorem dns_lookup_answered_witness:
  "dns_lookup (\<lambda>_ query. Inr (answer_message query [0, 0, 1, 0] (V4 0x01020304))) ''www.example.com.'' 1 7 =
     Inr (Some (V4 0x01020304))"
proof -
  have "is_ok (build_query 7 ''www.example.com.'' (address_type (V4 0x01020304)))" by code_simp
  moreover have "\<forall>c \<in> set ''www.example.com.''. of_char c < (128 :: nat)" by simp
  moreover have "length (query_labels ''www.example.com.'') \<le> 126" by code_simp
  ultimately show ?thesis
    using dns_lookup_answered [of 7 "''www.example.com.''" "V4 0x01020304" "[0, 0, 1, 0]"] by simp
qed

end
