(* ===== verification/Byte_Stream.thy ===== *)
theory Byte_Stream
  imports Prelude
begin

text \<open>
  Connections as the programs that read and write them see them: what the peer will still send and what
  has been written so far. Reading past the end is the error of the caller; writing succeeds. The
  operations work on every extension of the record, so that a component can carry more state along.
\<close>

record byte_stream =
  bs_in :: bytes
  bs_out :: bytes

definition read_exact :: "'e \<Rightarrow> nat \<Rightarrow> ('z byte_stream_scheme, 'e, bytes) eff" where
  "read_exact e n s =
     (if n \<le> length (bs_in s) then (Inr (take n (bs_in s)), s\<lparr>bs_in := drop n (bs_in s)\<rparr>)
      else (Inl e, s\<lparr>bs_in := []\<rparr>))"

definition read_byte :: "'e \<Rightarrow> ('z byte_stream_scheme, 'e, u8) eff" where
  "read_byte e = eff_bind (read_exact e 1) (\<lambda>bs. eff_return (bs ! 0))"

definition write_all :: "bytes \<Rightarrow> ('z byte_stream_scheme, 'e, unit) eff" where
  "write_all bs s = (Inr (), s\<lparr>bs_out := bs_out s @ bs\<rparr>)"

definition eff_fail :: "'e \<Rightarrow> ('r, 'e, 'a) eff" where
  "eff_fail e = eff_lift (Inl e)"

lemma read_exact_Inr:
  "read_exact e n s = (Inr bs, s') \<longleftrightarrow>
     (\<exists>rest. bs_in s = bs @ rest \<and> length bs = n \<and> s' = s\<lparr>bs_in := rest\<rparr>)"
proof -
  have "bs_in s = take n (bs_in s) @ drop n (bs_in s)" by simp
  then show ?thesis by (auto simp: read_exact_def min_def simp del: append_take_drop_id)
qed

lemma read_byte_Inr:
  "read_byte e s = (Inr b, s') \<longleftrightarrow> (\<exists>rest. bs_in s = b # rest \<and> s' = s\<lparr>bs_in := rest\<rparr>)"
  by (cases "bs_in s") (auto simp: read_byte_def eff_bind_def eff_return_def read_exact_def)

lemma write_all_Inr: "write_all bs s = (Inr u, s') \<longleftrightarrow> s' = s\<lparr>bs_out := bs_out s @ bs\<rparr>"
  by (auto simp: write_all_def)

lemma eff_fail_Inr [simp]: "eff_fail e s \<noteq> (Inr x, s')"
  by (simp add: eff_fail_def eff_lift_def)

lemmas stream_iffs = eff_iffs read_exact_Inr read_byte_Inr write_all_Inr

end
