(* ===== verification/Outbound.thy ===== *)
theory Outbound
  imports Resolver Byte_Stream
begin

text \<open>
  The outbounds of the server (\<open>hysteria/src/outbound.rs\<close>): validation of their configuration, construction
  of the backends and of the access-control table, the direct outbound with its address families, the
  SOCKS5 and HTTP CONNECT outbounds as exchanges of bytes, and the speed test. Sockets, TLS, URLs, the file
  system and base64 are parameters.
\<close>

section \<open>Configuration\<close>

record outbound_env = resolver_env +
  oe_regex_ok :: "string \<Rightarrow> bool"
  oe_read_file :: "string \<Rightarrow> cli_error + string"
  oe_device :: "string \<Rightarrow> cli_error + unit"
  oe_fast_open :: bool
  oe_read_geoip :: "string \<Rightarrow> nat \<Rightarrow> cli_error + (string \<times> geo_ip) list"
  oe_read_geosite :: "string \<Rightarrow> nat \<Rightarrow> cli_error + (string \<times> site_domain list) list"
  oe_base64 :: "string \<Rightarrow> string"

definition parse_ipv4 :: "string \<Rightarrow> u32 option" where
  "parse_ipv4 s = (if 15 < length s then None else whole (read_ipv4 s))"

definition parse_ipv6 :: "string \<Rightarrow> u128 option" where
  "parse_ipv6 s = whole (read_ipv6 s)"

abbreviation (input) direct_modes :: "string list" where
  "direct_modes \<equiv> ['''', ''auto'', ''64'', ''46'', ''6'', ''4'']"

definition validate_direct :: "'a outbound_env_scheme \<Rightarrow> direct_outbound_config \<Rightarrow> cli_error + unit" where
  "validate_direct env direct =
     and_then (ensure (to_ascii_lowercase (trim (dc_mode direct)) \<in> set direct_modes)
       (cli_error ''unsupported direct mode; supported modes: auto, 64, 46, 6, 4'')) (\<lambda>_.
     and_then (ensure (dc_bind_ipv4 direct = [] \<or> parse_ipv4 (dc_bind_ipv4 direct) \<noteq> None)
       (cli_error ''direct.bindIPv4 must be an IPv4 address'')) (\<lambda>_.
     and_then (ensure (dc_bind_ipv6 direct = [] \<or> parse_ipv6 (dc_bind_ipv6 direct) \<noteq> None)
       (cli_error ''direct.bindIPv6 must be an IPv6 address'')) (\<lambda>_.
     and_then (ensure (\<not> ((dc_bind_ipv4 direct \<noteq> [] \<or> dc_bind_ipv6 direct \<noteq> []) \<and> dc_bind_device direct \<noteq> []))
       (cli_error ''direct outbound cannot bind both IP and device'')) (\<lambda>_.
     and_then (if dc_bind_device direct \<noteq> [] then oe_device env (dc_bind_device direct) else Inr ()) (\<lambda>_.
     ensure (\<not> (dc_fast_open direct \<and> \<not> oe_fast_open env))
       (cli_error ''direct.fastOpen is not supported on this platform''))))))"

definition validate_socks5 :: "'a outbound_env_scheme \<Rightarrow> socks5_outbound_config \<Rightarrow> cli_error + unit" where
  "validate_socks5 env config =
     and_then (map_err (\<lambda>message. cli_error message) (parse_host_port (re_authority env) (so_addr config))) (\<lambda>_.
     and_then (ensure ((so_username config = []) = (so_password config = []))
       (cli_error ''SOCKS5 outbound username and password must be configured together'')) (\<lambda>_.
     ensure (length (so_username config) \<le> 255 \<and> length (so_password config) \<le> 255)
       (cli_error ''SOCKS5 outbound credentials cannot exceed 255 bytes'')))"

definition validate_http :: "'a outbound_env_scheme \<Rightarrow> http_outbound_config \<Rightarrow> cli_error + unit" where
  "validate_http env config =
     and_then (ok_or (cli_error ''invalid outbound HTTP URL: {error}'') (re_url env (ho_url config))) (\<lambda>url.
     and_then (ensure (url_scheme url = ''http'' \<or> url_scheme url = ''https'')
       (cli_error ''outbound HTTP URL scheme must be http or https'')) (\<lambda>_.
     ensure (url_host url \<noteq> None) (cli_error ''outbound HTTP URL requires a host'')))"

definition validate_outbound :: "'a outbound_env_scheme \<Rightarrow> outbound_config \<Rightarrow> cli_error + unit" where
  "validate_outbound env config =
     (let kind = to_ascii_lowercase (trim (oc_kind config)) in
      if kind = ''direct'' then validate_direct env (oc_direct config)
      else if kind = ''socks5'' then validate_socks5 env (oc_socks5 config)
      else if kind = ''http'' \<or> kind = ''https'' then validate_http env (oc_http config)
      else Inl (CliError ''unsupported outbound type {kind:?}; supported types: direct, socks5, http'' [kind]))"

text \<open>The loop over the outbounds with the names seen so far.\<close>

fun validate_outbounds :: "'a outbound_env_scheme \<Rightarrow> string set \<Rightarrow> outbound_config list \<Rightarrow> cli_error + unit" where
  "validate_outbounds env names [] = Inr ()"
| "validate_outbounds env names (config # configs) =
     and_then (ensure (oc_name config \<noteq> []) (cli_error ''outbound name cannot be empty'')) (\<lambda>_.
     let name = to_ascii_lowercase (oc_name config) in
     and_then (ensure (name \<notin> names) (CliError ''duplicate outbound name {:?}'' [oc_name config])) (\<lambda>_.
     and_then (validate_outbound env config) (\<lambda>_.
     validate_outbounds env (insert name names) configs)))"

abbreviation (input) acl_text :: "'a outbound_env_scheme \<Rightarrow> acl_config \<Rightarrow> cli_error + string" where
  "acl_text env config \<equiv> (if ac_file config = [] then Inr (join_with [CHR 0x0A] (ac_inline config)) else oe_read_file env (ac_file config))"

abbreviation (input) has_acl :: "acl_config \<Rightarrow> bool" where
  "has_acl acl \<equiv> (ac_file acl \<noteq> [] \<or> ac_inline acl \<noteq> [])"

definition route_names :: "outbound_config list \<Rightarrow> string set" where
  "route_names configs = (\<lambda>entry. to_ascii_lowercase (oc_name entry)) ` set configs \<union> {''direct'', ''reject'', ''default''}"

definition validate_routes ::
  "'a outbound_env_scheme \<Rightarrow> outbound_config list \<Rightarrow> acl_config \<Rightarrow> resolver_config \<Rightarrow> cli_error fault + unit" where
  "validate_routes env configs acl resolver =
     and_then (map_err Err (ensure (\<not> (ac_file acl \<noteq> [] \<and> ac_inline acl \<noteq> []))
       (cli_error ''acl.file and acl.inline cannot both be set''))) (\<lambda>_.
     and_then (map_err Err (resolver_build env resolver)) (\<lambda>_.
     if has_acl acl then
       and_then (map_err Err (acl_text env acl)) (\<lambda>text. validate_acl (oe_regex_ok env) text (route_names configs))
     else Inr ()))"

definition outbound_validate ::
  "'a outbound_env_scheme \<Rightarrow> outbound_config list \<Rightarrow> acl_config \<Rightarrow> resolver_config \<Rightarrow> cli_error fault + unit" where
  "outbound_validate env configs acl resolver =
     and_then (map_err Err (validate_outbounds env {} configs)) (\<lambda>_. validate_routes env configs acl resolver)"

section \<open>Construction\<close>

datatype direct_mode = Auto | Prefer6 | Prefer4 | Only6 | Only4

record configurable_direct =
  cd_mode :: direct_mode
  cd_bind_v4 :: "u32 option"
  cd_bind_v6 :: "u128 option"
  cd_bind_device :: string
  cd_fast_open :: bool

record socks5_outbound =
  sx_proxy :: string
  sx_username :: string
  sx_password :: string

record http_connect_outbound =
  hx_proxy_address :: string
  hx_server_name :: string
  hx_tls :: bool
  hx_authorization :: "string option"

datatype backend =
    DirectBackend configurable_direct
  | Socks5Backend socks5_outbound
  | HttpBackend http_connect_outbound
  | RejectBackend

abbreviation (input) new_default :: configurable_direct where
  "new_default \<equiv> \<lparr>cd_mode = Auto, cd_bind_v4 = None, cd_bind_v6 = None, cd_bind_device = [], cd_fast_open = False\<rparr>"

definition configurable_direct_new :: "direct_outbound_config \<Rightarrow> cli_error fault + configurable_direct" where
  "configurable_direct_new config =
     (let mode = to_ascii_lowercase (trim (dc_mode config)) in
      and_then (if mode = [] \<or> mode = ''auto'' then Inr Auto
                else if mode = ''64'' then Inr Prefer6
                else if mode = ''46'' then Inr Prefer4
                else if mode = ''6'' then Inr Only6
                else if mode = ''4'' then Inr Only4
                else Inl Panic) (\<lambda>mode.
      and_then (if dc_bind_ipv4 config = [] then Inr None
                else map_err Err (and_then (ok_or (cli_error ''direct.bindIPv4 must be an IPv4 address'')
                  (parse_ipv4 (dc_bind_ipv4 config))) (\<lambda>ip. Inr (Some ip)))) (\<lambda>bind_v4.
      and_then (if dc_bind_ipv6 config = [] then Inr None
                else map_err Err (and_then (ok_or (cli_error ''direct.bindIPv6 must be an IPv6 address'')
                  (parse_ipv6 (dc_bind_ipv6 config))) (\<lambda>ip. Inr (Some ip)))) (\<lambda>bind_v6.
      Inr \<lparr>cd_mode = mode, cd_bind_v4 = bind_v4, cd_bind_v6 = bind_v6,
           cd_bind_device = dc_bind_device config, cd_fast_open = dc_fast_open config\<rparr>))))"

abbreviation (input) socks5_outbound_new :: "socks5_outbound_config \<Rightarrow> socks5_outbound" where
  "socks5_outbound_new config \<equiv> \<lparr>sx_proxy = so_addr config, sx_username = so_username config, sx_password = so_password config\<rparr>"

definition http_connect_new :: "'a outbound_env_scheme \<Rightarrow> http_outbound_config \<Rightarrow> cli_error + http_connect_outbound" where
  "http_connect_new env config =
     and_then (ok_or (cli_error ''invalid outbound HTTP URL: {error}'') (re_url env (ho_url config))) (\<lambda>url.
     and_then (ok_or (cli_error ''outbound HTTP URL requires a host'') (url_host url)) (\<lambda>server_name.
     and_then (ok_or (cli_error ''outbound HTTP URL requires a port'') (url_port_or_default url)) (\<lambda>port.
     and_then (if url_scheme url = ''https'' then and_then (re_tls_client env (ho_insecure config)) (\<lambda>_. Inr True)
               else Inr False) (\<lambda>tls.
     Inr \<lparr>hx_proxy_address = format_authority server_name port, hx_server_name = server_name, hx_tls = tls,
          hx_authorization =
            (if url_username url = [] then None
             else Some (oe_base64 env (url_username url @ '':'' @ unwrap_or [] (url_password url))))\<rparr>))))"

definition build_backend :: "'a outbound_env_scheme \<Rightarrow> outbound_config option \<Rightarrow> cli_error fault + backend" where
  "build_backend env entry =
     (case entry of
        None \<Rightarrow> Inr (DirectBackend new_default)
      | Some config \<Rightarrow>
          let kind = to_ascii_lowercase (trim (oc_kind config)) in
          if kind = ''direct'' then
            and_then (configurable_direct_new (oc_direct config)) (\<lambda>direct. Inr (DirectBackend direct))
          else if kind = ''socks5'' then Inr (Socks5Backend (socks5_outbound_new (oc_socks5 config)))
          else if kind = ''http'' \<or> kind = ''https'' then
            and_then (map_err Err (http_connect_new env (oc_http config))) (\<lambda>http. Inr (HttpBackend http))
          else Inl Panic)"

definition or_insert :: "'k \<Rightarrow> 'v \<Rightarrow> ('k, 'v) hmap \<Rightarrow> ('k, 'v) hmap" where
  "or_insert k v m = (if hm_get m k = None then hm_insert k v m else m)"

fun build_backends :: "'a outbound_env_scheme \<Rightarrow> outbound_config list \<Rightarrow> (string, backend) hmap \<Rightarrow> cli_error fault + (string, backend) hmap" where
  "build_backends env [] outbounds = Inr outbounds"
| "build_backends env (config # configs) outbounds =
     and_then (build_backend env (Some config)) (\<lambda>backend.
     build_backends env configs (hm_insert (to_ascii_lowercase (oc_name config)) backend outbounds))"

definition build_acl ::
  "'a outbound_env_scheme \<Rightarrow> outbound_config list \<Rightarrow> acl_config \<Rightarrow> cli_error fault + backend acl_outbound" where
  "build_acl env configs acl =
     and_then (build_backends env configs []) (\<lambda>outbounds.
     let direct = DirectBackend new_default;
         outbounds = or_insert ''reject'' RejectBackend (or_insert ''direct'' direct outbounds);
         fallback = (case hm_get outbounds ''default'' of
                       Some b \<Rightarrow> b
                     | None \<Rightarrow>
                        (case configs of
                           [] \<Rightarrow> direct
                         | entry # _ \<Rightarrow> unwrap_or direct (hm_get outbounds (to_ascii_lowercase (oc_name entry)))));
         outbounds = or_insert ''default'' fallback outbounds in
     and_then (map_err Err (acl_text env acl)) (\<lambda>text.
     and_then (map_err Err (geo_load (re_duration env) (ac_geo_update_interval acl)
         (oe_read_geoip env (ac_geoip acl)) (oe_read_geosite env (ac_geosite acl)) text)) (\<lambda>geo.
     and_then (parse_acl (oe_regex_ok env) text outbounds (Some geo)) (\<lambda>rules.
     Inr \<lparr>ao_rules = rules, ao_default = fallback\<rparr>))))"

datatype server_route = BackendRoute backend | AclRoute "backend acl_outbound"

definition outbound_build ::
  "'a outbound_env_scheme \<Rightarrow> outbound_config list \<Rightarrow> acl_config \<Rightarrow> resolver_config \<Rightarrow> cli_error fault + server_route" where
  "outbound_build env configs acl resolver =
     and_then (outbound_validate env configs acl resolver) (\<lambda>_.
     and_then (map_err Err (resolver_build env resolver)) (\<lambda>_.
     if has_acl acl then and_then (build_acl env configs acl) (\<lambda>routes. Inr (AclRoute routes))
     else and_then (build_backend env (get_at configs 0)) (\<lambda>backend. Inr (BackendRoute backend))))"

section \<open>The direct outbound\<close>

definition direct_resolve ::
  "authority_parser \<Rightarrow> (string \<Rightarrow> u16 \<Rightarrow> resolved) \<Rightarrow> string \<Rightarrow> transport_error + (socket_addr option \<times> socket_addr option)" where
  "direct_resolve authority resolve address =
     and_then (map_err Protocol (parse_host_port authority address)) (\<lambda>(host, port).
     let found = resolve host port;
         ipv4 = map_option (\<lambda>ip. SocketAddr ip port) (res_ipv4 found);
         ipv6 = map_option (\<lambda>ip. SocketAddr ip port) (res_ipv6 found) in
     if ipv4 = None \<and> ipv6 = None then Inl (Protocol ''no IPv4 or IPv6 address available'')
     else Inr (ipv4, ipv6))"

definition option_or :: "'a option \<Rightarrow> 'a option \<Rightarrow> 'a option" where
  "option_or x y = (case x of None \<Rightarrow> y | Some _ \<Rightarrow> x)"

fun choose_udp_family :: "direct_mode \<Rightarrow> socket_addr option \<Rightarrow> socket_addr option \<Rightarrow> transport_error + bool" where
  "choose_udp_family mode ipv4 ipv6 =
     ok_or (Protocol ''no address available for direct outbound mode'')
       (case mode of
          Auto \<Rightarrow> option_or (map_option (\<lambda>_. True) ipv4) (map_option (\<lambda>_. False) ipv6)
        | Prefer4 \<Rightarrow> option_or (map_option (\<lambda>_. True) ipv4) (map_option (\<lambda>_. False) ipv6)
        | Prefer6 \<Rightarrow> option_or (map_option (\<lambda>_. False) ipv6) (map_option (\<lambda>_. True) ipv4)
        | Only4 \<Rightarrow> map_option (\<lambda>_. True) ipv4
        | Only6 \<Rightarrow> map_option (\<lambda>_. False) ipv6)"

text \<open>
  Dialling: \<open>dial\<close> is the outcome of a connection attempt and \<open>v4_first\<close> tells which of two attempts that
  run side by side finishes first.
\<close>

definition direct_tcp ::
  "(socket_addr \<Rightarrow> transport_error + 's) \<Rightarrow> bool \<Rightarrow> direct_mode \<Rightarrow> socket_addr option \<Rightarrow> socket_addr option \<Rightarrow> transport_error + 's" where
  "direct_tcp dial v4_first mode ipv4 ipv6 =
     (case mode of
        Auto \<Rightarrow>
          (case (ipv4, ipv6) of
             (Some a4, Some a6) \<Rightarrow>
               (let (first, second) = (if v4_first then (dial a4, dial a6) else (dial a6, dial a4)) in
                case first of Inr stream \<Rightarrow> Inr stream | Inl _ \<Rightarrow> second)
           | _ \<Rightarrow> and_then (ok_or (Protocol ''no address available'') (option_or ipv4 ipv6)) dial)
      | Prefer4 \<Rightarrow> and_then (ok_or (Protocol ''no address available'') (option_or ipv4 ipv6)) dial
      | Prefer6 \<Rightarrow> and_then (ok_or (Protocol ''no address available'') (option_or ipv6 ipv4)) dial
      | Only4 \<Rightarrow> and_then (ok_or (Protocol ''no IPv4 address available'') ipv4) dial
      | Only6 \<Rightarrow> and_then (ok_or (Protocol ''no IPv6 address available'') ipv6) dial)"

text \<open>The sockets of a UDP association; \<open>bind\<close> is the outcome of binding and selecting the device.\<close>

record 'k direct_udp =
  du_mode :: direct_mode
  du_v4 :: "'k option"
  du_v6 :: "'k option"

definition direct_udp_open ::
  "(ip_addr \<Rightarrow> transport_error + 'k) \<Rightarrow> configurable_direct \<Rightarrow> socket_addr option \<Rightarrow> socket_addr option \<Rightarrow> transport_error + 'k direct_udp" where
  "direct_udp_open bind d ipv4 ipv6 =
     (let has_bind = (cd_bind_v4 d \<noteq> None \<or> cd_bind_v6 d \<noteq> None) in
      and_then (if has_bind then and_then (choose_udp_family (cd_mode d) ipv4 ipv6) (\<lambda>f. Inr (Some f)) else Inr None) (\<lambda>locked_family.
      let want_v4 = (locked_family \<noteq> Some False \<and> cd_mode d \<noteq> Only6);
          want_v6 = (locked_family \<noteq> Some True \<and> cd_mode d \<noteq> Only4);
          v4 = (if want_v4 then and_then (bind (V4 (unwrap_or 0 (cd_bind_v4 d)))) (\<lambda>k. Inr (Some k)) else Inr None);
          v6 = (if want_v6 then and_then (bind (V6 (unwrap_or 0 (cd_bind_v6 d)))) (\<lambda>k. Inr (Some k)) else Inr None) in
      and_then (case (v4, v6) of
                  (Inr k4, Inr k6) \<Rightarrow> Inr (k4, k6)
                | (Inr (Some k4), Inl e) \<Rightarrow> if cd_bind_v6 d = None then Inr (Some k4, None) else Inl e
                | (Inl e, Inr (Some k6)) \<Rightarrow> if cd_bind_v4 d = None then Inr (None, Some k6) else Inl e
                | (Inl e, _) \<Rightarrow> Inl e
                | (_, Inl e) \<Rightarrow> Inl e) (\<lambda>(k4, k6).
      if k4 = None \<and> k6 = None then Inl (Protocol ''direct UDP socket has no address family'')
      else Inr \<lparr>du_mode = cd_mode d, du_v4 = k4, du_v6 = k6\<rparr>)))"

fun first_usable :: "'k direct_udp \<Rightarrow> socket_addr list \<Rightarrow> ('k \<times> socket_addr) option" where
  "first_usable u [] = None"
| "first_usable u (target # targets) =
     (case (if is_ipv4 (sa_ip target) then du_v4 u else du_v6 u) of
        Some socket \<Rightarrow> Some (socket, target)
      | None \<Rightarrow> first_usable u targets)"

definition direct_send_to ::
  "authority_parser \<Rightarrow> (string \<Rightarrow> u16 \<Rightarrow> resolved) \<Rightarrow> 'k direct_udp \<Rightarrow> string \<Rightarrow> transport_error + ('k \<times> socket_addr)" where
  "direct_send_to authority resolve u address =
     and_then (map_err Protocol (parse_host_port authority address)) (\<lambda>(host, port).
     let found = resolve host port;
         ipv4 = map_option (\<lambda>ip. SocketAddr ip port) (res_ipv4 found);
         ipv6 = map_option (\<lambda>ip. SocketAddr ip port) (res_ipv6 found);
         choices = (case du_mode u of Auto \<Rightarrow> [ipv4, ipv6] | Prefer4 \<Rightarrow> [ipv4, ipv6] | Prefer6 \<Rightarrow> [ipv6, ipv4]
                    | Only4 \<Rightarrow> [ipv4, None] | Only6 \<Rightarrow> [ipv6, None]) in
     ok_or (Protocol ''no address available for UDP socket family'') (first_usable u (flatten choices)))"

section \<open>The SOCKS5 outbound\<close>

abbreviation (input) u8_len :: "nat \<Rightarrow> transport_error + u8" where
  "u8_len n \<equiv> ok_or (Protocol ''SOCKS5 field exceeds 255 bytes'') (try_from_nat n)"

definition encode_address :: "authority_parser \<Rightarrow> string \<Rightarrow> transport_error + bytes" where
  "encode_address authority address =
     and_then (map_err Protocol (parse_host_port authority address)) (\<lambda>(host, port).
     and_then (case parse_ip host of
                 Some (V4 ip) \<Rightarrow> Inr (1 # be_bytes 4 ip)
               | Some (V6 ip) \<Rightarrow> Inr (4 # be_bytes 16 ip)
               | None \<Rightarrow> and_then (u8_len (length host)) (\<lambda>n. Inr (3 # n # as_bytes host))) (\<lambda>encoded.
     Inr (encoded @ be_bytes 2 port)))"

definition decode_address :: "bytes \<Rightarrow> nat \<Rightarrow> transport_error + (string \<times> nat)" where
  "decode_address packet offset =
     and_then (ok_or (Protocol ''truncated SOCKS5 address'') (get_at packet offset)) (\<lambda>atyp.
     and_then
       (if atyp = 1 then
          and_then (ok_or (Protocol ''truncated SOCKS5 IPv4 address'') (get_range packet (offset + 1) (offset + 5))) (\<lambda>octets.
          Inr (ip_display (V4 (from_be_bytes octets)), offset + 5))
        else if atyp = 4 then
          and_then (ok_or (Protocol ''truncated SOCKS5 IPv6 address'') (get_range packet (offset + 1) (offset + 17))) (\<lambda>octets.
          Inr (ip_display (V6 (from_be_bytes octets)), offset + 17))
        else if atyp = 3 then
          and_then (ok_or (Protocol ''truncated SOCKS5 domain length'') (get_at packet (offset + 1))) (\<lambda>n.
          and_then (ok_or (Protocol ''truncated SOCKS5 domain'') (get_range packet (offset + 2) (offset + 2 + unat n))) (\<lambda>host.
          if utf8_valid host then Inr (of_bytes host, offset + 2 + unat n) else Inl (Protocol ''invalid SOCKS5 domain'')))
        else Inl (Protocol ''invalid SOCKS5 address type'')) (\<lambda>(host, port_offset).
     and_then (ok_or (Protocol ''truncated SOCKS5 port'') (get_range packet port_offset (port_offset + 2))) (\<lambda>port_bytes.
     Inr (format_authority host (from_be_bytes port_bytes), port_offset + 2))))"

abbreviation io_eof :: transport_error where
  "io_eof \<equiv> Io ''early eof''"

definition socks5_connected :: "socks5_outbound \<Rightarrow> (byte_stream, transport_error, unit) eff" where
  "socks5_connected o5 =
     (let username = as_bytes (sx_username o5); password = as_bytes (sx_password o5);
          methods = (if username = [] then [0] else [0, 2]) in
      eff_bind (eff_lift (u8_len (length methods))) (\<lambda>n.
      eff_bind (write_all [5, n]) (\<lambda>_.
      eff_bind (write_all methods) (\<lambda>_.
      eff_bind (read_exact io_eof 2) (\<lambda>selection.
      if selection ! 0 \<noteq> 5 then eff_fail (Protocol ''invalid SOCKS5 negotiation version'')
      else if selection ! 1 = 0 then eff_return ()
      else if selection ! 1 = 2 \<and> username \<noteq> [] then
        eff_bind (eff_lift (u8_len (length username))) (\<lambda>un.
        eff_bind (eff_lift (u8_len (length password))) (\<lambda>pn.
        eff_bind (write_all ([1, un] @ username @ [pn] @ password)) (\<lambda>_.
        eff_bind (read_exact io_eof 2) (\<lambda>response.
        if response \<noteq> [1, 0] then eff_fail (Protocol ''SOCKS5 authentication failed'') else eff_return ()))))
      else if selection ! 1 = 0xff then eff_fail (Protocol ''SOCKS5 proxy rejected authentication methods'')
      else eff_fail (Protocol ''SOCKS5 proxy selected unsupported method {method}''))))))"

definition read_socks_reply :: "(byte_stream, transport_error, string) eff" where
  "read_socks_reply =
     eff_bind (read_exact io_eof 4) (\<lambda>header.
     if header ! 0 \<noteq> 5 \<or> header ! 2 \<noteq> 0 then eff_fail (Protocol ''invalid SOCKS5 reply'')
     else if header ! 1 \<noteq> 0 then eff_fail (Protocol (''SOCKS5 request failed with reply '' @ uint_string (header ! 1)))
     else
       eff_bind
         (if header ! 3 = 1 then
            eff_bind (read_exact io_eof 4) (\<lambda>octets. eff_return (ip_display (V4 (from_be_bytes octets))))
          else if header ! 3 = 4 then
            eff_bind (read_exact io_eof 16) (\<lambda>octets. eff_return (ip_display (V6 (from_be_bytes octets))))
          else if header ! 3 = 3 then
            eff_bind (read_byte io_eof) (\<lambda>n.
            eff_bind (read_exact io_eof (unat n)) (\<lambda>host.
            if utf8_valid host then eff_return (of_bytes host) else eff_fail (Protocol ''invalid SOCKS5 reply host'')))
          else eff_fail (Protocol (''invalid SOCKS5 address type '' @ uint_string (header ! 3)))) (\<lambda>host.
       eff_bind (read_exact io_eof 2) (\<lambda>port.
       eff_return (format_authority host (from_be_bytes port)))))"

definition socks5_command :: "authority_parser \<Rightarrow> socks5_outbound \<Rightarrow> u8 \<Rightarrow> string \<Rightarrow> (byte_stream, transport_error, string) eff" where
  "socks5_command authority o5 command address =
     eff_bind (socks5_connected o5) (\<lambda>_.
     eff_bind (eff_lift (encode_address authority address)) (\<lambda>encoded.
     eff_bind (write_all ([5, command, 0] @ encoded)) (\<lambda>_. read_socks_reply)))"

definition socks5_udp_packet :: "authority_parser \<Rightarrow> bytes \<Rightarrow> string \<Rightarrow> transport_error + bytes" where
  "socks5_udp_packet authority data address =
     and_then (encode_address authority address) (\<lambda>encoded. Inr ([0, 0, 0] @ encoded @ data))"

text \<open>\<open>buffer\<close> is the size of the buffer of the caller.\<close>

definition socks5_udp_unpack :: "nat \<Rightarrow> bytes \<Rightarrow> transport_error + (bytes \<times> string)" where
  "socks5_udp_unpack buffer packet =
     (if length packet < 4 \<or> take 3 packet \<noteq> [0, 0, 0] then Inl (Protocol ''invalid SOCKS5 UDP header'')
      else
        and_then (decode_address packet 3) (\<lambda>(address, offset).
        and_then (ok_or (Protocol ''truncated SOCKS5 UDP packet'')
            (if offset \<le> length packet then Some (drop offset packet) else None)) (\<lambda>payload.
        if buffer < length payload then Inl (Protocol ''SOCKS5 UDP packet exceeds receive buffer'')
        else Inr (payload, address))))"

text \<open>The relay that the proxy names; an unspecified address means the address of the proxy itself.\<close>

fun is_unspecified :: "ip_addr \<Rightarrow> bool" where
  "is_unspecified (V4 a) = (a = 0)"
| "is_unspecified (V6 a) = (a = 0)"

definition socks5_udp_relay ::
  "(string \<Rightarrow> string + socket_addr list) \<Rightarrow> string + ip_addr \<Rightarrow> string \<Rightarrow> transport_error + socket_addr" where
  "socks5_udp_relay lookup peer relay =
     and_then (map_err Io (lookup relay)) (\<lambda>addresses.
     and_then (ok_or (Protocol ''SOCKS5 UDP relay address did not resolve'') (get_at addresses 0)) (\<lambda>target.
     if is_unspecified (sa_ip target)
     then and_then (map_err Io peer) (\<lambda>ip. Inr (SocketAddr ip (sa_port target)))
     else Inr target))"

section \<open>The HTTP CONNECT outbound\<close>

abbreviation (input) MAX_CONNECT_HEADER :: nat where
  "MAX_CONNECT_HEADER \<equiv> 64 * 1024"

definition crlf :: string where
  "crlf = [CHR 0x0D, CHR 0x0A]"

definition connect_request :: "http_connect_outbound \<Rightarrow> string \<Rightarrow> string" where
  "connect_request hx target =
     ''CONNECT '' @ target @ '' HTTP/1.1'' @ crlf @ ''Host: '' @ target @ crlf @ ''Proxy-Connection: Keep-Alive'' @ crlf @
     (case hx_authorization hx of None \<Rightarrow> [] | Some authorization \<Rightarrow> ''Proxy-Authorization: Basic '' @ authorization @ crlf) @
     crlf"

function read_header_loop :: "bytes \<Rightarrow> (byte_stream, transport_error, bytes) eff" where
  "read_header_loop header s =
     (if length header < MAX_CONNECT_HEADER then
        (case read_byte io_eof s of
           (Inl e, s') \<Rightarrow> (Inl e, s')
         | (Inr byte, s') \<Rightarrow>
             if take 4 (rev (header @ [byte])) = [0x0A, 0x0D, 0x0A, 0x0D] then (Inr (header @ [byte]), s')
             else read_header_loop (header @ [byte]) s')
      else (Inl (Protocol ''HTTP proxy response headers are too large''), s))"
  by pat_completeness auto
termination
  by (relation "measure (\<lambda>(header, s). MAX_CONNECT_HEADER - length header)") auto

declare read_header_loop.simps [simp del]

abbreviation (input) read_http_header :: "(byte_stream, transport_error, bytes) eff" where
  "read_http_header \<equiv> read_header_loop []"

definition parse_connect_status :: "bytes \<Rightarrow> transport_error + u16" where
  "parse_connect_status header =
     (let line = takeWhile (\<lambda>byte. byte \<noteq> 0x0A) header in
      if \<not> utf8_valid line then Inl (Protocol ''HTTP proxy response is not UTF-8'')
      else case split_ascii_whitespace (of_bytes line) of
        [] \<Rightarrow> Inl (Protocol ''invalid HTTP proxy status line'')
      | version # rest \<Rightarrow>
          if \<not> starts_with version ''HTTP/'' then Inl (Protocol ''invalid HTTP proxy status line'')
          else (case rest of
            [] \<Rightarrow> Inl (Protocol ''HTTP proxy status is missing'')
          | status # _ \<Rightarrow> ok_or (Protocol ''invalid HTTP proxy status'') (parse_u16 status)))"

definition http_connect :: "http_connect_outbound \<Rightarrow> string \<Rightarrow> (byte_stream, transport_error, unit) eff" where
  "http_connect hx target =
     eff_bind (write_all (as_bytes (connect_request hx target))) (\<lambda>_.
     eff_bind read_http_header (\<lambda>header.
     eff_bind (eff_lift (parse_connect_status header)) (\<lambda>status.
     if 200 \<le> status \<and> status < 300 then eff_return ()
     else eff_fail (Protocol (''HTTP proxy CONNECT returned status '' @ uint_string status)))))"

abbreviation (input) http_udp :: "transport_error + 'u" where
  "http_udp \<equiv> Inl (Protocol ''UDP is not supported by HTTP proxy outbounds'')"

section \<open>The speed test\<close>

abbreviation (input) SPEED_TEST_DESTINATION :: string where
  "SPEED_TEST_DESTINATION \<equiv> ''@SpeedTest:0''"

abbreviation (input) SPEED_TEST_CHUNK_SIZE :: nat where
  "SPEED_TEST_CHUNK_SIZE \<equiv> 64 * 1024"

text \<open>With the speed test its destination is served by a task of the server, everything else as before.\<close>

definition speed_test_server :: "'s \<Rightarrow> ('s, 'u) server_outbound \<Rightarrow> ('s, 'u) server_outbound" where
  "speed_test_server stream next =
     next\<lparr>ob_tcp := (\<lambda>address. if address \<noteq> SPEED_TEST_DESTINATION then ob_tcp next address else Inr stream)\<rparr>"

abbreviation (input) with_speed_test :: "'s \<Rightarrow> ('s, 'u) server_outbound \<Rightarrow> bool \<Rightarrow> ('s, 'u) server_outbound" where
  "with_speed_test stream outbound enabled \<equiv> (if enabled then speed_test_server stream outbound else outbound)"

function send_chunks :: "bytes \<Rightarrow> nat \<Rightarrow> (byte_stream, cli_error, unit) eff" where
  "send_chunks chunk remaining =
     (if remaining \<noteq> 0 \<and> chunk \<noteq> [] then
        (let size = min remaining (length chunk) in
         eff_bind (write_all (take size chunk)) (\<lambda>_. send_chunks chunk (remaining - size)))
      else eff_return ())"
  by pat_completeness auto
termination
  by (relation "measure snd") auto

function receive_chunks :: "nat \<Rightarrow> nat \<Rightarrow> (byte_stream, cli_error, unit) eff" where
  "receive_chunks chunk_size remaining =
     (if remaining \<noteq> 0 \<and> chunk_size \<noteq> 0 then
        (let size = min remaining chunk_size in
         eff_bind (read_exact (cli_error ''early eof'') size) (\<lambda>_. receive_chunks chunk_size (remaining - size)))
      else eff_return ())"
  by pat_completeness auto
termination
  by (relation "measure snd") auto

declare send_chunks.simps [simp del] receive_chunks.simps [simp del]

text \<open>\<open>chunk\<close> is the buffer of random bytes and \<open>elapsed\<close> the time an upload took, in milliseconds.\<close>

definition serve_speed_test :: "bytes option \<Rightarrow> nat \<Rightarrow> (byte_stream, cli_error, unit) eff" where
  "serve_speed_test chunk elapsed =
     eff_bind (read_byte (cli_error ''early eof'')) (\<lambda>request_type.
     eff_bind (read_exact (cli_error ''early eof'') 4) (\<lambda>len_bytes.
     let len = from_be_bytes len_bytes :: u32 in
     if request_type = 1 then
       eff_bind (write_all [0, 0, 2, 0x4F, 0x4B]) (\<lambda>_.
       case chunk of
         None \<Rightarrow> eff_fail (cli_error ''speed-test randomness failed: {error}'')
       | Some bs \<Rightarrow> send_chunks bs (unat len))
     else if request_type = 2 then
       eff_bind (write_all [0, 0, 2, 0x4F, 0x4B]) (\<lambda>_.
       eff_bind (receive_chunks SPEED_TEST_CHUNK_SIZE (unat len)) (\<lambda>_.
       eff_bind (write_all (be_bytes 4 (unwrap_or (- 1) (try_from_nat elapsed) :: u32))) (\<lambda>_.
       write_all (be_bytes 4 len))))
     else eff_fail (CliError ''unknown speed-test request type {other}'' [uint_string request_type])))"

section \<open>Validated configurations build\<close>

lemma validate_outbounds_each:
  "validate_outbounds env names configs = Inr () \<Longrightarrow> config \<in> set configs \<Longrightarrow> validate_outbound env config = Inr ()"
  by (induction env names configs rule: validate_outbounds.induct) (auto simp: result_iffs Let_def)

lemma map_err_Err_no_panic [simp]: "map_err Err r \<noteq> Inl Panic"
  by (simp add: map_err_eq_Inl)

lemma configurable_direct_new_no_panic:
  "validate_direct env config = Inr () \<Longrightarrow> configurable_direct_new config \<noteq> Inl Panic"
  by (auto simp: validate_direct_def configurable_direct_new_def Let_def and_then_eq_Inl and_then_eq_Inr split: if_splits)

lemma build_backend_no_panic:
  "validate_outbound env config = Inr () \<Longrightarrow> build_backend env (Some config) \<noteq> Inl Panic"
  by (auto simp: validate_outbound_def build_backend_def Let_def and_then_eq_Inl configurable_direct_new_no_panic split: if_splits)

lemma build_backends_no_panic:
  "\<forall>config \<in> set configs. validate_outbound env config = Inr () \<Longrightarrow> build_backends env configs m \<noteq> Inl Panic"
  by (induction env configs m rule: build_backends.induct) (auto simp: and_then_eq_Inl build_backend_no_panic)

lemma set_hm_insert_keys: "fst ` set (hm_insert k v m) = insert k (fst ` set m)"
  by (simp add: hm_insert_def dom_map_of_conv_image_fst [symmetric] update_conv')

lemma or_insert_keys: "fst ` set (or_insert k v m) = insert k (fst ` set m)"
  by (auto simp: or_insert_def set_hm_insert_keys hm_get_def map_of_eq_None_iff)

lemma build_backends_keys:
  "build_backends env configs m = Inr m' \<Longrightarrow>
     fst ` set m' = fst ` set m \<union> (\<lambda>entry. to_ascii_lowercase (oc_name entry)) ` set configs"
  by (induction env configs m rule: build_backends.induct) (clarsimp simp: and_then_eq_Inr set_hm_insert_keys)+

lemma build_acl_no_panic:
  assumes "outbound_validate env configs acl resolver = Inr ()" and "has_acl acl"
  shows "build_acl env configs acl \<noteq> Inl Panic"
proof -
  obtain rules_text where rt: "acl_text env acl = Inr rules_text"
    and valid: "validate_acl (oe_regex_ok env) rules_text (route_names configs) = Inr ()"
    and each: "validate_outbounds env {} configs = Inr ()"
    using assms by (auto simp: outbound_validate_def validate_routes_def result_iffs)
  have no_panic: "build_backends env configs [] \<noteq> Inl Panic"
    using validate_outbounds_each [OF each] by (intro build_backends_no_panic) blast
  have parse: "parse_acl (oe_regex_ok env) rules_text (or_insert ''default'' b (or_insert ''reject'' r (or_insert ''direct'' d outbounds))) geo \<noteq> Inl Panic"
    if "build_backends env configs [] = Inr outbounds" for outbounds b r d geo
  proof -
    have "route_names configs \<subseteq> fst ` set (or_insert ''default'' b (or_insert ''reject'' r (or_insert ''direct'' d outbounds)))"
      using build_backends_keys [OF that] by (auto simp: or_insert_keys route_names_def)
    then show ?thesis using parse_acl_after_validate [OF valid] by blast
  qed
  show ?thesis
    using no_panic parse rt by (auto simp: build_acl_def Let_def and_then_eq_Inl)
qed

lemma validate_rule_no_panic: "2 \<le> length (snd rule) \<Longrightarrow> validate_rule regex_ok names rule \<noteq> Inl Panic"
  by (cases rule) (auto simp: validate_rule_def Let_def and_then_eq_Inl index_at_def split: option.splits if_splits)

lemma validate_acl_no_panic: "validate_acl regex_ok rules_text names \<noteq> Inl Panic"
proof (cases "acl_lines rules_text")
  case (Inl e)
  then show ?thesis using acl_lines_no_panic [of rules_text] by (auto simp: validate_acl_def)
next
  case (Inr lines)
  have "2 \<le> length (snd rule)" if "rule \<in> set lines" for rule
    using acl_lines_cells [OF Inr, of "fst rule" "snd rule"] that by simp
  then have "try_for_each (validate_rule regex_ok names) lines \<noteq> Inl Panic"
    by (intro try_for_each_not validate_rule_no_panic)
  then show ?thesis using Inr by (simp add: validate_acl_def)
qed

lemma outbound_validate_no_panic: "outbound_validate env configs acl resolver \<noteq> Inl Panic"
  by (auto simp: outbound_validate_def validate_routes_def and_then_eq_Inl validate_acl_no_panic split: if_splits)

lemma first_backend_no_panic:
  assumes "outbound_validate env configs acl resolver = Inr ()"
  shows "build_backend env (get_at configs 0) \<noteq> Inl Panic"
proof (cases configs)
  case Nil
  then show ?thesis by (simp add: build_backend_def get_at_def)
next
  case (Cons config rest)
  have "validate_outbounds env {} configs = Inr ()"
    using assms by (auto simp: outbound_validate_def result_iffs)
  then have "validate_outbound env config = Inr ()"
    by (rule validate_outbounds_each) (simp add: Cons)
  then show ?thesis using Cons build_backend_no_panic by (simp add: get_at_def)
qed

section \<open>Properties\<close>


end
