(* ===== verification/Net_Text.thy ===== *)
theory Net_Text
  imports Net
begin

unbundle bit_operations_syntax

text \<open>
  The text of IP addresses is read back: \<open>parse\<close> of \<open>to_string\<close> is the address, for IPv6 with and without a
  compressed run of zeros and for embedded IPv4 addresses.
\<close>

section \<open>Groups of hexadecimal digits\<close>

fun hexadecimal :: "nat \<Rightarrow> nat list" where
  "hexadecimal n = (if n < 16 then [n] else hexadecimal (n div 16) @ [n mod 16])"

declare hexadecimal.simps [simp del]

lemma hex_digits_hexadecimal: "hex_digits n = map hex_char (hexadecimal n)"
proof (induction n rule: hexadecimal.induct)
  case (1 n)
  then show ?case by (cases "n < 16") (simp_all add: hex_digits.simps [of n] hexadecimal.simps [of n])
qed

lemma hexadecimal_props:
  "(\<forall>d \<in> set (hexadecimal n). d < 16) \<and> hexadecimal n \<noteq> [] \<and> foldl (\<lambda>acc d. acc * 16 + d) 0 (hexadecimal n) = n"
proof (induction n rule: hexadecimal.induct)
  case (1 n)
  then show ?case by (cases "n < 16") (auto simp: hexadecimal.simps [of n])
qed

lemma length_hexadecimal: "n < 16 ^ Suc k \<Longrightarrow> length (hexadecimal n) \<le> Suc k"
proof (induction k arbitrary: n)
  case 0
  then show ?case by (simp add: hexadecimal.simps)
next
  case (Suc k)
  then have "n div 16 < 16 ^ Suc k" by (simp add: less_mult_imp_div_less mult.commute)
  then show ?case using Suc.IH [of "n div 16"] by (simp add: hexadecimal.simps [of n])
qed

text \<open>What may follow a group: nothing that would continue it or turn it into an IPv4 address.\<close>

definition ends_group :: "string \<Rightarrow> bool" where
  "ends_group s = (s = [] \<or> to_digit 16 (hd s) = None \<and> hd s \<noteq> CHR ''.'')"

lemma ends_group_colon [simp]: "ends_group (CHR '':'' # s)"
  by (simp add: ends_group_def to_digit_def)

lemma take_hex_digits:
  "\<forall>d \<in> set ds. d < 16 \<Longrightarrow> ends_group rest \<Longrightarrow> take_digits 16 (map hex_char ds @ rest) = (ds, rest)"
proof (induction ds)
  case Nil
  then show ?case by (cases rest) (auto simp: ends_group_def)
next
  case (Cons d ds)
  then show ?case by (simp add: to_digit_hex_char)
qed

lemma to_digit_10_16: "to_digit 16 c = None \<Longrightarrow> to_digit 10 c = None"
  by (auto simp: to_digit_def Let_def split: if_splits)

lemma hex_char_not_dot: "d < 16 \<Longrightarrow> hex_char d \<noteq> CHR ''.''"
  using to_digit_hex_char [of d] by (auto simp: to_digit_def)

lemma take_decimal_no_dot:
  assumes "\<forall>d \<in> set ds. d < 16" and "ends_group rest" and "take_digits 10 (map hex_char ds @ rest) = (vs, s)"
  shows "s = [] \<or> hd s \<noteq> CHR ''.''"
  using assms(1,3)
proof (induction ds arbitrary: vs)
  case Nil
  then show ?case using assms(2) to_digit_10_16 by (cases rest) (auto simp: ends_group_def)
next
  case (Cons d ds)
  then show ?case using hex_char_not_dot [of d] by (auto split: option.splits prod.splits)
qed

lemma read_number_rest: "read_number r k z limit s = Some (n, rest) \<Longrightarrow> rest = snd (take_digits r s)"
  by (auto simp: read_number_def Let_def split: prod.splits if_splits)

lemma read_ipv4_hex:
  assumes "\<forall>d \<in> set ds. d < 16" and "ends_group rest"
  shows "read_ipv4 (map hex_char ds @ rest) = None"
proof -
  let ?s = "map hex_char ds @ rest"
  have "read_octets 4 0 ?s = None"
  proof (cases "read_number 10 (Some 3) False 255 ?s")
    case None
    then show ?thesis by (simp add: read_separator_def eval_nat_numeral)
  next
    case (Some p)
    then obtain n s where p: "read_number 10 (Some 3) False 255 ?s = Some (n, s)" by (cases p) auto
    have "s = [] \<or> hd s \<noteq> CHR ''.''"
      using take_decimal_no_dot [OF assms, of "fst (take_digits 10 ?s)" s] read_number_rest [OF p] by simp
    then have "read_given_char (CHR ''.'') s = None" by (cases s) (auto simp: read_given_char_def)
    moreover have "(4 :: nat) = Suc (Suc 2)" by simp
    ultimately show ?thesis using p by (simp only: read_octets.simps) (simp add: read_separator_def)
  qed
  then show ?thesis by (simp add: read_ipv4_def)
qed

lemma read_group:
  assumes "n < 65536" and "ends_group rest"
  shows "read_number 16 (Some 4) True 65535 (hex_digits n @ rest) = Some (n, rest)"
  using hexadecimal_props [of n] take_hex_digits [of "hexadecimal n" rest] length_hexadecimal [of n 3] assms
  by (auto simp: read_number_def hex_digits_hexadecimal Let_def)

lemma read_no_group:
  assumes "ends_group s"
  shows "read_number 16 k z limit s = None" and "read_ipv4 s = None"
proof -
  have "take_digits 16 s = ([], s)" using take_hex_digits [of "[]" s] assms by simp
  then show "read_number 16 k z limit s = None" by (simp add: read_number_def)
  show "read_ipv4 s = None" using read_ipv4_hex [of "[]" s] assms by simp
qed

section \<open>Sequences of groups\<close>

definition tail_text :: "u16 list \<Rightarrow> string" where
  "tail_text gs = concat (map (\<lambda>g. CHR '':'' # hex_digits (unat g)) gs)"

lemma segments_display_Nil [simp]: "segments_display [] = []"
  by (simp add: segments_display_def)

lemma segments_display_Cons: "segments_display (g # gs) = hex_digits (unat g) @ tail_text gs"
proof (induction gs arbitrary: g)
  case (Cons h gs)
  then show ?case by (simp add: segments_display_def tail_text_def)
qed (simp add: segments_display_def tail_text_def)

lemma ends_group_tail: "ends_group rest \<Longrightarrow> ends_group (tail_text gs @ rest)"
  by (cases gs) (simp_all add: tail_text_def)

text \<open>The text after a sequence of groups does not start another group.\<close>

definition no_group :: "string \<Rightarrow> bool" where
  "no_group s = (ends_group s \<and> (case s of [] \<Rightarrow> True | c # r \<Rightarrow> c \<noteq> CHR '':'' \<or> ends_group r))"

lemma unat_u16: "unat (g :: u16) < 65536" "word_of_nat (unat g) = g"
  using unat_less_word [of g] by simp_all

lemma read_ipv4_group: "ends_group rest \<Longrightarrow> read_ipv4 (hex_digits n @ rest) = None"
  using read_ipv4_hex hexadecimal_props [of n] by (simp add: hex_digits_hexadecimal)

lemma read_groups_stop: "no_group s \<Longrightarrow> read_groups m i s = ([], False, s)"
  by (cases m; cases s)
    (auto simp: no_group_def read_separator_def read_given_char_def read_no_group)

lemma read_groups_step:
  assumes "read_separator (CHR '':'') i read_ipv4 s = None"
    and "read_separator (CHR '':'') i (read_number 16 (Some 4) True 65535) s = Some (unat g, rest)"
  shows "read_groups (Suc n) i s = (case read_groups n (Suc i) rest of (gs, v4, r) \<Rightarrow> (g # gs, v4, r))"
  using assms by (auto simp: unat_u16 split: prod.splits)

lemma read_groups_tail:
  "m = 0 \<or> no_group rest \<Longrightarrow> ends_group rest \<Longrightarrow>
     read_groups (length gs + m) (Suc i) (tail_text gs @ rest) = (gs, False, rest)"
proof (induction gs arbitrary: i)
  case Nil
  then show ?case using read_groups_stop by (auto simp: tail_text_def)
next
  case (Cons g gs)
  have t: "tail_text (g # gs) @ rest = CHR '':'' # hex_digits (unat g) @ tail_text gs @ rest" by (simp add: tail_text_def)
  have e: "ends_group (tail_text gs @ rest)" using Cons.prems ends_group_tail by blast
  show ?case
    using Cons.IH [OF Cons.prems, of "Suc i"] read_ipv4_group [OF e] read_group [OF unat_u16(1) e]
      read_groups_step [of "Suc i" "tail_text (g # gs) @ rest" g "tail_text gs @ rest" "length gs + m"]
    by (simp add: t read_separator_def read_given_char_def del: read_groups.simps)
qed

lemma read_groups_text:
  assumes "m = 0 \<or> no_group rest" and "ends_group rest"
  shows "read_groups (length gs + m) 0 (segments_display gs @ rest) = (gs, False, rest)"
proof (cases gs)
  case Nil
  then show ?thesis using assms read_groups_stop by (auto simp: segments_display_def)
next
  case (Cons g gs')
  have e: "ends_group (tail_text gs' @ rest)" using assms ends_group_tail by blast
  show ?thesis
    using read_groups_tail [OF assms, of gs' 0] read_ipv4_group [OF e] read_group [OF unat_u16(1) e]
      read_groups_step [of 0 "segments_display gs @ rest" g "tail_text gs' @ rest" "length gs' + m"]
    by (simp add: Cons segments_display_Cons read_separator_def del: read_groups.simps)
qed

section \<open>The longest run of zeros\<close>

definition zero_run :: "u16 list \<Rightarrow> nat \<Rightarrow> nat \<times> nat \<Rightarrow> bool" where
  "zero_run ss n r = (0 < snd r \<longrightarrow> fst r + snd r \<le> n \<and> take (snd r) (drop (fst r) ss) = replicate (snd r) 0)"

lemma longest_zero_run_zeros:
  assumes "zero_run (seen @ ss) (length seen) best" and "zero_run (seen @ ss) (length seen) cur"
    and "0 < snd cur \<longrightarrow> fst cur + snd cur = length seen"
  shows "zero_run (seen @ ss) (length (seen @ ss)) (longest_zero_run (length seen) cur best ss)"
  using assms
proof (induction ss arbitrary: seen cur best)
  case Nil
  then show ?case by simp
next
  case (Cons s ss)
  let ?cur = "if s = 0 then (if snd cur = 0 then (length seen, 1) else (fst cur, snd cur + 1)) else (0, 0)"
  let ?best = "if snd best < snd ?cur then ?cur else best"
  have "take (Suc n) (drop k (seen @ s # ss)) = take n (drop k seen) @ [s]" if "k + n = length seen" for k n
    using that [symmetric] by simp
  then have c: "zero_run ((seen @ [s]) @ ss) (length (seen @ [s])) ?cur"
    using Cons.prems(2,3) by (auto simp: zero_run_def replicate_append_same)
  moreover have "zero_run ((seen @ [s]) @ ss) (length (seen @ [s])) best"
    using Cons.prems(1) by (auto simp: zero_run_def)
  ultimately have b: "zero_run ((seen @ [s]) @ ss) (length (seen @ [s])) ?best" by simp
  show ?case
    using Cons.IH [of "seen @ [s]" ?best ?cur] b c Cons.prems(3) by (simp add: Let_def)
qed

lemma longest_zero_run_split:
  assumes "longest_zero_run 0 (0, 0) (0, 0) ss = (start, len)" and "0 < len"
  shows "start + len \<le> length ss" and "take start ss @ replicate len 0 @ drop (start + len) ss = ss"
proof -
  have z: "zero_run ss (length ss) (start, len)"
    using longest_zero_run_zeros [of "[]" ss "(0, 0)" "(0, 0)"] assms by (simp add: zero_run_def)
  then show "start + len \<le> length ss" using assms by (simp add: zero_run_def)
  have "replicate len 0 = take len (drop start ss)" using z assms by (simp add: zero_run_def)
  then show "take start ss @ replicate len 0 @ drop (start + len) ss = ss"
    by (metis add.commute append_take_drop_id drop_drop)
qed

section \<open>Segments\<close>

lemma segment_step:
  "push_bit 16 (drop_bit (n + 16) a) OR ucast (ucast (drop_bit n a) :: u16) = drop_bit n (a :: u128)"
proof (rule bit_word_eqI)
  fix k :: nat
  assume "k < LENGTH(128)"
  then show "bit (push_bit 16 (drop_bit (n + 16) a) OR ucast (ucast (drop_bit n a) :: u16)) k = bit (drop_bit n a) k"
    by (cases "k < 16") (auto simp: bit_simps bit_push_bit_iff)
qed

lemma ipv6_of_segments_id: "ipv6_of_segments (ipv6_segments a) = a"
proof -
  have "drop_bit 128 a = 0" by (rule bit_word_eqI) (simp add: bit_simps)
  then show ?thesis
    using segment_step [of 112 a] segment_step [of 96 a] segment_step [of 80 a] segment_step [of 64 a]
      segment_step [of 48 a] segment_step [of 32 a] segment_step [of 16 a] segment_step [of 0 a]
    by (simp add: ipv6_of_segments_def ipv6_segments_def upt_rec)
qed

section \<open>Reading back an address\<close>

lemma length_ipv6_segments [simp]: "length (ipv6_segments a) = 8"
  by (simp add: ipv6_segments_def)

lemma read_ipv6_compressed:
  assumes "read_groups (8 - (length hs + 1)) 0 tail = (ts, v4, rest)" and "length hs < 8"
  shows "read_ipv6 (segments_display hs @ ''::'' @ tail) =
    Some (ipv6_of_segments (hs @ replicate (8 - length hs - length ts) 0 @ ts), rest)"
proof -
  have "no_group (''::'' @ tail)" by (simp add: no_group_def)
  then have "read_groups (length hs + (8 - length hs)) 0 (segments_display hs @ ''::'' @ tail) = (hs, False, ''::'' @ tail)"
    by (intro read_groups_text) (simp_all add: no_group_def)
  then show ?thesis using assms by (simp add: read_ipv6_def read_given_char_def del: read_groups.simps)
qed

lemma ipv4_mapped_segments:
  assumes "take 5 (ipv6_segments a) = [0, 0, 0, 0, 0]" and "ipv6_segments a ! 5 = 0xffff"
  shows "ipv6_segments a = replicate 5 0 @ [0xffff, ucast (drop_bit 16 (ucast a :: u32)), ucast (ucast a :: u32)]"
proof -
  have seg: "ipv6_segments a ! 6 = ucast (drop_bit 16 (ucast a :: u32))" "ipv6_segments a ! 7 = ucast (ucast a :: u32)"
    by (auto simp: ipv6_segments_def bit_simps intro!: bit_word_eqI)
  have split: "ss = take 5 ss @ [ss ! 5, ss ! 6, ss ! 7]" if "length ss = 8" for ss :: "u16 list"
    using that by (auto simp: numeral_eq_Suc length_Suc_conv)
  have "replicate 5 (0 :: u16) = [0, 0, 0, 0, 0]" by (simp add: numeral_eq_Suc)
  then show ?thesis using split [of "ipv6_segments a"] unfolding seg assms by simp
qed

lemma read_ipv6_display:
  assumes "no_group rest"
  shows "read_ipv6 (ipv6_display a @ rest) = Some (a, rest)"
proof -
  let ?ss = "ipv6_segments a"
  have e: "ends_group rest" using assms by (simp add: no_group_def)
  obtain start len where run: "longest_zero_run 0 (0, 0) (0, 0) ?ss = (start, len)" by fastforce
  consider (v4) "take 5 ?ss = [0, 0, 0, 0, 0] \<and> ?ss ! 5 = 0xffff"
    | (zeros) "\<not> (take 5 ?ss = [0, 0, 0, 0, 0] \<and> ?ss ! 5 = 0xffff)" "1 < len"
    | (plain) "\<not> (take 5 ?ss = [0, 0, 0, 0, 0] \<and> ?ss ! 5 = 0xffff)" "\<not> 1 < len" by blast
  then show ?thesis
  proof cases
    case plain
    have t: "ipv6_display a = segments_display ?ss"
      unfolding ipv6_display_def Let_def if_not_P [OF plain(1)] using plain(2) run by simp
    show ?thesis
      using read_groups_text [OF _ e, of 0 ?ss]
      by (simp add: t read_ipv6_def ipv6_of_segments_id del: read_groups.simps)
  next
    case zeros
    note s = longest_zero_run_split [OF run]
    have t: "ipv6_display a = segments_display (take start ?ss) @ ''::'' @ segments_display (drop (start + len) ?ss)"
      unfolding ipv6_display_def Let_def if_not_P [OF zeros(1)] using zeros(2) run by simp
    have "read_groups (8 - (start + 1)) 0 (segments_display (drop (start + len) ?ss) @ rest) =
        (drop (start + len) ?ss, False, rest)"
      using read_groups_text [OF _ e, of "len - 1" "drop (start + len) ?ss"] assms s(1) zeros by simp
    then have "read_ipv6 (ipv6_display a @ rest) =
        Some (ipv6_of_segments (take start ?ss @ replicate len 0 @ drop (start + len) ?ss), rest)"
      using read_ipv6_compressed [of "take start ?ss" "segments_display (drop (start + len) ?ss) @ rest" _ False rest] s(1) zeros
      by (simp add: t del: read_groups.simps)
    then show ?thesis using s(2) zeros by (simp add: ipv6_of_segments_id)
  next
    case v4
    let ?v = "ucast a :: u32"
    have t: "ipv6_display a = ''::ffff:'' @ ipv4_display ?v"
      unfolding ipv6_display_def Let_def if_P [OF v4] by simp
    have d: "rest = [] \<or> to_digit 10 (hd rest) = None" using e to_digit_10_16 by (auto simp: ends_group_def)
    have "read_groups (Suc 5) (Suc 0) (CHR '':'' # ipv4_display ?v @ rest) = ([ucast (drop_bit 16 ?v), ucast ?v], True, rest)"
      using read_ipv4_display [OF d, of ?v] by (subst read_groups.simps(2)) (simp add: read_separator_def read_given_char_def)
    moreover have "hex_digits 65535 = ''ffff''" by (simp add: hex_digits.simps hex_char_def char_of_def bit_Suc_0_iff)
    ultimately have "read_groups 7 0 (''ffff:'' @ ipv4_display ?v @ rest) =
        ([0xffff, ucast (drop_bit 16 ?v), ucast ?v], True, rest)"
      using read_groups_step [where i = 0 and s = "''ffff:'' @ ipv4_display ?v @ rest" and g = 65535
          and rest = "CHR '':'' # ipv4_display ?v @ rest" and n = 6]
        read_ipv4_group [OF ends_group_colon, where n = 65535]
        read_group [OF _ ends_group_colon, where n = 65535]
      by (simp add: read_separator_def del: read_groups.simps)
    then show ?thesis
      using read_ipv6_compressed [of "[]" "''ffff:'' @ ipv4_display ?v @ rest" _ True rest] v4 ipv4_mapped_segments [of a]
        ipv6_of_segments_id [of a]
      by (simp add: t segments_display_def del: read_groups.simps)
  qed
qed

text \<open>An IPv6 text starts with a group or a colon, which no IPv4 address does.\<close>

lemma read_ipv4_ipv6_display: "read_ipv4 (ipv6_display a @ rest) = None"
proof -
  have g: "read_ipv4 (segments_display ss @ CHR '':'' # r) = None" for ss r
    by (cases ss) (simp_all add: segments_display_Cons read_ipv4_group ends_group_tail read_no_group)
  obtain g h gs where s: "ipv6_segments a = g # h # gs"
    by (simp add: ipv6_segments_def upt_rec)
  have "read_ipv4 (segments_display (ipv6_segments a) @ rest) = None"
    by (simp add: s segments_display_Cons tail_text_def read_ipv4_group)
  moreover have "read_ipv4 (CHR '':'' # r) = None" for r by (rule read_no_group) simp
  ultimately show ?thesis using g by (auto simp: ipv6_display_def Let_def split: prod.splits)
qed

lemma parse_ip_display: "parse_ip (ip_display ip) = Some ip"
proof (cases ip)
  case (V6 a)
  then show ?thesis
    using read_ipv6_display [of "[]" a] read_ipv4_ipv6_display [of a "[]"]
    by (simp add: parse_ip_def whole_def no_group_def ends_group_def)
qed (simp add: parse_ip_display_v4)

lemma read_port_display: "read_port (CHR '':'' # uint_string (p :: u16)) = Some (unat p, [])"
  using decimal_props [of "unat p"] take_digits_append [of "decimal (unat p)" "[]"] unat_u16(1) [of p]
  by (auto simp: read_port_def read_given_char_def read_number_def uint_string_def nat_string_decimal Let_def)

lemma no_group_bracket: "no_group (CHR '']'' # s)" and no_group_Nil: "no_group []"
  by (simp_all add: no_group_def ends_group_def to_digit_def)

lemma parse_socket_addr_display [simp]: "parse_socket_addr (socket_addr_display a) = Some a"
proof (cases a rule: socket_addr_display.cases)
  case (1 ip p)
  have "read_ipv4 (ipv4_display ip @ CHR '':'' # uint_string p) = Some (ip, CHR '':'' # uint_string p)"
    by (rule read_ipv4_display) (simp add: to_digit_def)
  then show ?thesis by (simp add: 1 parse_socket_addr_def read_port_display unat_u16)
next
  case (2 ip p)
  have "ends_group (CHR ''['' # s)" for s by (simp add: ends_group_def to_digit_def)
  then have "read_ipv4 (CHR ''['' # s) = None" for s by (rule read_no_group)
  then show ?thesis
    using read_ipv6_display [OF no_group_bracket, of ip "CHR '':'' # uint_string p"]
    by (simp add: 2 parse_socket_addr_def read_port_display read_given_char_def unat_u16 whole_def)
qed

lemma read_ipv6_ipv4_display: "read_ipv6 (ipv4_display a) = None"
  using read_ipv4_display [of "[]" a] by (simp add: read_ipv6_def read_separator_def numeral_eq_Suc)

end
