(* ===== verification/Socks5.thy ===== *)
theory Socks5
  imports Outbound Net_Text
begin

text \<open>
  The SOCKS5 server of the client (\<open>hysteria/src/socks5.rs\<close>): negotiation with or without a password,
  requests, replies, and the relay of UDP datagrams as a machine over the events of its \<open>select!\<close>. The
  Hysteria client that opens tunnels and sessions is a parameter.
\<close>

section \<open>Negotiation\<close>

abbreviation (input) VERSION :: u8 where "VERSION \<equiv> 5"
abbreviation (input) AUTH_VERSION :: u8 where "AUTH_VERSION \<equiv> 1"
abbreviation (input) METHOD_NONE :: u8 where "METHOD_NONE \<equiv> 0"
abbreviation (input) METHOD_USERPASS :: u8 where "METHOD_USERPASS \<equiv> 2"
abbreviation (input) METHOD_UNSUPPORTED :: u8 where "METHOD_UNSUPPORTED \<equiv> 0xff"
abbreviation (input) COMMAND_CONNECT :: u8 where "COMMAND_CONNECT \<equiv> 1"
abbreviation (input) COMMAND_UDP_ASSOCIATE :: u8 where "COMMAND_UDP_ASSOCIATE \<equiv> 3"
abbreviation (input) REPLY_SUCCESS :: u8 where "REPLY_SUCCESS \<equiv> 0"
abbreviation (input) REPLY_SERVER_FAILURE :: u8 where "REPLY_SERVER_FAILURE \<equiv> 1"
abbreviation (input) REPLY_HOST_UNREACHABLE :: u8 where "REPLY_HOST_UNREACHABLE \<equiv> 4"
abbreviation (input) REPLY_COMMAND_UNSUPPORTED :: u8 where "REPLY_COMMAND_UNSUPPORTED \<equiv> 7"
definition ADDRESS_IPV4 :: u8 where "ADDRESS_IPV4 = 1"
abbreviation (input) ADDRESS_DOMAIN :: u8 where "ADDRESS_DOMAIN \<equiv> 3"
definition ADDRESS_IPV6 :: u8 where "ADDRESS_IPV6 = 4"

abbreviation cli_eof :: cli_error where
  "cli_eof \<equiv> cli_error ''early eof''"

definition authenticate_userpass :: "socks5_config \<Rightarrow> (byte_stream, cli_error, unit) eff" where
  "authenticate_userpass config =
     eff_bind (read_byte cli_eof) (\<lambda>version.
     eff_bind (read_byte cli_eof) (\<lambda>username_length.
     eff_bind (read_exact cli_eof (unat username_length)) (\<lambda>username.
     eff_bind (read_byte cli_eof) (\<lambda>password_length.
     eff_bind (read_exact cli_eof (unat password_length)) (\<lambda>password.
     let accepted = (version = AUTH_VERSION \<and> username = as_bytes (s5_username config) \<and>
                     password = as_bytes (s5_password config)) in
     eff_bind (write_all [AUTH_VERSION, if accepted then 0 else 1]) (\<lambda>_.
     if accepted then eff_return () else eff_fail (cli_error ''SOCKS5 authentication failed'')))))))"

definition negotiate :: "socks5_config \<Rightarrow> (byte_stream, cli_error, unit) eff" where
  "negotiate config =
     eff_bind (read_exact cli_eof 2) (\<lambda>header.
     if header ! 0 \<noteq> VERSION \<or> header ! 1 = 0 then eff_fail (cli_error ''invalid SOCKS5 negotiation'')
     else
       eff_bind (read_exact cli_eof (unat (header ! 1))) (\<lambda>methods.
       let required = (if s5_username config = [] then METHOD_NONE else METHOD_USERPASS) in
       if required \<notin> set methods then
         eff_bind (write_all [VERSION, METHOD_UNSUPPORTED]) (\<lambda>_.
         eff_fail (cli_error ''SOCKS5 client offered no supported authentication method''))
       else
         eff_bind (write_all [VERSION, required]) (\<lambda>_.
         if required = METHOD_USERPASS then authenticate_userpass config else eff_return ())))"

section \<open>Addresses\<close>

definition format_host_port :: "string \<Rightarrow> u16 \<Rightarrow> string" where
  "format_host_port host port =
     (if parse_ipv6 host \<noteq> None then ''['' @ host @ '']:'' @ uint_string port
      else host @ '':'' @ uint_string port)"

definition read_address :: "(byte_stream, cli_error, string) eff" where
  "read_address =
     eff_bind (read_byte cli_eof) (\<lambda>kind.
     eff_bind
       (if kind = ADDRESS_IPV4 then
          eff_bind (read_exact cli_eof 4) (\<lambda>octets. eff_return (ipv4_display (from_be_bytes octets)))
        else if kind = ADDRESS_IPV6 then
          eff_bind (read_exact cli_eof 16) (\<lambda>octets. eff_return (ipv6_display (from_be_bytes octets)))
        else if kind = ADDRESS_DOMAIN then
          eff_bind (read_byte cli_eof) (\<lambda>n.
          if n = 0 then eff_fail (cli_error ''empty SOCKS5 domain'')
          else eff_bind (read_exact cli_eof (unat n)) (\<lambda>domain.
            if utf8_valid domain then eff_return (of_bytes domain) else eff_fail (cli_error (utf8_error 0 domain))))
        else eff_fail (cli_error ''unsupported SOCKS5 address type'')) (\<lambda>host.
     eff_bind (read_exact cli_eof 2) (\<lambda>port.
     eff_return (format_host_port host (from_be_bytes port)))))"

fun encode_socket_address :: "socket_addr \<Rightarrow> bytes" where
  "encode_socket_address (SocketAddr (V4 ip) port) = ADDRESS_IPV4 # be_bytes 4 ip @ be_bytes 2 port"
| "encode_socket_address (SocketAddr (V6 ip) port) = ADDRESS_IPV6 # be_bytes 16 ip @ be_bytes 2 port"

definition decode_address_bytes :: "bytes \<Rightarrow> nat \<Rightarrow> cli_error + (string \<times> u16 \<times> nat)" where
  "decode_address_bytes packet offset =
     and_then (ok_or (cli_error ''truncated SOCKS5 address'') (get_at packet offset)) (\<lambda>kind.
     let start = offset + 1 in
     and_then
       (if kind = ADDRESS_IPV4 then
          and_then (ok_or (cli_error ''truncated SOCKS5 IPv4 address'') (get_range packet start (start + 4))) (\<lambda>bs.
          Inr (ipv4_display (from_be_bytes bs), start + 4))
        else if kind = ADDRESS_IPV6 then
          and_then (ok_or (cli_error ''truncated SOCKS5 IPv6 address'') (get_range packet start (start + 16))) (\<lambda>bs.
          Inr (ipv6_display (from_be_bytes bs), start + 16))
        else if kind = ADDRESS_DOMAIN then
          and_then (ok_or (cli_error ''truncated SOCKS5 domain'') (get_at packet start)) (\<lambda>n.
          and_then (ok_or (cli_error ''truncated SOCKS5 domain'') (get_range packet (start + 1) (start + 1 + unat n))) (\<lambda>bs.
          if utf8_valid bs then Inr (of_bytes bs, start + 1 + unat n) else Inl (cli_error (utf8_error 0 bs))))
        else Inl (cli_error ''unsupported SOCKS5 address type'')) (\<lambda>(host, port_offset).
     and_then (ok_or (cli_error ''truncated SOCKS5 port'') (get_range packet port_offset (port_offset + 2))) (\<lambda>port_bytes.
     Inr (host, from_be_bytes port_bytes, port_offset + 2))))"

text \<open>The payload is the rest of the packet; slicing it panics if the address ends past the packet.\<close>

definition decode_udp_datagram :: "bytes \<Rightarrow> cli_error fault + (string \<times> bytes)" where
  "decode_udp_datagram packet =
     (if length packet < 4 \<or> take 2 packet \<noteq> [0, 0] \<or> packet ! 2 \<noteq> 0
      then Inl (Err (cli_error ''invalid or fragmented SOCKS5 UDP datagram''))
      else
        and_then (map_err Err (decode_address_bytes packet 3)) (\<lambda>(host, port, offset).
        and_then (slice_range packet offset (length packet)) (\<lambda>payload.
        Inr (format_host_port host port, payload))))"

definition encode_udp_datagram :: "string \<Rightarrow> bytes \<Rightarrow> cli_error + bytes" where
  "encode_udp_datagram address payload =
     and_then (ok_or (CliError ''invalid UDP source address {address:?}: {error}'' [address]) (parse_socket_addr address)) (\<lambda>socket.
     Inr ([0, 0, 0] @ encode_socket_address socket @ payload))"

section \<open>Requests\<close>

abbreviation (input) unspecified_v4 :: socket_addr where
  "unspecified_v4 \<equiv> SocketAddr (V4 0) 0"

definition write_reply :: "u8 \<Rightarrow> socket_addr \<Rightarrow> (byte_stream, cli_error, unit) eff" where
  "write_reply reply address = write_all ([VERSION, reply, 0] @ encode_socket_address address)"

text \<open>What follows a request: copying between the connection and a tunnel, relaying datagrams, or the end.\<close>

datatype ('t, 'u) socks_outcome = Tunnel 't | Associate socket_addr 'u | Refused

text \<open>
  \<open>tcp\<close> and \<open>udp\<close> are the answers of the client, \<open>bind\<close> that of binding a socket for datagrams to the
  local address of the connection, \<open>bound\<close> the address of that socket.
\<close>

record ('t, 'u) socks_client =
  sk_tcp :: "string \<Rightarrow> cli_error + 't"
  sk_udp :: "cli_error + 'u"
  sk_bind :: "cli_error + unit"
  sk_bound :: "cli_error + socket_addr"

definition handle_connect :: "('t, 'u) socks_client \<Rightarrow> string \<Rightarrow> (byte_stream, cli_error, ('t, 'u) socks_outcome) eff" where
  "handle_connect client address =
     (case sk_tcp client address of
        Inl error \<Rightarrow> eff_bind (write_reply REPLY_HOST_UNREACHABLE unspecified_v4) (\<lambda>_. eff_fail error)
      | Inr tunnel \<Rightarrow> eff_bind (write_reply REPLY_SUCCESS unspecified_v4) (\<lambda>_. eff_return (Tunnel tunnel)))"

definition handle_udp_associate :: "('t, 'u) socks_client \<Rightarrow> (byte_stream, cli_error, ('t, 'u) socks_outcome) eff" where
  "handle_udp_associate client =
     eff_bind (eff_lift (sk_bind client)) (\<lambda>_.
     case sk_udp client of
       Inl error \<Rightarrow> eff_bind (write_reply REPLY_SERVER_FAILURE unspecified_v4) (\<lambda>_. eff_fail error)
     | Inr session \<Rightarrow>
         eff_bind (eff_lift (sk_bound client)) (\<lambda>local.
         eff_bind (write_reply REPLY_SUCCESS local) (\<lambda>_. eff_return (Associate local session))))"

definition handle_connection ::
  "socks5_config \<Rightarrow> ('t, 'u) socks_client \<Rightarrow> (byte_stream, cli_error, ('t, 'u) socks_outcome) eff" where
  "handle_connection config client =
     eff_bind (negotiate config) (\<lambda>_.
     eff_bind (read_exact cli_eof 3) (\<lambda>header.
     if header ! 0 \<noteq> VERSION \<or> header ! 2 \<noteq> 0 then eff_fail (cli_error ''invalid SOCKS5 request header'')
     else
       eff_bind read_address (\<lambda>address.
       if header ! 1 = COMMAND_CONNECT then handle_connect client address
       else if header ! 1 = COMMAND_UDP_ASSOCIATE \<and> \<not> s5_disable_udp config then handle_udp_associate client
       else eff_bind (write_reply REPLY_COMMAND_UNSUPPORTED unspecified_v4) (\<lambda>_. eff_return Refused))))"

section \<open>The relay of datagrams\<close>

datatype relay_event =
    StreamRead "cli_error + nat"
  | FromClient "cli_error + (bytes \<times> socket_addr)"
  | FromServer "cli_error + (bytes \<times> string)"

datatype relay_action =
    SendToServer bytes string socket_addr
  | SendToClient bytes socket_addr

datatype relay_result = Relaying "socket_addr option" | RelayEnded "cli_error fault + unit"

text \<open>
  One turn of the loop; \<open>send\<close> is the answer of the session and of the socket to a send. The branch for
  the server is enabled only once the address of the client is known.
\<close>

fun relay_step :: "(relay_action \<Rightarrow> cli_error + unit) \<Rightarrow> socket_addr option \<Rightarrow> relay_event \<Rightarrow> relay_result \<times> relay_action list" where
  "relay_step send client_address (StreamRead (Inl e)) = (RelayEnded (Inl (Err e)), [])"
| "relay_step send client_address (StreamRead (Inr n)) =
     (if n = 0 then (RelayEnded (Inr ()), []) else (Relaying client_address, []))"
| "relay_step send client_address (FromClient (Inl e)) = (RelayEnded (Inl (Err e)), [])"
| "relay_step send client_address (FromClient (Inr (datagram, source))) =
     (if client_address \<noteq> None \<and> client_address \<noteq> Some source then (Relaying client_address, [])
      else case decode_udp_datagram datagram of
        Inl Panic \<Rightarrow> (RelayEnded (Inl Panic), [])
      | Inl (Err _) \<Rightarrow> (Relaying client_address, [])
      | Inr (target, payload) \<Rightarrow>
          (let action = SendToServer payload target source in
           case send action of
             Inl e \<Rightarrow> (RelayEnded (Inl (Err e)), [action])
           | Inr _ \<Rightarrow> (Relaying (Some source), [action])))"
| "relay_step send None (FromServer r) = (Relaying None, [])"
| "relay_step send (Some client) (FromServer (Inl e)) = (RelayEnded (Inl (Err e)), [])"
| "relay_step send (Some client) (FromServer (Inr (payload, source))) =
     (case encode_udp_datagram source payload of
        Inl e \<Rightarrow> (RelayEnded (Inl (Err e)), [])
      | Inr packet \<Rightarrow>
          (let action = SendToClient packet client in
           case send action of
             Inl e \<Rightarrow> (RelayEnded (Inl (Err e)), [action])
           | Inr _ \<Rightarrow> (Relaying (Some client), [action])))"

fun relay_udp :: "(relay_action \<Rightarrow> cli_error + unit) \<Rightarrow> socket_addr option \<Rightarrow> relay_event list \<Rightarrow> relay_result \<times> relay_action list" where
  "relay_udp send client_address [] = (Relaying client_address, [])"
| "relay_udp send client_address (e # es) =
     (case relay_step send client_address e of
        (RelayEnded r, actions) \<Rightarrow> (RelayEnded r, actions)
      | (Relaying client_address', actions) \<Rightarrow>
          (case relay_udp send client_address' es of (r, others) \<Rightarrow> (r, actions @ others)))"

section \<open>Access to the proxy\<close>

lemma authenticate_userpass_Inr:
  assumes "authenticate_userpass config s = (Inr (), s')"
  shows "bs_in s = [AUTH_VERSION, word_of_nat (length (s5_username config))] @ as_bytes (s5_username config) @
      word_of_nat (length (s5_password config)) # as_bytes (s5_password config) @ bs_in s'"
proof -
  obtain v n u r1 m p r2 where "bs_in s = v # n # r1" "r1 = u @ m # r2" "r2 = p @ bs_in s'" "length u = unat n" "length p = unat m"
    "v = AUTH_VERSION \<and> u = as_bytes (s5_username config) \<and> p = as_bytes (s5_password config)"
    using assms unfolding authenticate_userpass_def stream_iffs Let_def
    by (auto simp: eff_return_eq split: if_splits)
  moreover from this have "word_of_nat (length u) = n" "word_of_nat (length p) = m" by simp_all
  ultimately show ?thesis by auto
qed

lemma negotiate_userpass_Inr:
  assumes "negotiate config s = (Inr (), s')" and "s5_username config \<noteq> []"
  obtains n methods where "bs_in s = [VERSION, n] @ methods @
      [AUTH_VERSION, word_of_nat (length (s5_username config))] @ as_bytes (s5_username config) @
      word_of_nat (length (s5_password config)) # as_bytes (s5_password config) @ bs_in s'"
    and "length methods = unat n" and "METHOD_USERPASS \<in> set methods"
proof -
  obtain h methods r where h: "bs_in s = h @ methods @ r" "length h = 2" "length methods = unat (h ! 1)"
    and v: "h ! 0 = VERSION" "METHOD_USERPASS \<in> set methods"
    and a: "authenticate_userpass config (s\<lparr>bs_in := r, bs_out := bs_out s @ [VERSION, METHOD_USERPASS]\<rparr>) = (Inr (), s')"
    using assms unfolding negotiate_def stream_iffs Let_def
    by (auto simp: eff_return_eq stream_iffs split: if_splits)
  then obtain n where "h = [VERSION, n]" by (auto simp: length_Suc_conv numeral_2_eq_2)
  then show thesis using that [of n methods] h v authenticate_userpass_Inr [OF a] by simp
qed


definition locked_proxy :: socks5_config where
  "locked_proxy = \<lparr>s5_listen = ''127.0.0.1:1080'', s5_username = ''u'', s5_password = ''p'', s5_disable_udp = True\<rparr>"

definition scripted_peer :: byte_stream where
  "scripted_peer = \<lparr>bs_in = [5, 2, 0, 2, 1, 1, 117, 1, 112, 5, 1, 0, 1, 127, 0, 0, 1, 0, 80], bs_out = []\<rparr>"

definition echo_client :: "(string, unit) socks_client" where
  "echo_client = \<lparr>sk_tcp = Inr, sk_udp = Inr (), sk_bind = Inr (), sk_bound = Inr unspecified_v4\<rparr>"

lemma scripted_negotiation:
  "negotiate locked_proxy scripted_peer =
     (Inr (), \<lparr>bs_in = [5, 1, 0, 1, 127, 0, 0, 1, 0, 80], bs_out = [5, 2, 1, 0]\<rparr>)"
  by code_simp

lemma scripted_address:
  "read_address \<lparr>bs_in = [1, 127, 0, 0, 1, 0, 80], bs_out = out\<rparr> =
     (Inr (format_host_port (ipv4_display (from_be_bytes [127, 0, 0, 1])) (from_be_bytes [0, 80])), \<lparr>bs_in = [], bs_out = out\<rparr>)"
  by (simp add: read_address_def eff_bind_def eff_return_def read_byte_def read_exact_def ADDRESS_IPV4_def)

lemma scripted_peer_served:
  "\<exists>s'. handle_connection locked_proxy echo_client scripted_peer = (Inr (Tunnel ''127.0.0.1:80''), s')"
proof -
  have "format_host_port (ipv4_display (from_be_bytes [127, 0, 0, 1])) (from_be_bytes [0, 80]) = ''127.0.0.1:80''"
    by code_simp
  then show ?thesis
    by (simp add: handle_connection_def scripted_negotiation scripted_address eff_bind_def read_exact_def
        handle_connect_def echo_client_def write_reply_def write_all_def eff_return_def)
qed


section \<open>Datagrams\<close>

lemma format_host_port_display: "format_host_port (ip_display ip) port = socket_addr_display (SocketAddr ip port)"
  using read_ipv6_display [OF no_group_Nil] read_ipv6_ipv4_display
  by (cases ip) (simp_all add: format_host_port_def parse_ipv6_def whole_def)

lemma from_be_bytes_u128 [simp]: "from_be_bytes (be_bytes 16 (a :: u128)) = a"
  by (simp add: from_be_bytes_be_bytes take_bit_word_eq_self)

lemma address_kinds [simp]: "ADDRESS_IPV6 \<noteq> ADDRESS_IPV4"
  by (simp add: ADDRESS_IPV4_def ADDRESS_IPV6_def)

lemma decode_encoded_address:
  assumes "packet = pre @ encode_socket_address (SocketAddr ip port) @ payload" and "offset = length pre"
  shows "decode_address_bytes packet offset =
    Inr (ip_display ip, port, offset + length (encode_socket_address (SocketAddr ip port)))"
proof (cases ip)
  case (V4 a)
  then show ?thesis
    using assms get_at_middle [of packet pre] get_range_middle [of packet "pre @ [ADDRESS_IPV4]" "be_bytes 4 a"]
      get_range_middle [of packet "pre @ ADDRESS_IPV4 # be_bytes 4 a" "be_bytes 2 port"]
    by (simp add: decode_address_bytes_def add.commute)
next
  case (V6 a)
  then show ?thesis
    using assms get_at_middle [of packet pre] get_range_middle [of packet "pre @ [ADDRESS_IPV6]" "be_bytes 16 a"]
      get_range_middle [of packet "pre @ ADDRESS_IPV6 # be_bytes 16 a" "be_bytes 2 port"]
    by (simp add: decode_address_bytes_def add.commute)
qed

text \<open>
  a datagram encoded for the peer decodes to the same address, as text, and the same payload, for IPv4
  and IPv6 addresses alike.
\<close>

lemma socks5_udp_roundtrip:
  "and_then (map_err Err (encode_udp_datagram (socket_addr_display address) payload)) decode_udp_datagram =
     Inr (socket_addr_display address, payload)"
proof -
  obtain ip port where a: "address = SocketAddr ip port" by (cases address)
  let ?packet = "[0, 0, 0] @ encode_socket_address address @ payload"
  have "decode_address_bytes ?packet 3 = Inr (ip_display ip, port, 3 + length (encode_socket_address address))"
    unfolding a by (rule decode_encoded_address [of _ "[0, 0, 0]" _ _ payload]) simp_all
  moreover have "encode_socket_address address \<noteq> []" unfolding a by (cases ip) simp_all
  ultimately show ?thesis
    by (simp add: encode_udp_datagram_def decode_udp_datagram_def slice_range_def a format_host_port_display
        eval_nat_numeral)
qed

section \<open>The relay\<close>

lemma decode_udp_datagram_no_panic: "decode_udp_datagram packet \<noteq> Inl Panic"
proof -
  have "offset \<le> length packet" if "decode_address_bytes packet 3 = Inr (host, port, offset)" for host port offset
    using that by (auto simp: decode_address_bytes_def result_iffs get_range_Some Let_def split: if_splits prod.splits)
  then show ?thesis
    by (auto simp: decode_udp_datagram_def and_then_eq_Inl map_err_eq_Inl result_iffs slice_range_def split: if_splits prod.splits)
qed

text \<open>The address of the local peer an action concerns.\<close>

fun action_peer :: "relay_action \<Rightarrow> socket_addr" where
  "action_peer (SendToServer payload target source) = source"
| "action_peer (SendToClient packet client) = client"

lemma relay_step_peer:
  assumes "relay_step send client_address e = (r, actions)"
  shows "r \<noteq> RelayEnded (Inl Panic) \<and> (\<exists>c. (client_address = None \<or> client_address = Some c) \<and>
    list_all (\<lambda>a. action_peer a = c) actions \<and>
    (r = Relaying client_address \<and> actions = [] \<or> r = Relaying (Some c) \<or> (\<exists>x. r = RelayEnded x)))"
  using assms decode_udp_datagram_no_panic
  by (cases "(send, client_address, e)" rule: relay_step.cases)
    (auto simp: Let_def split: if_splits sum.splits fault.splits prod.splits)

lemma relay_udp_peer:
  "fst (relay_udp send client_address es) \<noteq> RelayEnded (Inl Panic) \<and>
   (\<exists>c. (client_address = None \<or> client_address = Some c) \<and>
     list_all (\<lambda>a. action_peer a = c) (snd (relay_udp send client_address es)))"
proof (induction es arbitrary: client_address)
  case Nil
  then show ?case by (cases client_address) auto
next
  case (Cons e es)
  obtain r actions where s: "relay_step send client_address e = (r, actions)" by fastforce
  show ?case
  proof (cases r)
    case (Relaying d)
    obtain r' others where "relay_udp send d es = (r', others)" by fastforce
    then show ?thesis using relay_step_peer [OF s] Cons.IH [of d] s Relaying by auto
  next
    case (RelayEnded x)
    then show ?thesis using relay_step_peer [OF s] s by auto
  qed
qed

text \<open>
  whatever arrives and however sends are answered, the relay never panics, and it serves one local
  peer: the source of every datagram forwarded to the server and the target of every datagram
  returned are the same address.
\<close>

lemma socks5_relay_one_peer:
  "fst (relay_udp send None es) \<noteq> RelayEnded (Inl Panic) \<and>
   (\<exists>c. list_all (\<lambda>a. action_peer a = c) (snd (relay_udp send None es)))"
  using relay_udp_peer [of send None es] by blast

end
