(* ===== verification/Tcp_Proxy.thy ===== *)
theory Tcp_Proxy
  imports Messages Udp_Client Byte_Stream Acl "HOL-Library.Sublist"
begin

unbundle bit_operations_syntax

text \<open>
  Proxied TCP streams (\<open>hysteria-transport/src/proxy.rs\<close>): the requests and responses read incrementally
  from a QUIC stream, the client that opens a tunnel with or without fast open, and the server that
  serves one stream: hook, dial, response, and the two copy loops with their accounting. QUIC streams
  are byte streams; the dialled target, the request hook and the traffic logger are parameters.
\<close>

section \<open>Streams with a random source\<close>

record 'r stream_io = byte_stream +
  io_random :: 'r

text \<open>
  The texts of errors that come from the QUIC implementation and from the random source are theirs; one
  text stands for each, and no operation looks at it.
\<close>

definition io_eof :: transport_error where
  "io_eof = Io ''early eof''"

definition fill_io :: "'r random_source \<Rightarrow> nat \<Rightarrow> (('r, 'z) stream_io_scheme, transport_error, bytes) eff" where
  "fill_io fill n s =
     (case fill (io_random s) n of
        (None, r) \<Rightarrow> (Inl (TransportRandomSource ''random source failed''), s\<lparr>io_random := r\<rparr>)
      | (Some bs, r) \<Rightarrow> (Inr bs, s\<lparr>io_random := r\<rparr>))"

abbreviation (input) TCP_REQUEST_PADDING_MIN :: usize where "TCP_REQUEST_PADDING_MIN \<equiv> 64"
abbreviation (input) TCP_REQUEST_PADDING_MAX_EXCLUSIVE :: usize where "TCP_REQUEST_PADDING_MAX_EXCLUSIVE \<equiv> 512"
abbreviation (input) TCP_RESPONSE_PADDING_MIN :: usize where "TCP_RESPONSE_PADDING_MIN \<equiv> 128"
abbreviation (input) TCP_RESPONSE_PADDING_MAX_EXCLUSIVE :: usize where "TCP_RESPONSE_PADDING_MAX_EXCLUSIVE \<equiv> 1024"
abbreviation (input) CLOSE_TRAFFIC_LIMIT_REACHED :: u32 where "CLOSE_TRAFFIC_LIMIT_REACHED \<equiv> 0x107"

definition random_padding ::
  "'r random_source \<Rightarrow> usize \<Rightarrow> usize \<Rightarrow> (('r, 'z) stream_io_scheme, transport_error, bytes) eff" where
  "random_padding fill minimum maximum_exclusive =
     eff_bind (fill_io fill 2) (\<lambda>length_bytes.
     fill_io fill (minimum + unat (from_be_bytes length_bytes :: u16) mod (maximum_exclusive - minimum)))"

section \<open>Incremental decoding\<close>

fun varint_bytes :: "nat \<Rightarrow> u64 \<Rightarrow> ('z byte_stream_scheme, transport_error, u64) eff" where
  "varint_bytes 0 v = eff_return v"
| "varint_bytes (Suc n) v = eff_bind (read_byte io_eof) (\<lambda>b. varint_bytes n (push_bit 8 v OR ucast b))"

definition read_varint :: "('z byte_stream_scheme, transport_error, u64) eff" where
  "read_varint =
     eff_bind (read_byte io_eof) (\<lambda>first.
     varint_bytes (push_bit (unat (drop_bit 6 first)) 1 - 1) (ucast (first AND 0x3f)))"

definition checked_length :: "u64 \<Rightarrow> usize \<Rightarrow> bool \<Rightarrow> transport_error + usize" where
  "checked_length v maximum allow_empty =
     (if (\<not> allow_empty \<and> v = 0) \<or> v > word_of_nat maximum
      then Inl (Protocol (''invalid length '' @ uint_string v)) else Inr (unat v))"

function discard_exact :: "usize \<Rightarrow> ('z byte_stream_scheme, transport_error, unit) eff" where
  "discard_exact n =
     (if n = 0 then eff_return ()
      else eff_bind (read_exact io_eof (min n 1024)) (\<lambda>_. discard_exact (n - min n 1024)))"
  by pat_completeness auto
termination
  by (relation "measure id") auto

declare discard_exact.simps [simp del]

definition string_from_utf8 :: "bytes \<Rightarrow> transport_error + string" where
  "string_from_utf8 bs = (if utf8_valid bs then Inr (of_bytes bs) else Inl (Protocol (utf8_error 0 bs)))"

definition read_tcp_request :: "('z byte_stream_scheme, transport_error, tcp_request) eff" where
  "read_tcp_request =
     eff_bind read_varint (\<lambda>frame_type.
     if frame_type \<noteq> FRAME_TYPE_TCP_REQUEST
     then eff_fail (Protocol (''invalid TCP frame type 0x'' @ hex_digits (unat frame_type)))
     else
       eff_bind read_varint (\<lambda>v.
       eff_bind (eff_lift (checked_length v MAX_ADDRESS_LENGTH False)) (\<lambda>address_length.
       eff_bind (read_exact io_eof address_length) (\<lambda>address.
       eff_bind read_varint (\<lambda>v.
       eff_bind (eff_lift (checked_length v MAX_PADDING_LENGTH True)) (\<lambda>padding_length.
       eff_bind (discard_exact padding_length) (\<lambda>_.
       eff_bind (eff_lift (string_from_utf8 address)) (\<lambda>address.
       eff_return \<lparr>req_address = address\<rparr>))))))))"

definition read_tcp_response :: "('z byte_stream_scheme, transport_error, tcp_response) eff" where
  "read_tcp_response =
     eff_bind (read_byte io_eof) (\<lambda>status.
     eff_bind read_varint (\<lambda>v.
     eff_bind (eff_lift (checked_length v MAX_MESSAGE_LENGTH True)) (\<lambda>message_length.
     eff_bind (read_exact io_eof message_length) (\<lambda>message.
     eff_bind read_varint (\<lambda>v.
     eff_bind (eff_lift (checked_length v MAX_PADDING_LENGTH True)) (\<lambda>padding_length.
     eff_bind (discard_exact padding_length) (\<lambda>_.
     eff_bind (eff_lift (string_from_utf8 message)) (\<lambda>message.
     eff_return \<lparr>resp_ok = (status = 0), resp_message = message\<rparr>))))))))"

definition write_tcp_response ::
  "'r random_source \<Rightarrow> bool \<Rightarrow> string \<Rightarrow> (('r, 'z) stream_io_scheme, transport_error, unit) eff" where
  "write_tcp_response fill accepted message =
     eff_bind (random_padding fill TCP_RESPONSE_PADDING_MIN TCP_RESPONSE_PADDING_MAX_EXCLUSIVE) (\<lambda>padding.
     eff_bind (eff_lift (map_err as_protocol
       (tcp_response_encode \<lparr>resp_ok = accepted, resp_message = message\<rparr> padding))) (\<lambda>response.
     write_all response))"

text \<open>The last character boundary at or before a position.\<close>

fun floor_boundary :: "string \<Rightarrow> nat \<Rightarrow> nat" where
  "floor_boundary s 0 = 0"
| "floor_boundary s (Suc n) = (if is_char_boundary s (Suc n) then Suc n else floor_boundary s n)"

definition truncate_message :: "string \<Rightarrow> usize \<Rightarrow> string" where
  "truncate_message message maximum =
     (if length message \<le> maximum then message else take (floor_boundary message maximum) message)"

section \<open>The client\<close>

record proxy_client =
  pc_udp :: "client_udp option"
  pc_fast_open :: bool

definition proxy_client_new :: "bool \<Rightarrow> proxy_client" where
  "proxy_client_new udp_enabled =
     \<lparr>pc_udp = (if udp_enabled then Some client_udp_new else None), pc_fast_open = False\<rparr>"

definition with_fast_open :: "proxy_client \<Rightarrow> bool \<Rightarrow> proxy_client" where
  "with_fast_open c enabled = c\<lparr>pc_fast_open := enabled\<rparr>"

datatype tcp_receive = Awaiting | Ready | FailedTunnel

text \<open>Opening a tunnel on a fresh stream; the stream itself has been opened.\<close>

definition proxy_tcp ::
  "'r random_source \<Rightarrow> proxy_client \<Rightarrow> string \<Rightarrow> (('r, 'z) stream_io_scheme, transport_error, tcp_receive) eff" where
  "proxy_tcp fill c address =
     eff_bind (random_padding fill TCP_REQUEST_PADDING_MIN TCP_REQUEST_PADDING_MAX_EXCLUSIVE) (\<lambda>padding.
     eff_bind (eff_lift (map_err as_protocol (tcp_request_encode \<lparr>req_address = address\<rparr> padding))) (\<lambda>request.
     eff_bind (write_all request) (\<lambda>_.
     if pc_fast_open c then eff_return Awaiting
     else eff_bind read_tcp_response (\<lambda>response.
       if \<not> resp_ok response then eff_fail (Io (resp_message response)) else eff_return Ready))))"

definition proxy_udp :: "proxy_client \<Rightarrow> transport_error + nat \<times> proxy_client" where
  "proxy_udp c =
     (case pc_udp c of None \<Rightarrow> Inl UdpDisabled
      | Some cu \<Rightarrow> (case client_open cu of (h, cu') \<Rightarrow> Inr (h, c\<lparr>pc_udp := Some cu'\<rparr>)))"

text \<open>
  Reading from a tunnel into a buffer of \<open>n\<close> bytes, once the stream has the bytes that are needed: a
  tunnel opened with fast open first consumes the response.
\<close>

definition stream_read :: "nat \<Rightarrow> ('z byte_stream_scheme, string, bytes) eff" where
  "stream_read n s = (Inr (take n (bs_in s)), s\<lparr>bs_in := drop n (bs_in s)\<rparr>)"

definition poll_read ::
  "tcp_receive \<Rightarrow> nat \<Rightarrow> 'z byte_stream_scheme \<Rightarrow> (string + bytes) \<times> tcp_receive \<times> 'z byte_stream_scheme" where
  "poll_read receive n s =
     (case receive of
        Ready \<Rightarrow> (case stream_read n s of (r, s') \<Rightarrow> (r, Ready, s'))
      | Awaiting \<Rightarrow>
          (case read_tcp_response s of
             (Inr response, s') \<Rightarrow>
               if resp_ok response then (case stream_read n s' of (r, s'') \<Rightarrow> (r, Ready, s''))
               else (Inl (resp_message response), FailedTunnel, s')
           | (Inl e, s') \<Rightarrow> (Inl (transport_error_display e), FailedTunnel, s'))
      | FailedTunnel \<Rightarrow> (Inl ''TCP tunnel establishment failed'', FailedTunnel, s))"

section \<open>Stream statistics\<close>

datatype stream_state = Initial | Hooking | Connecting | Established | Closed

fun stream_state_as_str :: "stream_state \<Rightarrow> string" where
  "stream_state_as_str Initial = ''init''"
| "stream_state_as_str Hooking = ''hook''"
| "stream_state_as_str Connecting = ''connect''"
| "stream_state_as_str Established = ''estab''"
| "stream_state_as_str Closed = ''closed''"

record stream_stats =
  ss_auth_id :: string
  ss_connection_id :: u32
  ss_stream_id :: u64
  ss_initial_at :: nat
  ss_state :: stream_state
  ss_request_address :: string
  ss_hooked_request_address :: string
  ss_tx :: u64
  ss_rx :: u64
  ss_last_active_at :: nat

definition stream_stats_new :: "nat \<Rightarrow> string \<Rightarrow> u32 \<Rightarrow> u64 \<Rightarrow> stream_stats" where
  "stream_stats_new now auth_id connection_id stream_id =
     \<lparr>ss_auth_id = auth_id, ss_connection_id = connection_id, ss_stream_id = stream_id, ss_initial_at = now,
      ss_state = Initial, ss_request_address = [], ss_hooked_request_address = [], ss_tx = 0, ss_rx = 0,
      ss_last_active_at = now\<rparr>"

definition set_state :: "stream_state \<Rightarrow> stream_stats \<Rightarrow> stream_stats" where
  "set_state state st = st\<lparr>ss_state := state\<rparr>"

definition set_request_address :: "string \<Rightarrow> stream_stats \<Rightarrow> stream_stats" where
  "set_request_address address st = st\<lparr>ss_request_address := address\<rparr>"

definition set_hooked_request_address :: "string \<Rightarrow> stream_stats \<Rightarrow> stream_stats" where
  "set_hooked_request_address address st = st\<lparr>ss_hooked_request_address := address\<rparr>"

definition record_traffic :: "nat \<Rightarrow> u64 \<Rightarrow> u64 \<Rightarrow> stream_stats \<Rightarrow> stream_stats" where
  "record_traffic now tx rx st =
     st\<lparr>ss_tx := ss_tx st + tx, ss_rx := ss_rx st + rx, ss_last_active_at := now\<rparr>"

section \<open>Serving a stream\<close>

text \<open>
  The logger is an object with state \<open>'l\<close>; a hook may read from the client's stream and rewrite the
  address, so it returns what it left unread and the address along with its result.
\<close>

record 'l traffic_logger =
  tl_log_traffic :: "'l \<Rightarrow> string \<Rightarrow> u64 \<Rightarrow> u64 \<Rightarrow> bool \<times> 'l"
  tl_log_online_state :: "'l \<Rightarrow> string \<Rightarrow> bool \<Rightarrow> 'l"
  tl_trace_stream :: "'l \<Rightarrow> stream_stats \<Rightarrow> 'l"
  tl_untrace_stream :: "'l \<Rightarrow> u32 \<Rightarrow> u64 \<Rightarrow> 'l"

record request_hook =
  rh_check :: "bool \<Rightarrow> string \<Rightarrow> bool"
  rh_tcp :: "bytes \<Rightarrow> string \<Rightarrow> (transport_error + bytes) \<times> bytes \<times> string"
  rh_udp :: "bytes \<Rightarrow> string \<Rightarrow> transport_error + string"

record ('l, 's, 'u) tcp_server_context =
  cx_traffic_logger :: "'l traffic_logger option"
  cx_auth_id :: string
  cx_connection_id :: u32
  cx_outbound :: "('s, 'u) server_outbound"
  cx_request_hook :: "request_hook option"

text \<open>
  What serving a stream works on besides the stream: the logger, the statistics, the close code of the
  connection once it has been closed, and what has been written to the target.
\<close>

record ('r, 'l) tcp_server = "'r stream_io" +
  ts_logger :: 'l
  ts_stats :: "stream_stats option"
  ts_close :: "u32 option"
  ts_target :: bytes
  ts_target_shutdown :: bool
  ts_finished :: bool

definition with_stats :: "(stream_stats \<Rightarrow> stream_stats) \<Rightarrow> ('r, 'l) tcp_server \<Rightarrow> ('r, 'l) tcp_server" where
  "with_stats f s = s\<lparr>ts_stats := map_option f (ts_stats s)\<rparr>"

definition stream_trace_new ::
  "('l, 's, 'u) tcp_server_context \<Rightarrow> nat \<Rightarrow> u64 \<Rightarrow> ('r, 'l) tcp_server \<Rightarrow> ('r, 'l) tcp_server" where
  "stream_trace_new cx now stream_id s =
     (case cx_traffic_logger cx of
        None \<Rightarrow> s\<lparr>ts_stats := None\<rparr>
      | Some logger \<Rightarrow>
          (let st = stream_stats_new now (cx_auth_id cx) (cx_connection_id cx) stream_id in
           s\<lparr>ts_stats := Some st, ts_logger := tl_trace_stream logger (ts_logger s) st\<rparr>))"

definition stream_trace_drop :: "('l, 's, 'u) tcp_server_context \<Rightarrow> ('r, 'l) tcp_server \<Rightarrow> ('r, 'l) tcp_server" where
  "stream_trace_drop cx s =
     (case (cx_traffic_logger cx, ts_stats s) of
        (Some logger, Some st) \<Rightarrow>
          with_stats (set_state Closed)
            (s\<lparr>ts_logger := tl_untrace_stream logger (ts_logger s) (ss_connection_id st) (ss_stream_id st)\<rparr>)
      | _ \<Rightarrow> s)"

definition log_allowed ::
  "('l, 's, 'u) tcp_server_context \<Rightarrow> u64 \<Rightarrow> u64 \<Rightarrow> ('r, 'l) tcp_server \<Rightarrow> bool \<times> ('r, 'l) tcp_server" where
  "log_allowed cx tx rx s =
     (case cx_traffic_logger cx of
        None \<Rightarrow> (True, s)
      | Some logger \<Rightarrow>
          (case tl_log_traffic logger (ts_logger s) (cx_auth_id cx) tx rx of
             (allowed, l) \<Rightarrow> (allowed, s\<lparr>ts_logger := l\<rparr>)))"

text \<open>\<open>write_ok\<close> is whether the target takes the bytes.\<close>

definition write_hooked_prefix ::
  "('l, 's, 'u) tcp_server_context \<Rightarrow> nat \<Rightarrow> bool \<Rightarrow> bytes \<Rightarrow> ('r, 'l) tcp_server \<Rightarrow> bool \<times> ('r, 'l) tcp_server" where
  "write_hooked_prefix cx now write_ok putback s =
     (if putback = [] then (True, s)
      else
        (case log_allowed cx (word_of_nat (length putback)) 0
            (with_stats (record_traffic now (word_of_nat (length putback)) 0) s) of
           (False, s) \<Rightarrow> (False, s\<lparr>ts_close := Some CLOSE_TRAFFIC_LIMIT_REACHED\<rparr>)
         | (True, s) \<Rightarrow>
             if write_ok then (True, s\<lparr>ts_target := ts_target s @ putback\<rparr>) else (False, s)))"

definition should_hook :: "('l, 's, 'u) tcp_server_context \<Rightarrow> string \<Rightarrow> bool" where
  "should_hook cx address =
     (case cx_request_hook cx of None \<Rightarrow> False | Some hook \<Rightarrow> rh_check hook False address)"

definition run_hook ::
  "('l, 's, 'u) tcp_server_context \<Rightarrow> string \<Rightarrow> (('r, 'l) tcp_server, transport_error, bytes \<times> string) eff" where
  "run_hook cx address s =
     (case cx_request_hook cx of
        Some hook \<Rightarrow>
          if rh_check hook False address then
            (let s = with_stats (set_state Hooking) s in
             case rh_tcp hook (bs_in s) address of
               (Inl e, rest, _) \<Rightarrow> (Inl e, s\<lparr>bs_in := rest\<rparr>)
             | (Inr putback, rest, address') \<Rightarrow> (Inr (putback, address'), s\<lparr>bs_in := rest\<rparr>))
          else (Inr ([], address), s)
      | None \<Rightarrow> (Inr ([], address), s))"

text \<open>The first part of \<open>handle_tcp_stream\<close>: everything up to the copy loops.\<close>

definition open_tcp_stream ::
  "'r random_source \<Rightarrow> ('l, 's, 'u) tcp_server_context \<Rightarrow> nat \<Rightarrow> bool \<Rightarrow> ('r, 'l) tcp_server \<Rightarrow>
     's option \<times> ('r, 'l) tcp_server" where
  "open_tcp_stream fill cx now write_ok s =
     (case read_tcp_request s of
        (Inl _, s) \<Rightarrow> (None, s)
      | (Inr request, s) \<Rightarrow>
          (case run_hook cx (req_address request)
              (with_stats (\<lambda>st. set_state Connecting (set_request_address (req_address request) st)) s) of
             (Inl _, s) \<Rightarrow> (None, s)
           | (Inr (putback, address), s) \<Rightarrow>
               (let s = with_stats (\<lambda>st. set_state Connecting
                      (if should_hook cx (req_address request) then set_hooked_request_address address st else st)) s in
                case ob_tcp (cx_outbound cx) address of
                  Inl e \<Rightarrow>
                    (None, snd (write_tcp_response fill False
                       (truncate_message (transport_error_display e) MAX_MESSAGE_LENGTH) s))
                | Inr target \<Rightarrow>
                    (case write_tcp_response fill True ''Connected'' s of
                       (Inl _, s) \<Rightarrow> (None, s)
                     | (Inr _, s) \<Rightarrow>
                         (case write_hooked_prefix cx now write_ok putback (with_stats (set_state Established) s) of
                            (False, s) \<Rightarrow> (None, s)
                          | (True, s) \<Rightarrow> (Some target, s))))))"

subsection \<open>The copy loops\<close>

text \<open>
  A turn of one of the two loops: what its read gives (no bytes at the end of the source), the time, and
  whether the write that follows succeeds. The turns of the two loops interleave in any order.
\<close>

datatype direction = ClientToTarget | TargetToClient

record copy_turn =
  ct_direction :: direction
  ct_read :: "string + bytes"
  ct_now :: nat
  ct_write :: "string + unit"

datatype loop_end = Running | Ended "transport_error + unit"

definition deliver :: "direction \<Rightarrow> bytes \<Rightarrow> ('r, 'l) tcp_server \<Rightarrow> ('r, 'l) tcp_server" where
  "deliver dir data s =
     (case dir of
        ClientToTarget \<Rightarrow> s\<lparr>ts_target := ts_target s @ data\<rparr>
      | TargetToClient \<Rightarrow> s\<lparr>bs_out := bs_out s @ data\<rparr>)"

definition close_direction :: "direction \<Rightarrow> ('r, 'l) tcp_server \<Rightarrow> ('r, 'l) tcp_server" where
  "close_direction dir s =
     (case dir of
        ClientToTarget \<Rightarrow> s\<lparr>ts_target_shutdown := True\<rparr>
      | TargetToClient \<Rightarrow> s\<lparr>ts_finished := True\<rparr>)"

definition counts :: "direction \<Rightarrow> usize \<Rightarrow> u64 \<times> u64" where
  "counts dir n = (case dir of ClientToTarget \<Rightarrow> (word_of_nat n, 0) | TargetToClient \<Rightarrow> (0, word_of_nat n))"

definition copy_with_traffic ::
  "('l, 's, 'u) tcp_server_context \<Rightarrow> copy_turn \<Rightarrow> ('r, 'l) tcp_server \<Rightarrow> loop_end \<times> ('r, 'l) tcp_server" where
  "copy_with_traffic cx t s =
     (case ct_read t of
        Inl e \<Rightarrow> (Ended (Inl (Io e)), s)
      | Inr data \<Rightarrow>
          if data = [] then
            (case ct_write t of Inl e \<Rightarrow> (Ended (Inl (Io e)), s) | Inr _ \<Rightarrow> (Ended (Inr ()), close_direction (ct_direction t) s))
          else
            (case counts (ct_direction t) (length data) of
               (tx, rx) \<Rightarrow>
                 (case log_allowed cx tx rx (with_stats (record_traffic (ct_now t) tx rx) s) of
                    (False, s) \<Rightarrow> (Ended (Inl TrafficLimitReached), s)
                  | (True, s) \<Rightarrow>
                      (case ct_write t of
                         Inl e \<Rightarrow> (Ended (Inl (Io e)), s)
                       | Inr _ \<Rightarrow> (Running, deliver (ct_direction t) data s)))))"

text \<open>
  \<open>try_join\<close>: both loops to their end, or the first error. The two flags say which loops have ended; a
  turn of an ended loop does not happen.
\<close>

definition loop_ended :: "bool \<Rightarrow> bool \<Rightarrow> direction \<Rightarrow> bool" where
  "loop_ended up down dir = (case dir of ClientToTarget \<Rightarrow> up | TargetToClient \<Rightarrow> down)"

fun try_join ::
  "('l, 's, 'u) tcp_server_context \<Rightarrow> bool \<Rightarrow> bool \<Rightarrow> copy_turn list \<Rightarrow> ('r, 'l) tcp_server \<Rightarrow>
     loop_end \<times> ('r, 'l) tcp_server" where
  "try_join cx up down [] s = ((if up \<and> down then Ended (Inr ()) else Running), s)"
| "try_join cx up down (t # ts) s =
     (if up \<and> down then (Ended (Inr ()), s)
      else if loop_ended up down (ct_direction t) then try_join cx up down ts s
      else
        (case copy_with_traffic cx t s of
           (Running, s) \<Rightarrow> try_join cx up down ts s
         | (Ended (Inr _), s) \<Rightarrow>
             try_join cx (up \<or> ct_direction t = ClientToTarget) (down \<or> ct_direction t = TargetToClient) ts s
         | (Ended (Inl e), s) \<Rightarrow> (Ended (Inl e), s)))"

definition join_tcp_stream ::
  "('l, 's, 'u) tcp_server_context \<Rightarrow> copy_turn list \<Rightarrow> ('r, 'l) tcp_server \<Rightarrow> loop_end \<times> ('r, 'l) tcp_server" where
  "join_tcp_stream cx ts s =
     (case try_join cx False False ts s of
        (r, s) \<Rightarrow> (r, if r = Ended (Inl TrafficLimitReached)
                     then s\<lparr>ts_close := Some CLOSE_TRAFFIC_LIMIT_REACHED\<rparr> else s))"

text \<open>
  The whole handler, for the turns the loops take after the target has been dialled; it has returned, and
  the trace has been dropped, unless the loops are still running.
\<close>

definition handle_tcp_stream ::
  "'r random_source \<Rightarrow> ('l, 's, 'u) tcp_server_context \<Rightarrow> nat \<Rightarrow> u64 \<Rightarrow> bool \<Rightarrow> ('s \<Rightarrow> copy_turn list) \<Rightarrow>
     ('r, 'l) tcp_server \<Rightarrow> bool \<times> ('r, 'l) tcp_server" where
  "handle_tcp_stream fill cx now stream_id write_ok turns s =
     (case open_tcp_stream fill cx now write_ok (stream_trace_new cx now stream_id s) of
        (None, s) \<Rightarrow> (True, stream_trace_drop cx s)
      | (Some target, s) \<Rightarrow>
          (case join_tcp_stream cx (turns target) s of
             (Running, s) \<Rightarrow> (False, s)
           | (Ended _, s) \<Rightarrow> (True, stream_trace_drop cx s)))"

section \<open>Presence of a connection\<close>

text \<open>
  \<open>serve\<close> holds an online guard for as long as it accepts streams: the guard reports the user as online
  when it is made and as offline when it is dropped. \<open>ne\<close> reads an integer in the byte order of the machine.
\<close>

abbreviation (input) random_connection_id ::
  "'r random_source \<Rightarrow> (bytes \<Rightarrow> u32) \<Rightarrow> (('r, 'z) stream_io_scheme, transport_error, u32) eff" where
  "random_connection_id fill ne \<equiv> eff_bind (fill_io fill 4) (\<lambda>bs. eff_return (ne bs))"

definition online_guard_new :: "'l traffic_logger \<Rightarrow> string \<Rightarrow> 'l \<Rightarrow> 'l" where
  "online_guard_new logger auth_id l = tl_log_online_state logger l auth_id True"

definition online_guard_drop :: "'l traffic_logger \<Rightarrow> string \<Rightarrow> 'l \<Rightarrow> 'l" where
  "online_guard_drop logger auth_id l = tl_log_online_state logger l auth_id False"

section \<open>Lemmas on reading and writing messages\<close>

lemma varint_bytes_eq:
  "varint_bytes n v s =
     (if n \<le> length (bs_in s) then (Inr (foldl be_step v (take n (bs_in s))), s\<lparr>bs_in := drop n (bs_in s)\<rparr>)
      else (Inl io_eof, s\<lparr>bs_in := []\<rparr>))"
proof (induction n arbitrary: v s)
  case (Suc n)
  then show ?case
    by (cases "bs_in s") (auto simp: eff_bind_def read_byte_def eff_return_def read_exact_def be_step_def [of v])
qed (simp add: eff_return_def)

lemma read_varint_eq:
  "read_varint s =
     (case decode_varint (bs_in s) of
        Inl _ \<Rightarrow> (Inl io_eof, s\<lparr>bs_in := []\<rparr>) | Inr (v, rest) \<Rightarrow> (Inr v, s\<lparr>bs_in := rest\<rparr>))"
proof (cases "bs_in s")
  case Nil
  then show ?thesis by (simp add: read_varint_def decode_varint_def eff_bind_def read_byte_def read_exact_def)
next
  case (Cons b bs)
  let ?n = "push_bit (unat (drop_bit 6 b)) (1 :: nat)"
  have "?n > 0" by (simp add: push_bit_eq_mult)
  then obtain m where m: "2 ^ unat (drop_bit 6 b) = Suc m" by (cases "2 ^ unat (drop_bit 6 b) :: nat") (auto simp: push_bit_eq_mult)
  show ?thesis
    unfolding read_varint_def decode_varint_def
    by (simp add: Cons m Let_def eff_bind_def read_byte_def read_exact_def eff_return_def varint_bytes_eq push_bit_eq_mult)
qed

lemma read_varint_Inr:
  "read_varint s = (Inr v, s') \<longleftrightarrow> (\<exists>rest. decode_varint (bs_in s) = Inr (v, rest) \<and> s' = s\<lparr>bs_in := rest\<rparr>)"
  by (auto simp: read_varint_eq split: sum.splits)

lemma discard_exact_eq:
  "discard_exact n s =
     (if n \<le> length (bs_in s) then (Inr (), s\<lparr>bs_in := drop n (bs_in s)\<rparr>) else (Inl io_eof, s\<lparr>bs_in := []\<rparr>))"
proof (induction n arbitrary: s rule: discard_exact.induct)
  case (1 n)
  show ?case
  proof (cases "n = 0")
    case True
    then show ?thesis by (simp add: discard_exact.simps [of 0] eff_return_def)
  next
    case False
    then show ?thesis using 1 [OF False]
      by (simp add: discard_exact.simps [of n] eff_bind_def read_exact_def min_def) arith
  qed
qed

lemma discard_exact_Inr:
  "discard_exact n s = (Inr u, s') \<longleftrightarrow>
     (\<exists>skipped rest. bs_in s = skipped @ rest \<and> length skipped = n \<and> s' = s\<lparr>bs_in := rest\<rparr>)"
proof -
  have "bs_in s = take n (bs_in s) @ drop n (bs_in s)" by simp
  then have "n \<le> length (bs_in s) \<Longrightarrow> \<exists>skipped rest. bs_in s = skipped @ rest \<and> length skipped = n \<and>
      s\<lparr>bs_in := drop n (bs_in s)\<rparr> = s\<lparr>bs_in := rest\<rparr>"
    by (intro exI [of _ "take n (bs_in s)"] exI [of _ "drop n (bs_in s)"]) (simp add: min_def)
  then show ?thesis by (auto simp: discard_exact_eq)
qed

lemma checked_length_Inr:
  "maximum \<le> 4096 \<Longrightarrow> checked_length v maximum allow_empty = Inr n \<longleftrightarrow>
     n = unat v \<and> unat v \<le> maximum \<and> (allow_empty \<or> v \<noteq> 0)"
  by (auto simp: checked_length_def word_less_nat_alt unat_small_length)

lemma string_from_utf8_Inr: "string_from_utf8 bs = Inr t \<longleftrightarrow> utf8_valid bs \<and> t = of_bytes bs"
  by (auto simp: string_from_utf8_def)

lemmas message_reads = stream_iffs read_varint_Inr discard_exact_Inr string_from_utf8_Inr checked_length_Inr
 

lemma read_tcp_request_decode:
  assumes "read_tcp_request s = (Inr r, s')"
  shows "tcp_request_decode (bs_in s) = Inr (r, bs_in s') \<and> s' = s\<lparr>bs_in := bs_in s'\<rparr> \<and> valid_string (req_address r)"
  using assms
  by (auto simp: read_tcp_request_def message_reads tcp_request_decode_def tcp_request_decode_body_def
      take_bytes_append_eq valid_string_def from_utf8_lossy_def utf8_lossy_valid split: if_splits)

lemma read_tcp_response_decode:
  assumes "read_tcp_response s = (Inr r, s')"
  shows "tcp_response_decode (bs_in s) = Inr (r, bs_in s') \<and> s' = s\<lparr>bs_in := bs_in s'\<rparr> \<and> valid_string (resp_message r)"
  using assms
  by (auto simp: read_tcp_response_def message_reads tcp_response_decode_def take_bytes_def
      valid_string_def from_utf8_lossy_def utf8_lossy_valid split: if_splits)

lemmas message_evals = eff_bind_def eff_lift_def eff_return_def read_varint_eq read_exact_def discard_exact_eq
  checked_length_def string_from_utf8_def valid_string_def unat_small_length word_less_nat_alt

lemma read_tcp_request_encoded:
  assumes wf: "tcp_request_wf (r, padding)" and enc: "tcp_request_encode r padding = Inr bs" and s: "bs_in s = bs @ rest"
  shows "read_tcp_request s = (Inr r, s\<lparr>bs_in := rest\<rparr>)"
proof -
  have a: "length (req_address r) \<le> 2048" "req_address r \<noteq> []" "valid_string (req_address r)"
    and p: "length padding \<le> 4096"
    using wf by (simp_all add: tcp_request_wf_def)
  obtain ft al pl where bs: "bs = ft @ al @ as_bytes (req_address r) @ pl @ padding"
    and d: "\<And>rest. decode_varint (ft @ rest) = Inr (FRAME_TYPE_TCP_REQUEST, rest)"
    "\<And>rest. decode_varint (al @ rest) = Inr (word_of_nat (length (req_address r)), rest)"
    "\<And>rest. decode_varint (pl @ rest) = Inr (word_of_nat (length padding), rest)"
    by (rule tcp_request_encode_form [OF wf]) (use enc in auto)
  show ?thesis
    using a p
    by (cases r) (simp add: read_tcp_request_def message_evals s bs d small_length_zero)
qed

lemma read_tcp_response_encoded:
  assumes wf: "tcp_response_wf (r, padding)" and enc: "tcp_response_encode r padding = Inr bs" and s: "bs_in s = bs @ rest"
  shows "read_tcp_response s = (Inr r, s\<lparr>bs_in := rest\<rparr>)"
proof -
  have a: "length (resp_message r) \<le> 2048" "valid_string (resp_message r)" and p: "length padding \<le> 4096"
    using wf by (simp_all add: tcp_response_wf_def)
  obtain al pl where bs: "bs = (if resp_ok r then 0 else 1) # al @ as_bytes (resp_message r) @ pl @ padding"
    and d: "\<And>rest. decode_varint (al @ rest) = Inr (word_of_nat (length (resp_message r)), rest)"
    "\<And>rest. decode_varint (pl @ rest) = Inr (word_of_nat (length padding), rest)"
    by (rule tcp_response_encode_form [OF wf]) (use enc in auto)
  show ?thesis
    using a p
    by (cases r) (simp add: read_tcp_response_def message_evals read_byte_def s bs d)
qed

lemma floor_boundary:
  "is_char_boundary s (floor_boundary s n)" "floor_boundary s n \<le> n"
  by (induction n) (auto simp: is_char_boundary_def)

lemma truncate_message:
  "length (truncate_message m n) \<le> n"
  "valid_string m \<Longrightarrow> valid_string (truncate_message m n)"
  using floor_boundary [of m n] by (auto simp: truncate_message_def intro: valid_string_take)

lemma fill_io_always:
  assumes "always_random fill"
  obtains bs r where "fill_io fill n s = (Inr bs, s\<lparr>io_random := r\<rparr>)" "length bs = n"
proof -
  obtain bs r where "fill (io_random s) n = (Some bs, r)" "length bs = n"
    using assms unfolding always_random_def by metis
  then show ?thesis by (intro that) (simp_all add: fill_io_def)
qed

lemma random_padding_always:
  assumes "always_random fill" "minimum < maximum"
  obtains padding r where "random_padding fill minimum maximum s = (Inr padding, s\<lparr>io_random := r\<rparr>)"
    "minimum \<le> length padding" "length padding < maximum"
proof -
  obtain lb r where lb: "fill_io fill 2 s = (Inr lb, s\<lparr>io_random := r\<rparr>)"
    using assms(1) by (rule fill_io_always)
  let ?n = "minimum + unat (from_be_bytes lb :: u16) mod (maximum - minimum)"
  obtain bs r' where bs: "fill_io fill ?n (s\<lparr>io_random := r\<rparr>) = (Inr bs, s\<lparr>io_random := r, io_random := r'\<rparr>)" "length bs = ?n"
    using assms(1) by (rule fill_io_always)
  have "unat (from_be_bytes lb :: u16) mod (maximum - minimum) < maximum - minimum" using assms(2) by simp
  with bs lb show ?thesis by (intro that [of bs r']) (simp_all add: random_padding_def eff_bind_def)
qed

lemma write_tcp_response_always:
  assumes fill: "always_random fill" and m: "length message \<le> MAX_MESSAGE_LENGTH" "valid_string message"
  obtains padding bs r where "write_tcp_response fill accepted message s =
      (Inr (), s\<lparr>io_random := r, bs_out := bs_out s @ bs\<rparr>)"
    "tcp_response_encode \<lparr>resp_ok = accepted, resp_message = message\<rparr> padding = Inr bs"
    "tcp_response_wf (\<lparr>resp_ok = accepted, resp_message = message\<rparr>, padding)"
proof -
  obtain padding r where p: "random_padding fill TCP_RESPONSE_PADDING_MIN TCP_RESPONSE_PADDING_MAX_EXCLUSIVE s =
      (Inr padding, s\<lparr>io_random := r\<rparr>)" "length padding < TCP_RESPONSE_PADDING_MAX_EXCLUSIVE"
    by (rule random_padding_always [OF fill, of TCP_RESPONSE_PADDING_MIN TCP_RESPONSE_PADDING_MAX_EXCLUSIVE s])
      auto
  have wf: "tcp_response_wf (\<lparr>resp_ok = accepted, resp_message = message\<rparr>, padding)"
    using m p(2) by (simp add: tcp_response_wf_def)
  obtain bs where bs: "tcp_response_encode \<lparr>resp_ok = accepted, resp_message = message\<rparr> padding = Inr bs"
    by (rule tcp_response_encode_form [OF wf])
  show ?thesis
    by (rule that [OF _ bs wf, where r = r])
      (simp add: write_tcp_response_def eff_bind_def p(1) eff_lift_def bs write_all_def)
qed

lemma proxy_tcp_request:
  assumes fill: "always_random fill"
    and a: "address \<noteq> []" "length address \<le> MAX_ADDRESS_LENGTH" "valid_string address"
  obtains padding bs r where
    "tcp_request_encode \<lparr>req_address = address\<rparr> padding = Inr bs" "tcp_request_wf (\<lparr>req_address = address\<rparr>, padding)"
    "\<forall>c. proxy_tcp fill c address s =
      (if pc_fast_open c then eff_return Awaiting
       else eff_bind read_tcp_response (\<lambda>response.
         if \<not> resp_ok response then eff_fail (Io (resp_message response)) else eff_return Ready))
      (s\<lparr>io_random := r, bs_out := bs_out s @ bs\<rparr>)"
proof -
  obtain padding r where p: "random_padding fill TCP_REQUEST_PADDING_MIN TCP_REQUEST_PADDING_MAX_EXCLUSIVE s =
      (Inr padding, s\<lparr>io_random := r\<rparr>)" "length padding < TCP_REQUEST_PADDING_MAX_EXCLUSIVE"
    by (rule random_padding_always [OF fill, of TCP_REQUEST_PADDING_MIN TCP_REQUEST_PADDING_MAX_EXCLUSIVE s])
      auto
  have wf: "tcp_request_wf (\<lparr>req_address = address\<rparr>, padding)"
    using a p(2) by (simp add: tcp_request_wf_def)
  obtain bs where bs: "tcp_request_encode \<lparr>req_address = address\<rparr> padding = Inr bs"
    by (rule tcp_request_encode_form [OF wf])
  show ?thesis
    by (rule that [OF bs wf, where r = r])
      (simp add: proxy_tcp_def eff_bind_def p(1) eff_lift_def bs write_all_def)
qed

section \<open>Opening a stream\<close>

lemma open_tcp_stream_plain:
  assumes fill: "always_random fill" and hook: "cx_request_hook cx = None"
    and request: "read_tcp_request s = (Inr \<lparr>req_address = address\<rparr>, s\<lparr>bs_in := data\<rparr>)"
    and utf8: "\<And>e. ob_tcp (cx_outbound cx) address = Inl e \<Longrightarrow> valid_string (transport_error_display e)"
    and out: "bs_out s = []"
    and run: "open_tcp_stream fill cx now write_ok s = (target, s')"
    and c: "bs_in c = bs_out s' @ reply"
  shows "case ob_tcp (cx_outbound cx) address of
      Inr t \<Rightarrow> target = Some t \<and> bs_in s' = data \<and> ts_target s' = ts_target s \<and>
        read_tcp_response c = (Inr \<lparr>resp_ok = True, resp_message = ''Connected''\<rparr>, c\<lparr>bs_in := reply\<rparr>)
    | Inl e \<Rightarrow> target = None \<and>
        read_tcp_response c = (Inr \<lparr>resp_ok = False,
          resp_message = truncate_message (transport_error_display e) MAX_MESSAGE_LENGTH\<rparr>, c\<lparr>bs_in := reply\<rparr>)"
proof (cases "ob_tcp (cx_outbound cx) address")
  case (Inl e)
  let ?m = "truncate_message (transport_error_display e) MAX_MESSAGE_LENGTH"
  let ?s = "with_stats (set_state Connecting)
      (with_stats (\<lambda>st. set_state Connecting (set_request_address address st)) (s\<lparr>bs_in := data\<rparr>))"
  have m: "length ?m \<le> MAX_MESSAGE_LENGTH" "valid_string ?m"
    using truncate_message utf8 [OF Inl] by blast+
  obtain padding bs r where w: "write_tcp_response fill False ?m ?s = (Inr (), ?s\<lparr>io_random := r, bs_out := bs_out ?s @ bs\<rparr>)"
    and enc: "tcp_response_encode \<lparr>resp_ok = False, resp_message = ?m\<rparr> padding = Inr bs"
      "tcp_response_wf (\<lparr>resp_ok = False, resp_message = ?m\<rparr>, padding)"
    using fill m by (rule write_tcp_response_always)
  have "target = None" "bs_out s' = bs"
    using run w Inl out by (auto simp: open_tcp_stream_def request run_hook_def hook should_hook_def Let_def with_stats_def)
  then show ?thesis using c by (auto simp: Inl intro!: read_tcp_response_encoded [OF enc(2,1)])
next
  case (Inr t)
  let ?s = "with_stats (set_state Connecting)
      (with_stats (\<lambda>st. set_state Connecting (set_request_address address st)) (s\<lparr>bs_in := data\<rparr>))"
  have m: "length ''Connected'' \<le> MAX_MESSAGE_LENGTH" "valid_string ''Connected''"
    by (simp_all add:) code_simp
  obtain padding bs r where w: "write_tcp_response fill True ''Connected'' ?s = (Inr (), ?s\<lparr>io_random := r, bs_out := bs_out ?s @ bs\<rparr>)"
    and enc: "tcp_response_encode \<lparr>resp_ok = True, resp_message = ''Connected''\<rparr> padding = Inr bs"
      "tcp_response_wf (\<lparr>resp_ok = True, resp_message = ''Connected''\<rparr>, padding)"
    using fill m by (rule write_tcp_response_always)
  have "target = Some t" "bs_out s' = bs" "bs_in s' = data" "ts_target s' = ts_target s"
    using run w Inr out
    by (auto simp: open_tcp_stream_def request run_hook_def hook should_hook_def Let_def with_stats_def write_hooked_prefix_def)
  then show ?thesis using c by (auto simp: Inr intro!: read_tcp_response_encoded [OF enc(2,1)])
qed

section \<open>Accounting\<close>

text \<open>The bytes that the turns of one direction read.\<close>

fun data_of :: "direction \<Rightarrow> copy_turn list \<Rightarrow> bytes" where
  "data_of dir [] = []"
| "data_of dir (t # ts) =
     (case ct_read t of Inr data \<Rightarrow> if ct_direction t = dir then data @ data_of dir ts else data_of dir ts
      | Inl _ \<Rightarrow> data_of dir ts)"

definition moved :: "direction \<Rightarrow> ('r, 'l) tcp_server \<Rightarrow> bytes" where
  "moved dir s = (case dir of ClientToTarget \<Rightarrow> ts_target s | TargetToClient \<Rightarrow> bs_out s)"

definition counted :: "direction \<Rightarrow> stream_stats \<Rightarrow> u64" where
  "counted dir st = (case dir of ClientToTarget \<Rightarrow> ss_tx st | TargetToClient \<Rightarrow> ss_rx st)"

lemma log_allowed_keeps:
  "log_allowed cx tx rx s = (a, s') \<Longrightarrow>
     ts_stats s' = ts_stats s \<and> ts_target s' = ts_target s \<and> bs_out s' = bs_out s \<and> bs_in s' = bs_in s \<and>
     ts_close s' = ts_close s"
  by (auto simp: log_allowed_def split: option.splits prod.splits)

lemma copy_with_traffic_moves:
  assumes "copy_with_traffic cx t s = (e, s')" "ts_stats s = Some st"
  shows "\<exists>st' data. ts_stats s' = Some st' \<and> moved dir s' = moved dir s @ data \<and>
    prefix data (data_of dir [t]) \<and> ss_auth_id st' = ss_auth_id st \<and>
    (e = Running \<longrightarrow> data = data_of dir [t]) \<and>
    ((\<forall>x. e \<noteq> Ended (Inl x)) \<longrightarrow> counted dir st' = counted dir st + word_of_nat (length data))"
proof (cases dir)
  case ClientToTarget
  with assms show ?thesis
    by (auto simp: copy_with_traffic_def moved_def counted_def counts_def deliver_def close_direction_def with_stats_def
        record_traffic_def dest!: log_allowed_keeps split: sum.splits if_splits prod.splits bool.splits direction.splits)
next
  case TargetToClient
  with assms show ?thesis
    by (auto simp: copy_with_traffic_def moved_def counted_def counts_def deliver_def close_direction_def with_stats_def
        record_traffic_def dest!: log_allowed_keeps split: sum.splits if_splits prod.splits bool.splits direction.splits)
qed

lemma data_of_Cons: "data_of dir (t # ts) = data_of dir [t] @ data_of dir ts"
  by (simp split: sum.splits)

lemma copy_with_traffic_ended:
  "copy_with_traffic cx t s = (Ended (Inr u), s') \<Longrightarrow> data_of dir [t] = []"
  by (auto simp: copy_with_traffic_def split: sum.splits if_splits prod.splits bool.splits)

lemma copy_with_traffic_other:
  "copy_with_traffic cx t s = (e, s') \<Longrightarrow> ct_direction t \<noteq> dir \<Longrightarrow> moved dir s' = moved dir s"
  by (cases dir)
    (auto simp: copy_with_traffic_def moved_def deliver_def close_direction_def with_stats_def
      dest!: log_allowed_keeps split: sum.splits if_splits prod.splits bool.splits direction.splits)

lemma loop_ended_or:
  "loop_ended (up \<or> d = ClientToTarget) (down \<or> d = TargetToClient) dir = (loop_ended up down dir \<or> d = dir)"
  by (cases dir) (simp_all add: loop_ended_def)

text \<open>What one direction has moved, how it relates to what was read, and what was counted.\<close>

definition accounts :: "direction \<Rightarrow> bytes \<Rightarrow> loop_end \<Rightarrow> ('r, 'l) tcp_server \<Rightarrow> ('r, 'l) tcp_server \<Rightarrow> bool" where
  "accounts dir read e s s' \<longleftrightarrow>
     (\<forall>st. ts_stats s = Some st \<longrightarrow>
       (\<exists>st' data. ts_stats s' = Some st' \<and> moved dir s' = moved dir s @ data \<and> prefix data read \<and>
          ((\<forall>x. e \<noteq> Ended (Inl x)) \<longrightarrow> counted dir st' = counted dir st + word_of_nat (length data))))"

lemma accounts_refl: "accounts dir read e s s"
  by (auto simp: accounts_def)

lemma accounts_step:
  assumes c: "copy_with_traffic cx t s = (e1, s1)" "\<forall>x. e1 \<noteq> Ended (Inl x)" and r: "accounts dir read e s1 s'"
  shows "accounts dir (data_of dir [t] @ read) e s s'"
proof (unfold accounts_def, intro allI impI)
  fix st
  assume st: "ts_stats s = Some st"
  obtain st1 data1 where 1: "ts_stats s1 = Some st1" "moved dir s1 = moved dir s @ data1"
      "e1 = Running \<longrightarrow> data1 = data_of dir [t]" "prefix data1 (data_of dir [t])"
      "counted dir st1 = counted dir st + word_of_nat (length data1)"
    using copy_with_traffic_moves [OF c(1) st] c(2) by blast
  have d: "data1 = data_of dir [t]"
  proof (cases e1)
    case (Ended r)
    then obtain u where "e1 = Ended (Inr u)" using c(2) by (cases r) auto
    with c 1(4) copy_with_traffic_ended [of cx t s u s1 dir] show ?thesis by simp
  qed (use 1 in simp)
  obtain st' data where 2: "ts_stats s' = Some st'" "moved dir s' = moved dir s1 @ data" "prefix data read"
      "(\<forall>x. e \<noteq> Ended (Inl x)) \<longrightarrow> counted dir st' = counted dir st1 + word_of_nat (length data)"
    using r 1(1) unfolding accounts_def by blast
  show "\<exists>st' data'. ts_stats s' = Some st' \<and> moved dir s' = moved dir s @ data' \<and> prefix data' (data_of dir [t] @ read) \<and>
      ((\<forall>x. e \<noteq> Ended (Inl x)) \<longrightarrow> counted dir st' = counted dir st + word_of_nat (length data'))"
    using 1 2 d by (intro exI [of _ st'] exI [of _ "data_of dir [t] @ data"]) (simp del: data_of.simps)
qed

lemma accounts_failed:
  assumes "copy_with_traffic cx t s = (Ended (Inl x), s')"
  shows "accounts dir (data_of dir [t] @ read) (Ended (Inl x)) s s'"
  using copy_with_traffic_moves [OF assms, of _ dir] unfolding accounts_def by (auto simp del: data_of.simps)

lemma try_join_accounts:
  "try_join cx up down ts s = (e, s') \<Longrightarrow> accounts dir (if loop_ended up down dir then [] else data_of dir ts) e s s'"
proof (induction cx up down ts s rule: try_join.induct)
  case (1 cx up down s)
  then show ?case by (simp add: accounts_refl)
next
  case (2 cx up down t ts s)
  let ?skip = "loop_ended up down (ct_direction t)"
  have skip: "data_of dir [t] = []" if "ct_direction t \<noteq> dir" using that by (simp split: sum.splits)
  show ?case
  proof (cases "up \<and> down \<or> ?skip")
    case True
    then show ?thesis using 2 skip
      by (cases "dir = ct_direction t")
        (auto simp: accounts_refl data_of_Cons [of _ t ts] loop_ended_def simp del: data_of.simps split: if_splits)
  next
    case False
    then have f: "(up \<and> down) = False" "?skip = False" by simp_all
    obtain e1 s1 where c: "copy_with_traffic cx t s = (e1, s1)" by fastforce
    show ?thesis
    proof (cases e1)
      case Running
      then have r: "accounts dir (if loop_ended up down dir then [] else data_of dir ts) e s1 s'"
        using 2 Running c by (simp add: f del: data_of.simps split: if_splits)
      show ?thesis using accounts_step [OF c _ r] Running False skip
        by (cases "dir = ct_direction t") (auto simp: data_of_Cons [of _ t ts] simp del: data_of.simps)
    next
      case (Ended r1)
      show ?thesis
      proof (cases r1)
        case (Inl x)
        then show ?thesis using 2(4) Ended False c accounts_failed [of cx t s x s' dir] skip
          by (cases "dir = ct_direction t") (auto simp: data_of_Cons [of _ t ts] simp del: data_of.simps
              dest: accounts_failed [where read = "[]"])
      next
        case (Inr u)
        have r: "accounts dir (if loop_ended up down dir \<or> ct_direction t = dir then [] else data_of dir ts) e s1 s'"
          using 2(3) 2(4) Ended Inr c by (simp add: f loop_ended_or split: if_splits)
        have "data_of dir [t] = []" using copy_with_traffic_ended c Ended Inr by blast
        with accounts_step [OF c _ r] show ?thesis using Ended Inr
          by (auto simp: data_of_Cons [of _ t ts] accounts_def simp del: data_of.simps split: if_splits)
      qed
    qed
  qed
qed

section \<open>What a handler leaves alone\<close>

text \<open>Programs that only read from the stream, and programs that only write to it and draw random bytes.\<close>

definition only_reads :: "('z byte_stream_scheme, 'e, 'a) eff \<Rightarrow> bool" where
  "only_reads m \<longleftrightarrow> (\<forall>s. \<exists>i. snd (m s) = s\<lparr>bs_in := i\<rparr>)"

definition only_writes :: "(('r, 'z) stream_io_scheme, 'e, 'a) eff \<Rightarrow> bool" where
  "only_writes m \<longleftrightarrow> (\<forall>s. \<exists>r out. snd (m s) = s\<lparr>io_random := r, bs_out := out\<rparr>)"

lemma only_reads_bind:
  assumes m: "only_reads m" and f: "\<And>x. only_reads (f x)"
  shows "only_reads (eff_bind m f)"
  unfolding only_reads_def
proof
  fix s
  obtain x s1 where ms: "m s = (x, s1)" by fastforce
  obtain i where s1: "s1 = s\<lparr>bs_in := i\<rparr>" using m ms unfolding only_reads_def by (metis snd_conv)
  show "\<exists>i. snd (eff_bind m f s) = s\<lparr>bs_in := i\<rparr>"
  proof (cases x)
    case (Inr y)
    obtain j where "snd (f y s1) = s1\<lparr>bs_in := j\<rparr>" using f unfolding only_reads_def by blast
    then show ?thesis using ms Inr s1 by (auto simp: eff_bind_def)
  qed (use ms s1 in \<open>auto simp: eff_bind_def\<close>)
qed

lemma only_writes_bind:
  assumes m: "only_writes m" and f: "\<And>x. only_writes (f x)"
  shows "only_writes (eff_bind m f)"
  unfolding only_writes_def
proof
  fix s
  obtain x s1 where ms: "m s = (x, s1)" by fastforce
  obtain r out where s1: "s1 = s\<lparr>io_random := r, bs_out := out\<rparr>" using m ms unfolding only_writes_def by (metis snd_conv)
  show "\<exists>r out. snd (eff_bind m f s) = s\<lparr>io_random := r, bs_out := out\<rparr>"
  proof (cases x)
    case (Inr y)
    obtain r' out' where "snd (f y s1) = s1\<lparr>io_random := r', bs_out := out'\<rparr>" using f unfolding only_writes_def by blast
    then show ?thesis using ms Inr s1 by (auto simp: eff_bind_def)
  qed (use ms s1 in \<open>auto simp: eff_bind_def\<close>)
qed

lemma keeps_in: "\<exists>i. s = s\<lparr>bs_in := i\<rparr>" for s :: "'z byte_stream_scheme"
  by (rule exI [of _ "bs_in s"]) simp

lemma keeps_out: "\<exists>r out. s = s\<lparr>io_random := r, bs_out := out\<rparr>" for s :: "('r, 'z) stream_io_scheme"
  by (rule exI [of _ "io_random s"], rule exI [of _ "bs_out s"]) simp

lemma only_reads_basic:
  "only_reads (eff_return x)" "only_reads (eff_lift v)" "only_reads (eff_fail e)" "only_reads (read_exact e n)"
  "only_reads read_varint" "only_reads (discard_exact n)"
  by (auto simp: only_reads_def eff_return_def eff_lift_def eff_fail_def read_exact_def read_varint_eq discard_exact_eq
      keeps_in split: sum.splits)

lemma only_writes_fill: "only_writes (fill_io fill n)"
  unfolding only_writes_def
proof
  fix s
  show "\<exists>r out. snd (fill_io fill n s) = s\<lparr>io_random := r, bs_out := out\<rparr>"
    by (cases "fill (io_random s) n"; cases "fst (fill (io_random s) n)")
      (auto simp: fill_io_def intro!: exI [of _ "bs_out s"])
qed

lemma only_writes_write: "only_writes (write_all bs)"
  unfolding only_writes_def
proof
  fix s
  show "\<exists>r out. snd (write_all bs s) = s\<lparr>io_random := r, bs_out := out\<rparr>"
    by (auto simp: write_all_def intro!: exI [of _ "io_random s"])
qed

lemma only_writes_basic: "only_writes (eff_return x)" "only_writes (eff_lift v)"
  by (auto simp: only_writes_def eff_return_def eff_lift_def keeps_out)

lemma only_reads_if: "only_reads m \<Longrightarrow> only_reads n \<Longrightarrow> only_reads (if b then m else n)"
  by simp

lemma only_reads_tcp_request: "only_reads read_tcp_request"
  unfolding read_tcp_request_def
  by (intro only_reads_bind only_reads_if only_reads_basic)

lemma only_writes_tcp_response: "only_writes (write_tcp_response fill accepted message)"
  unfolding write_tcp_response_def random_padding_def
  by (intro only_writes_bind only_writes_basic only_writes_fill only_writes_write)

definition stream_key :: "('r, 'l) tcp_server \<Rightarrow> (u32 \<times> u64) option" where
  "stream_key s = map_option (\<lambda>st. (ss_connection_id st, ss_stream_id st)) (ts_stats s)"

lemma read_tcp_request_keeps:
  assumes "read_tcp_request s = (x, s')"
  shows "ts_logger s' = ts_logger s \<and> stream_key s' = stream_key s"
proof -
  obtain i where "snd (read_tcp_request s) = s\<lparr>bs_in := i\<rparr>"
    using only_reads_tcp_request unfolding only_reads_def by blast
  then show ?thesis using assms by (simp add: stream_key_def)
qed

lemma write_tcp_response_keeps:
  assumes "write_tcp_response fill accepted message s = (x, s')"
  shows "ts_logger s' = ts_logger s \<and> stream_key s' = stream_key s"
proof -
  obtain r out where "snd (write_tcp_response fill accepted message s) = s\<lparr>io_random := r, bs_out := out\<rparr>"
    using only_writes_tcp_response [unfolded only_writes_def, rule_format, of fill accepted message s] by blast
  then show ?thesis using assms by (simp add: stream_key_def)
qed

lemma with_stats_keeps [simp]:
  "ts_logger (with_stats f s) = ts_logger s"
  "stream_key (with_stats (set_state state) s) = stream_key s"
  "stream_key (with_stats (record_traffic now tx rx) s) = stream_key s"
  "stream_key (with_stats (\<lambda>st. set_state state (set_request_address a st)) s) = stream_key s"
  "stream_key (with_stats (\<lambda>st. set_state state (if b then set_hooked_request_address a st else st)) s) = stream_key s"
  by (auto simp: with_stats_def stream_key_def set_state_def set_request_address_def set_hooked_request_address_def
      record_traffic_def option.map_comp comp_def intro!: option.map_cong0)

lemma run_hook_keeps:
  "run_hook cx address s = (x, s') \<Longrightarrow> ts_logger s' = ts_logger s \<and> stream_key s' = stream_key s"
  by (auto simp: run_hook_def Let_def stream_key_def with_stats_def set_state_def option.map_comp comp_def
      split: option.splits if_splits prod.splits sum.splits)

lemma open_tcp_stream_effects:
  assumes "open_tcp_stream fill cx now w s = (target, s')"
  shows "(ts_logger s' = ts_logger s \<and> stream_key s' = stream_key s) \<or>
    (\<exists>s1 putback a. write_hooked_prefix cx now w putback s1 = (a, s') \<and>
       ts_logger s1 = ts_logger s \<and> stream_key s1 = stream_key s)"
proof -
  obtain x s1 where 1: "read_tcp_request s = (x, s1)" by fastforce
  note k1 = read_tcp_request_keeps [OF 1]
  show ?thesis
  proof (cases x)
    case (Inl e)
    then show ?thesis using assms 1 k1 by (simp add: open_tcp_stream_def)
  next
    case (Inr request)
    let ?s1 = "with_stats (\<lambda>st. set_state Connecting (set_request_address (req_address request) st)) s1"
    obtain y s2 where 2: "run_hook cx (req_address request) ?s1 = (y, s2)" by fastforce
    have k2: "ts_logger s2 = ts_logger s" "stream_key s2 = stream_key s" using run_hook_keeps [OF 2] k1 by simp_all
    show ?thesis
    proof (cases y)
      case (Inl e)
      then show ?thesis using assms 1 2 Inr k2 by (simp add: open_tcp_stream_def)
    next
      case (Inr p)
      obtain putback address where p: "p = (putback, address)" by fastforce
      let ?s2 = "with_stats (\<lambda>st. set_state Connecting
        (if should_hook cx (req_address request) then set_hooked_request_address address st else st)) s2"
      note unf = assms [unfolded open_tcp_stream_def 1 prod.case \<open>x = Inr request\<close> sum.case 2 Inr p Let_def]
      show ?thesis
      proof (cases "ob_tcp (cx_outbound cx) address")
        case (Inl e)
        obtain z s3 where 3: "write_tcp_response fill False
            (truncate_message (transport_error_display e) MAX_MESSAGE_LENGTH) ?s2 = (z, s3)" by fastforce
        show ?thesis using unf write_tcp_response_keeps [OF 3] k2 3 Inl by simp
      next
        case (Inr t)
        obtain z s3 where 3: "write_tcp_response fill True ''Connected'' ?s2 = (z, s3)" by fastforce
        note k3 = write_tcp_response_keeps [OF 3]
        show ?thesis
        proof (cases z)
          case (Inl e)
          then show ?thesis using unf k3 k2 3 Inr by simp
        next
          case (Inr u)
          obtain a s4 where 4: "write_hooked_prefix cx now w putback (with_stats (set_state Established) s3) = (a, s4)"
            by fastforce
          have "s' = s4" using unf 3 4 Inr \<open>ob_tcp (cx_outbound cx) address = Inr t\<close> by (cases a) simp_all
          with 4 k3 k2 show ?thesis
            by (intro disjI2 exI [of _ "with_stats (set_state Established) s3"] exI [of _ putback] exI [of _ a]) simp
        qed
      qed
    qed
  qed
qed

section \<open>Views of the logger\<close>

text \<open>
  A part of the logger's state that reporting traffic does not change is the same after a stream has been
  opened and after its copy loops.
\<close>

locale logger_view =
  fixes logger :: "'l traffic_logger" and view :: "'l \<Rightarrow> 'v"
  assumes log_traffic_view: "view (snd (tl_log_traffic logger l i tx rx)) = view l"
begin

lemma log_allowed_view:
  assumes "cx_traffic_logger cx = Some logger" "log_allowed cx tx rx s = (a, s')"
  shows "view (ts_logger s') = view (ts_logger s)"
  using assms log_traffic_view [of "ts_logger s" "cx_auth_id cx" tx rx]
  by (auto simp: log_allowed_def split: prod.splits)

lemma copy_with_traffic_view:
  assumes "cx_traffic_logger cx = Some logger" "copy_with_traffic cx t s = (e, s')"
  shows "view (ts_logger s') = view (ts_logger s)"
  using assms(2)
  by (auto simp: copy_with_traffic_def deliver_def close_direction_def with_stats_def
      dest!: log_allowed_view [OF assms(1)] split: sum.splits if_splits prod.splits bool.splits direction.splits)

lemma try_join_view:
  "cx_traffic_logger cx = Some logger \<Longrightarrow> try_join cx up down ts s = (e, s') \<Longrightarrow>
     view (ts_logger s') = view (ts_logger s)"
proof (induction cx up down ts s rule: try_join.induct)
  case (2 cx up down t ts s)
  obtain e1 s1 where c: "copy_with_traffic cx t s = (e1, s1)" by fastforce
  note v = copy_with_traffic_view [OF 2(4) c]
  show ?case using 2 c v by (auto split: if_splits loop_end.splits sum.splits)
qed auto

lemma join_tcp_stream_view:
  "cx_traffic_logger cx = Some logger \<Longrightarrow> join_tcp_stream cx ts s = (e, s') \<Longrightarrow>
     view (ts_logger s') = view (ts_logger s)"
  by (auto simp: join_tcp_stream_def split: prod.splits dest: try_join_view)

lemma write_hooked_prefix_view:
  assumes "cx_traffic_logger cx = Some logger" "write_hooked_prefix cx now w putback s = (a, s')"
  shows "view (ts_logger s') = view (ts_logger s)"
  using assms(2)
  by (auto simp: write_hooked_prefix_def with_stats_def dest!: log_allowed_view [OF assms(1)] split: if_splits prod.splits bool.splits)

lemma open_tcp_stream_view:
  assumes cx: "cx_traffic_logger cx = Some logger" and run: "open_tcp_stream fill cx now w s = (target, s')"
  shows "view (ts_logger s') = view (ts_logger s)"
  using open_tcp_stream_effects [OF run] by (auto dest!: write_hooked_prefix_view [OF cx])

end

lemma log_allowed_key: "log_allowed cx tx rx s = (a, s') \<Longrightarrow> stream_key s' = stream_key s"
  by (auto simp: stream_key_def dest: log_allowed_keeps)

lemma write_hooked_prefix_key: "write_hooked_prefix cx now w putback s = (a, s') \<Longrightarrow> stream_key s' = stream_key s"
  by (auto simp: write_hooked_prefix_def stream_key_def [of "_\<lparr>ts_target := _\<rparr>"] stream_key_def [of "_\<lparr>ts_close := _\<rparr>"]
      stream_key_def [symmetric] dest!: log_allowed_key split: if_splits prod.splits bool.splits)

lemma open_tcp_stream_key: "open_tcp_stream fill cx now w s = (target, s') \<Longrightarrow> stream_key s' = stream_key s"
  by (auto dest!: open_tcp_stream_effects write_hooked_prefix_key)

lemma copy_with_traffic_key: "copy_with_traffic cx t s = (e, s') \<Longrightarrow> stream_key s' = stream_key s"
  by (auto simp: copy_with_traffic_def deliver_def close_direction_def
      stream_key_def [of "_\<lparr>ts_target := _\<rparr>"] stream_key_def [of "_\<lparr>bs_out := _\<rparr>"]
      stream_key_def [of "_\<lparr>ts_target_shutdown := _\<rparr>"] stream_key_def [of "_\<lparr>ts_finished := _\<rparr>"]
      stream_key_def [symmetric] dest!: log_allowed_key
      split: sum.splits if_splits prod.splits bool.splits direction.splits)

lemma try_join_key: "try_join cx up down ts s = (e, s') \<Longrightarrow> stream_key s' = stream_key s"
proof (induction cx up down ts s rule: try_join.induct)
  case (2 cx up down t ts s)
  obtain e1 s1 where c: "copy_with_traffic cx t s = (e1, s1)" by fastforce
  note v = copy_with_traffic_key [OF c]
  show ?case using 2 c v by (auto split: if_splits loop_end.splits sum.splits)
qed auto

lemma join_tcp_stream_key: "join_tcp_stream cx ts s = (e, s') \<Longrightarrow> stream_key s' = stream_key s"
  by (auto simp: join_tcp_stream_def stream_key_def [of "_\<lparr>ts_close := _\<rparr>"] stream_key_def [symmetric]
      split: prod.splits if_splits dest: try_join_key)

section \<open>Properties\<close>

definition sample_io :: "unit stream_io" where
  "sample_io = \<lparr>bs_in = [], bs_out = [], io_random = ()\<rparr>"

definition sample_server :: "bytes \<Rightarrow> (unit, unit) tcp_server" where
  "sample_server input = \<lparr>bs_in = input, bs_out = [], io_random = (), ts_logger = (), ts_stats = None,
     ts_close = None, ts_target = [], ts_target_shutdown = False, ts_finished = False\<rparr>"

definition sample_context :: "(unit, unit, unit) tcp_server_context" where
  "sample_context = \<lparr>cx_traffic_logger = None, cx_auth_id = ''u'', cx_connection_id = 1,
     cx_outbound = \<lparr>ob_tcp = (\<lambda>a. if a = ''a:1'' then Inr () else Inl UdpDisabled),
       ob_udp = (\<lambda>_. Inl UdpDisabled), ob_check_udp = (\<lambda>_. Inl UdpDisabled)\<rparr>,
     cx_request_hook = None\<rparr>"

definition sample_tcp_client :: "unit stream_io" where
  "sample_tcp_client = snd (proxy_tcp zero_random (with_fast_open (proxy_client_new False) True) ''a:1'' sample_io)"

definition sample_served :: "(unit, unit) tcp_server" where
  "sample_served = snd (open_tcp_stream zero_random sample_context 0 True (sample_server (bs_out sample_tcp_client @ [7])))"



text \<open>
  C38: Fast open changes when the client learns the outcome, not the outcome. When waiting for the response
  succeeds, the first read after a fast open gives the same bytes and leaves the tunnel in the same state;
  when the server refuses, the same message is the error of the first read; any other failure is its error too.
\<close>

theorem fast_open_same_outcome:
  assumes "always_random fill" "address \<noteq> []" "length address \<le> MAX_ADDRESS_LENGTH" "valid_string address"
    and fast: "proxy_tcp fill (with_fast_open c True) address s = (Inr Awaiting, s1)"
    and slow: "proxy_tcp fill (with_fast_open c False) address s = (res, s2)"
  shows "case res of
      Inr t \<Rightarrow> t = Ready \<and> poll_read Awaiting n s1 = poll_read Ready n s2
    | Inl e \<Rightarrow> (\<exists>m. poll_read Awaiting n s1 = (Inl m, FailedTunnel, s2) \<and>
        (e = Io m \<or> m = transport_error_display e))"
proof -
  obtain padding bs r where enc: "tcp_request_encode \<lparr>req_address = address\<rparr> padding = Inr bs"
      "tcp_request_wf (\<lparr>req_address = address\<rparr>, padding)"
    and req: "\<forall>c. proxy_tcp fill c address s =
      (if pc_fast_open c then eff_return Awaiting
       else eff_bind read_tcp_response (\<lambda>response.
         if \<not> resp_ok response then eff_fail (Io (resp_message response)) else eff_return Ready))
      (s\<lparr>io_random := r, bs_out := bs_out s @ bs\<rparr>)"
    using assms(1-4) by (rule proxy_tcp_request [where s = s])
  have s1: "s1 = s\<lparr>io_random := r, bs_out := bs_out s @ bs\<rparr>"
    using fast req by (auto simp: with_fast_open_def eff_return_def)
  have "(res, s2) = eff_bind read_tcp_response (\<lambda>response.
         if \<not> resp_ok response then eff_fail (Io (resp_message response)) else eff_return Ready) s1"
    using slow req by (auto simp: with_fast_open_def s1)
  then show ?thesis
    by (auto simp: poll_read_def eff_bind_def eff_fail_def eff_lift_def eff_return_def split: prod.splits sum.splits if_splits)
qed

theorem fast_open_same_outcome_witness:
  "\<exists>m. fst (poll_read Awaiting 2 sample_tcp_client) = Inl m \<and> (m = ''early eof'' \<or> m = ''I/O error: early eof'')"
proof -
  have a: "valid_string ''a:1''" by code_simp
  have fast: "proxy_tcp zero_random (with_fast_open (proxy_client_new False) True) ''a:1'' sample_io = (Inr Awaiting, sample_tcp_client)"
    by (rule proxy_tcp_request [OF always_random_zero _ _ a, where s = sample_io])
      (simp_all add: sample_tcp_client_def with_fast_open_def eff_return_def)
  have slow: "fst (proxy_tcp zero_random (with_fast_open (proxy_client_new False) False) ''a:1'' sample_io) = Inl io_eof"
    by (rule proxy_tcp_request [OF always_random_zero _ _ a, where s = sample_io])
      (simp_all add: with_fast_open_def sample_io_def eff_bind_def read_tcp_response_def read_byte_def read_exact_def)
  show ?thesis
    using fast_open_same_outcome [OF always_random_zero _ _ a fast prod.collapse [symmetric], of 2] slow
    by (auto simp: io_eof_def)
qed

text \<open>
  However the turns of the two copy loops interleave, the bytes delivered in each direction are a
  prefix of the bytes read in that direction, in order. While both loops run, and when both have ended
  normally, the byte counter of the stream has grown by exactly the number of bytes delivered, modulo
  \<open>2\<^sup>6\<^sup>4\<close>; only a loop that ends with an error may have counted a chunk that was not delivered.
\<close>

lemma tcp_copy_accounting:
  assumes "join_tcp_stream cx turns s = (outcome, s')" and "ts_stats s = Some st"
  shows "\<exists>st' data. ts_stats s' = Some st' \<and> moved dir s' = moved dir s @ data \<and> prefix data (data_of dir turns) \<and>
    ((\<forall>x. outcome \<noteq> Ended (Inl x)) \<longrightarrow> counted dir st' = counted dir st + word_of_nat (length data))"
proof -
  obtain s1 where j: "try_join cx False False turns s = (outcome, s1)"
    and s': "s' = (if outcome = Ended (Inl TrafficLimitReached) then s1\<lparr>ts_close := Some CLOSE_TRAFFIC_LIMIT_REACHED\<rparr> else s1)"
    using assms(1) by (auto simp: join_tcp_stream_def split: prod.splits)
  have "loop_ended False False dir = False" by (cases dir) (simp_all add: loop_ended_def)
  with try_join_accounts [OF j, of dir] assms(2) show ?thesis
    by (auto simp: s' accounts_def moved_def split: direction.splits)
qed

definition sample_turn :: copy_turn where
  "sample_turn = \<lparr>ct_direction = ClientToTarget, ct_read = Inr [1, 2], ct_now = 5, ct_write = Inr ()\<rparr>"

end
