(* ===== verification/Http_Types.thy ===== *)
theory Http_Types
  imports Rust_Text
begin

text \<open>
  What the components that speak HTTP use of the \<open>http\<close> crate: header maps, as the list of their fields
  with lower-case names, the text of a header value, and responses.
\<close>

type_synonym header_map = "(string \<times> bytes) list"

definition hdr_get :: "header_map \<Rightarrow> string \<Rightarrow> bytes option" where
  "hdr_get h name = map_of h (to_ascii_lowercase name)"

text \<open>
  Header values are made from strings and read as strings by the library. Its documentation promises the
  following of the two conversions: text of visible ASCII characters and tabs is accepted and read back,
  and nothing else is readable as a string.
\<close>

record http_lib =
  hv_from_str :: "string \<Rightarrow> bytes option"
  hv_to_str :: "bytes \<Rightarrow> string option"

definition visible_ascii :: "bytes \<Rightarrow> bool" where
  "visible_ascii v = list_all (\<lambda>b. (32 \<le> b \<and> b < 127) \<or> b = 9) v"

definition http_lib_ok :: "http_lib \<Rightarrow> bool" where
  "http_lib_ok lib \<longleftrightarrow>
     (\<forall>s. visible_ascii (as_bytes s) \<longrightarrow> hv_from_str lib s = Some (as_bytes s)) \<and>
     (\<forall>s v. hv_from_str lib s = Some v \<longrightarrow> v = as_bytes s) \<and>
     (\<forall>v. hv_to_str lib v = (if visible_ascii v then Some (of_bytes v) else None))"

lemma http_lib_okD:
  assumes "http_lib_ok lib"
  shows "visible_ascii (as_bytes s) \<Longrightarrow> hv_from_str lib s = Some (as_bytes s)"
    and "hv_from_str lib s = Some v \<Longrightarrow> v = as_bytes s"
    and "hv_to_str lib v = (if visible_ascii v then Some (of_bytes v) else None)"
  using assms unfolding http_lib_ok_def by blast+

definition plain_http_lib :: http_lib where
  "plain_http_lib =
     \<lparr>hv_from_str = (\<lambda>s. if visible_ascii (as_bytes s) then Some (as_bytes s) else None),
      hv_to_str = (\<lambda>v. if visible_ascii v then Some (of_bytes v) else None)\<rparr>"

lemma plain_http_lib_ok: "http_lib_ok plain_http_lib"
  by (auto simp: http_lib_ok_def plain_http_lib_def split: if_splits)

text \<open>Inserting a field replaces the fields of that name; reading finds a name whatever its case.\<close>

definition hdr_insert :: "string \<Rightarrow> bytes \<Rightarrow> header_map \<Rightarrow> header_map" where
  "hdr_insert name v h = filter (\<lambda>(n, _). n \<noteq> to_ascii_lowercase name) h @ [(to_ascii_lowercase name, v)]"

definition hdr_str :: "http_lib \<Rightarrow> header_map \<Rightarrow> string \<Rightarrow> string option" where
  "hdr_str lib h name = Option.bind (hdr_get h name) (hv_to_str lib)"

lemma map_of_filter_fst: "map_of (filter (\<lambda>(n, _). n \<noteq> k) h) n = (if n = k then None else map_of h n)"
  by (induction h) auto

lemma hdr_get_insert [simp]:
  "hdr_get (hdr_insert name v h) n =
     (if to_ascii_lowercase n = to_ascii_lowercase name then Some v else hdr_get h n)"
  by (simp add: hdr_get_def hdr_insert_def map_add_def map_of_filter_fst split: option.splits)

lemma hdr_get_Nil [simp]: "hdr_get [] n = None"
  by (simp add: hdr_get_def)

record http_response =
  hr_status :: u16
  hr_content_type :: string
  hr_body :: bytes

text \<open>Padding to a width in characters, as the formatting of strings does it.\<close>

definition char_count :: "string \<Rightarrow> nat" where
  "char_count s = length (filter (\<lambda>b. \<not> is_continuation b) (as_bytes s))"

definition pad_right :: "nat \<Rightarrow> string \<Rightarrow> string" where
  "pad_right n s = s @ replicate (n - char_count s) (CHR '' '')"

definition pad_left :: "nat \<Rightarrow> string \<Rightarrow> string" where
  "pad_left n s = replicate (n - char_count s) (CHR '' '') @ s"

definition zero_pad :: "nat \<Rightarrow> string \<Rightarrow> string" where
  "zero_pad n s = replicate (n - length s) (CHR ''0'') @ s"

definition ascii_upper :: "char \<Rightarrow> char" where
  "ascii_upper c =
     (let n = of_char c :: nat in if 97 \<le> n \<and> n \<le> 122 then char_of (n - 32) else c)"

definition to_ascii_uppercase :: "string \<Rightarrow> string" where
  "to_ascii_uppercase s = map ascii_upper s"

end
