(* ===== verification/Traffic.thy ===== *)
theory Traffic
  imports Tcp_Proxy Http_Types "HOL-Library.Char_ord" "HOL-Library.List_Lexorder" "HOL-Library.Product_Lexorder"
begin

text \<open>
  The traffic statistics of the server (\<open>hysteria/src/traffic.rs\<close>): the logger that counts bytes and
  connections per user and can disconnect a user, and the HTTP interface to it. The JSON encoding, the
  routing of requests and the calendar are the libraries'; they are parameters.
\<close>

section \<open>The logger\<close>

record traffic_entry =
  te_tx :: u64
  te_rx :: u64

record traffic_state =
  tf_stats :: "(string, traffic_entry) hmap"
  tf_online :: "(string, usize) hmap"
  tf_kicked :: "string set"
  tf_streams :: "(u32 \<times> u64, stream_stats) hmap"

definition traffic_state_default :: traffic_state where
  "traffic_state_default = \<lparr>tf_stats = [], tf_online = [], tf_kicked = {}, tf_streams = []\<rparr>"

definition log_traffic :: "traffic_state \<Rightarrow> string \<Rightarrow> u64 \<Rightarrow> u64 \<Rightarrow> bool \<times> traffic_state" where
  "log_traffic state i tx rx =
     (if i \<in> tf_kicked state then (False, state\<lparr>tf_kicked := tf_kicked state - {i}\<rparr>)
      else
        (let entry = unwrap_or \<lparr>te_tx = 0, te_rx = 0\<rparr> (hm_get (tf_stats state) i) in
         (True, state\<lparr>tf_stats := hm_insert i \<lparr>te_tx = te_tx entry + tx, te_rx = te_rx entry + rx\<rparr> (tf_stats state)\<rparr>)))"

definition log_online_state :: "traffic_state \<Rightarrow> string \<Rightarrow> bool \<Rightarrow> traffic_state" where
  "log_online_state state i is_online =
     (if is_online
      then state\<lparr>tf_online := hm_insert i (unwrap_or 0 (hm_get (tf_online state) i) + 1) (tf_online state)\<rparr>
      else
        (case hm_get (tf_online state) i of
           None \<Rightarrow> state
         | Some n \<Rightarrow>
             if n - 1 = 0 then state\<lparr>tf_online := hm_remove i (tf_online state)\<rparr>
             else state\<lparr>tf_online := hm_insert i (n - 1) (tf_online state)\<rparr>))"

definition trace_stream :: "traffic_state \<Rightarrow> stream_stats \<Rightarrow> traffic_state" where
  "trace_stream state st =
     state\<lparr>tf_streams := hm_insert (ss_connection_id st, ss_stream_id st) st (tf_streams state)\<rparr>"

definition untrace_stream :: "traffic_state \<Rightarrow> u32 \<Rightarrow> u64 \<Rightarrow> traffic_state" where
  "untrace_stream state connection_id stream_id =
     state\<lparr>tf_streams := hm_remove (connection_id, stream_id) (tf_streams state)\<rparr>"

definition traffic_stats_logger :: "traffic_state traffic_logger" where
  "traffic_stats_logger =
     \<lparr>tl_log_traffic = log_traffic, tl_log_online_state = log_online_state,
      tl_trace_stream = trace_stream, tl_untrace_stream = untrace_stream\<rparr>"

section \<open>The HTTP interface\<close>

definition authorized :: "http_lib \<Rightarrow> string \<Rightarrow> header_map \<Rightarrow> bool" where
  "authorized lib secret headers = (secret = [] \<or> hdr_str lib headers ''authorization'' = Some secret)"

abbreviation (input) unauthorized :: http_response where
  "unauthorized \<equiv> \<lparr>hr_status = 401, hr_content_type = ''text/plain; charset=utf-8'', hr_body = as_bytes (''unauthorized'' @ [CHR 0x0A])\<rparr>"

abbreviation (input) parse_go_bool_query :: "string \<Rightarrow> bool" where
  "parse_go_bool_query v \<equiv> (v \<in> {''1'', ''t'', ''T'', ''true'', ''TRUE'', ''True''})"

definition json_response :: "bytes \<Rightarrow> http_response" where
  "json_response body = \<lparr>hr_status = 200, hr_content_type = ''application/json; charset=utf-8'', hr_body = body\<rparr>"

definition traffic ::
  "http_lib \<Rightarrow> ((string, traffic_entry) hmap \<Rightarrow> bytes) \<Rightarrow> string \<Rightarrow> header_map \<Rightarrow> (string, string) hmap \<Rightarrow>
     traffic_state \<Rightarrow> http_response \<times> traffic_state" where
  "traffic lib to_json secret headers query state =
     (if \<not> authorized lib secret headers then (unauthorized, state)
      else
        (let clear = (case hm_get query ''clear'' of None \<Rightarrow> False | Some v \<Rightarrow> parse_go_bool_query v) in
         (json_response (to_json (tf_stats state)), if clear then state\<lparr>tf_stats := []\<rparr> else state)))"

definition online ::
  "http_lib \<Rightarrow> ((string, usize) hmap \<Rightarrow> bytes) \<Rightarrow> string \<Rightarrow> header_map \<Rightarrow> traffic_state \<Rightarrow> http_response" where
  "online lib to_json secret headers state =
     (if \<not> authorized lib secret headers then unauthorized else json_response (to_json (tf_online state)))"

definition kick ::
  "http_lib \<Rightarrow> (bytes \<Rightarrow> string list option) \<Rightarrow> string \<Rightarrow> header_map \<Rightarrow> bytes \<Rightarrow> traffic_state \<Rightarrow> http_response \<times> traffic_state" where
  "kick lib from_json secret headers body state =
     (if \<not> authorized lib secret headers then (unauthorized, state)
      else
        (case from_json body of
           None \<Rightarrow> (\<lparr>hr_status = 400, hr_content_type = ''text/plain; charset=utf-8'',
                     hr_body = as_bytes (''invalid JSON request body'' @ [CHR 0x0A])\<rparr>, state)
         | Some ids \<Rightarrow> (\<lparr>hr_status = 200, hr_content_type = [], hr_body = []\<rparr>,
                        state\<lparr>tf_kicked := tf_kicked state \<union> set ids\<rparr>)))"

subsection \<open>The stream dump\<close>

definition format_go_duration :: "nat \<Rightarrow> string" where
  "format_go_duration nanos =
     (if nanos = 0 then ''0s''
      else if nanos < 1000000000 then nat_string (nanos div 1000000) @ ''ms''
      else
        (let total_seconds = nanos div 1000000000;
             fractional = nanos mod 1000000000;
             hours = total_seconds div 3600;
             minutes = total_seconds mod 3600 div 60;
             seconds = total_seconds mod 60;
             text = (if fractional = 0 then nat_string seconds @ ''s''
                     else nat_string seconds @ ''.'' @ trim_end_matches (CHR ''0'') (zero_pad 9 (nat_string fractional)) @ ''s'')
         in if hours = 0 then (if minutes = 0 then text else nat_string minutes @ ''m'' @ text)
            else nat_string hours @ ''h'' @ nat_string minutes @ ''m'' @ text))"

abbreviation (input) format_go_elapsed :: "nat \<Rightarrow> string" where
  "format_go_elapsed duration \<equiv> (let unit_nanos = (if duration < 600 * 1000000000 then 1000000 else 1000000000) in
      format_go_duration ((duration + unit_nanos div 2) div unit_nanos * unit_nanos))"

abbreviation (input) elapsed :: "nat \<Rightarrow> nat \<Rightarrow> nat" where
  "elapsed now earlier \<equiv> now - earlier"

abbreviation (input) nonempty_or_dash :: "string \<Rightarrow> string" where
  "nonempty_or_dash v \<equiv> (if v = [] then ''-'' else v)"

definition format_dump_stream_line ::
  "string \<Rightarrow> string \<Rightarrow> string \<Rightarrow> string \<Rightarrow> string \<Rightarrow> string \<Rightarrow> string \<Rightarrow> string \<Rightarrow> string \<Rightarrow> string \<Rightarrow> string" where
  "format_dump_stream_line state auth connection stream request hooked tx rx lifetime last_active =
     pad_right 8 state @ '' '' @ pad_right 12 auth @ '' '' @ pad_left 12 connection @ '' '' @ pad_left 8 stream @ '' '' @
     pad_left 12 tx @ '' '' @ pad_left 12 rx @ '' '' @ pad_left 12 lifetime @ '' '' @ pad_left 12 last_active @ '' '' @
     pad_right 16 request @ '' '' @ hooked"

definition text_line :: "nat \<Rightarrow> stream_stats \<Rightarrow> string" where
  "text_line now st =
     format_dump_stream_line (to_ascii_uppercase (stream_state_as_str (ss_state st))) (ss_auth_id st)
       (zero_pad 8 (to_ascii_uppercase (hex_digits (unat (ss_connection_id st))))) (uint_string (ss_stream_id st))
       (nonempty_or_dash (ss_request_address st)) (nonempty_or_dash (ss_hooked_request_address st))
       (uint_string (ss_tx st)) (uint_string (ss_rx st))
       (format_go_elapsed (elapsed now (ss_initial_at st))) (format_go_elapsed (elapsed now (ss_last_active_at st)))"

definition dump_streams_text :: "nat \<Rightarrow> stream_stats list \<Rightarrow> http_response" where
  "dump_streams_text now entries =
     \<lparr>hr_status = 200, hr_content_type = ''text/plain; charset=utf-8'',
      hr_body = as_bytes (concat (map (\<lambda>l. l @ [CHR 0x0A])
        (format_dump_stream_line ''State'' ''Auth'' ''Connection'' ''Stream'' ''Req-Addr'' ''Hooked-Req-Addr''
           ''TX-Bytes'' ''RX-Bytes'' ''Lifetime'' ''Last-Active'' # map (text_line now) entries)))\<rparr>"

text \<open>
  The logger shares the statistics of a stream with the task that serves it: \<open>current\<close> gives the present
  contents of a traced object.
\<close>

definition dump_entries :: "(stream_stats \<Rightarrow> stream_stats) \<Rightarrow> traffic_state \<Rightarrow> stream_stats list" where
  "dump_entries current state =
     sort_key (\<lambda>st. (ss_auth_id st, ss_connection_id st, ss_stream_id st)) (map (current \<circ> snd) (tf_streams state))"

definition dump_streams ::
  "http_lib \<Rightarrow> (stream_stats list \<Rightarrow> bytes) \<Rightarrow> (stream_stats \<Rightarrow> stream_stats) \<Rightarrow> nat \<Rightarrow> string \<Rightarrow> header_map \<Rightarrow>
     traffic_state \<Rightarrow> http_response" where
  "dump_streams lib to_json current now secret headers state =
     (if \<not> authorized lib secret headers then unauthorized
      else
        (let entries = dump_entries current state in
         if (case hdr_str lib headers ''accept'' of None \<Rightarrow> False | Some v \<Rightarrow> contains_str v ''text/plain'')
         then dump_streams_text now entries
         else json_response (to_json entries @ [0x0A])))"

section \<open>The logger seen from a stream\<close>

interpretation traffic_streams: logger_view traffic_stats_logger tf_streams
  by unfold_locales (simp add: traffic_stats_logger_def log_traffic_def Let_def)

interpretation traffic_online: logger_view traffic_stats_logger tf_online
  by unfold_locales (simp add: traffic_stats_logger_def log_traffic_def Let_def)

text \<open>
  A stream that has been served leaves nothing behind in the logger: it is traced while it is served
  and no longer once the handler returns, on every path, and serving it does not touch the entries of
  other streams nor who is online.
\<close>

lemma stream_trace_no_leak:
  assumes "handle_tcp_stream fill cx now sid w turns s = (True, s')"
    and "cx_traffic_logger cx = Some traffic_stats_logger"
  shows "hm_get (tf_streams (ts_logger s')) k =
      (if k = (cx_connection_id cx, sid) then None else hm_get (tf_streams (ts_logger s)) k) \<and>
    tf_online (ts_logger s') = tf_online (ts_logger s) \<and>
    (\<exists>st. ts_stats s' = Some st \<and> ss_state st = Closed)"
proof -
  let ?key = "(cx_connection_id cx, sid)"
  let ?s0 = "stream_trace_new cx now sid s"
  have s0: "stream_key ?s0 = Some ?key" "tf_online (ts_logger ?s0) = tf_online (ts_logger s)"
      "\<And>k. hm_get (tf_streams (ts_logger ?s0)) k = (if k = ?key then hm_get (tf_streams (ts_logger ?s0)) k else hm_get (tf_streams (ts_logger s)) k)"
    using assms(2)
    by (simp_all add: stream_trace_new_def stream_key_def stream_stats_new_def traffic_stats_logger_def trace_stream_def hm_laws Let_def)
  obtain target s1 where o: "open_tcp_stream fill cx now w ?s0 = (target, s1)" by fastforce
  have s1: "stream_key s1 = Some ?key" "tf_streams (ts_logger s1) = tf_streams (ts_logger ?s0)"
      "tf_online (ts_logger s1) = tf_online (ts_logger ?s0)"
    using open_tcp_stream_key [OF o] s0 traffic_streams.open_tcp_stream_view [OF assms(2) o]
      traffic_online.open_tcp_stream_view [OF assms(2) o] by simp_all
  obtain s2 where s2: "s' = stream_trace_drop cx s2" "stream_key s2 = Some ?key"
      "tf_streams (ts_logger s2) = tf_streams (ts_logger ?s0)" "tf_online (ts_logger s2) = tf_online (ts_logger ?s0)"
  proof (cases target)
    case None
    then show ?thesis using assms(1) o s1 by (intro that [of s1]) (simp_all add: handle_tcp_stream_def)
  next
    case (Some t)
    obtain e s2 where j: "join_tcp_stream cx (turns t) s1 = (e, s2)" by fastforce
    have "stream_key s2 = stream_key s1" "tf_streams (ts_logger s2) = tf_streams (ts_logger s1)"
      "tf_online (ts_logger s2) = tf_online (ts_logger s1)"
      using join_tcp_stream_key [OF j] traffic_streams.join_tcp_stream_view [OF assms(2) j]
        traffic_online.join_tcp_stream_view [OF assms(2) j] by simp_all
    then show ?thesis using assms(1) o s1 j Some
      by (intro that [of s2]) (auto simp: handle_tcp_stream_def split: loop_end.splits)
  qed
  obtain st where st: "ts_stats s2 = Some st" "(ss_connection_id st, ss_stream_id st) = ?key"
    using s2(2) by (auto simp: stream_key_def)
  show ?thesis
    using assms(2) s2 st s0(2) s0(3) [of k]
    by (auto simp: stream_trace_drop_def traffic_stats_logger_def untrace_stream_def hm_laws with_stats_def set_state_def)
qed

definition sample_logged :: "(traffic_state, unit, unit) tcp_server_context" where
  "sample_logged = \<lparr>cx_traffic_logger = Some traffic_stats_logger, cx_auth_id = ''u'', cx_connection_id = 1,
     cx_outbound = cx_outbound sample_context, cx_request_hook = None\<rparr>"

definition sample_logged_server :: "traffic_state \<Rightarrow> (unit, traffic_state) tcp_server" where
  "sample_logged_server state = \<lparr>bs_in = [], bs_out = [], io_random = (), ts_logger = state, ts_stats = None,
     ts_close = None, ts_target = [], ts_target_shutdown = False, ts_finished = False\<rparr>"

text \<open>
  C10: Kicking a user through the HTTP interface disconnects the user: as soon as a stream of a connection of
  that user moves data in either direction, its loops end, the connection is closed with the code for an
  exceeded traffic limit, and the data is not delivered. The kick is then used up.
\<close>

theorem kick_disconnects:
  assumes "kick lib from_json secret headers body state = (response, state')"
    and "authorized lib secret headers" and "from_json body = Some ids" and "cx_auth_id cx \<in> set ids"
    and "cx_traffic_logger cx = Some traffic_stats_logger" and "ts_logger s = state'"
    and "ct_read t = Inr data" and "data \<noteq> []"
    and "join_tcp_stream cx (t # ts) s = (outcome, s')"
  shows "outcome = Ended (Inl TrafficLimitReached) \<and> ts_close s' = Some CLOSE_TRAFFIC_LIMIT_REACHED \<and>
    moved dir s' = moved dir s \<and> cx_auth_id cx \<notin> tf_kicked (ts_logger s')"
proof -
  have "ts_logger s = state\<lparr>tf_kicked := tf_kicked state \<union> set ids\<rparr>" using assms(1-3,6) by (simp add: kick_def)
  then have "cx_auth_id cx \<in> tf_kicked (ts_logger s)" using assms(4) by simp
  with assms(5,7-9) show ?thesis
    by (cases dir) (auto simp: join_tcp_stream_def loop_ended_def copy_with_traffic_def log_allowed_def traffic_stats_logger_def
        log_traffic_def counts_def with_stats_def moved_def split: direction.splits)
qed

definition sample_kick :: "http_response \<times> traffic_state" where
  "sample_kick = kick plain_http_lib (\<lambda>_. Some [''u'']) [] [] [] traffic_state_default"

theorem kick_disconnects_witness:
  "ts_close (snd (join_tcp_stream sample_logged [sample_turn] (sample_logged_server (snd sample_kick)))) =
     Some CLOSE_TRAFFIC_LIMIT_REACHED"
  using kick_disconnects [where lib = plain_http_lib and from_json = "\<lambda>_. Some [''u'']" and secret = "[]" and headers = "[]" and body = "[]"
      and state = traffic_state_default and cx = sample_logged and t = sample_turn and ts = "[]" and data = "[1, 2]"
      and s = "sample_logged_server (snd sample_kick)" and dir = ClientToTarget, OF prod.collapse [symmetric] _ refl _ _ _ _ _
      prod.collapse [symmetric]]
  by (simp add: authorized_def sample_logged_def sample_logged_server_def sample_kick_def sample_turn_def)

text \<open>The guards that the connections of users make and drop, in the order in which they do.\<close>

definition guard_event :: "string \<times> bool \<Rightarrow> traffic_state \<Rightarrow> traffic_state" where
  "guard_event e state =
     (if snd e then online_guard_new traffic_stats_logger (fst e) state
      else online_guard_drop traffic_stats_logger (fst e) state)"

definition live_guards :: "string \<Rightarrow> (string \<times> bool) list \<Rightarrow> int" where
  "live_guards i es = int (count_list es (i, True)) - int (count_list es (i, False))"

lemma live_guards_snoc: "live_guards i (es @ [e]) = live_guards i es + (if e = (i, True) then 1 else if e = (i, False) then -1 else 0)"
  by (auto simp: live_guards_def)

text \<open>
  The number of connections reported for a user is the number of guards that are alive, however the
  connections of all users come and go; a user without one is not listed.
\<close>

lemma online_counts_guards:
  assumes "\<And>n. 0 \<le> live_guards i (take n es)"
  shows "hm_get (tf_online (fold guard_event es traffic_state_default)) i =
    (if live_guards i es = 0 then None else Some (nat (live_guards i es)))"
  using assms
proof (induction es rule: rev_induct)
  case Nil
  then show ?case by (simp add: live_guards_def traffic_state_default_def)
next
  case (snoc e es)
  have pos: "0 \<le> live_guards i es" using snoc.prems [of "length es"] by simp
  have "0 \<le> live_guards i (take n es)" for n
    using snoc.prems [of "min n (length es)"] by (simp add: min_def split: if_splits)
  note IH = snoc.IH [OF this]
  have now: "0 \<le> live_guards i (es @ [e])" using snoc.prems [of "Suc (length es)"] by simp
  obtain j b where e: "e = (j, b)" by fastforce
  show ?case
  proof (cases "j = i")
    case True
    then show ?thesis using IH pos now
      by (cases b)
        (auto simp: e guard_event_def online_guard_new_def online_guard_drop_def traffic_stats_logger_def log_online_state_def
          live_guards_snoc hm_laws unwrap_or_def nat_diff_distrib nat_add_distrib split: if_splits)
  next
    case False
    then show ?thesis using IH
      by (cases b)
        (auto simp: e guard_event_def online_guard_new_def online_guard_drop_def traffic_stats_logger_def log_online_state_def
          live_guards_snoc hm_laws split: if_splits option.splits)
  qed
qed

end
