(* ===== verification/Handshake.thy ===== *)
theory Handshake
  imports Auth_Headers Congestion Transport_Error Http_Types Net
begin

unbundle bit_operations_syntax

text \<open>
  The authentication exchange over HTTP/3 (\<open>hysteria-transport/src/handshake.rs\<close>) with the inspection of
  the peer's application settings (\<open>http3_alps.rs\<close>): the request of the client, the server's loop that
  authenticates one request and answers every other one like an ordinary web server, and the rates both
  sides take from the exchange. HTTP/3 itself, the authenticator and the masquerade are parameters.
\<close>

section \<open>Application settings\<close>

record settings =
  st_values :: "(u64 \<times> u64) list option"
  st_accept_ch_frames :: usize

abbreviation (input) unsupported_setting :: "u64 \<times> u64 \<Rightarrow> bool" where
  "unsupported_setting \<equiv> (\<lambda>(i, v). v \<noteq> 0 \<and> i \<in> set [8, 0x33, 0x00ffd277, 0x2b603742, 0x2b603743])"

definition supported_header_limit :: "settings \<Rightarrow> string + u64 option" where
  "supported_header_limit s =
     (if st_accept_ch_frames s \<noteq> 0 then Inl ''ALPS ACCEPT_CH handling is not implemented''
      else
        (case st_values s of
           None \<Rightarrow> Inr None
         | Some known \<Rightarrow>
             if list_ex unsupported_setting known then Inl ''unsupported HTTP/3 ALPS setting''
             else Inr (map_of known 6)))"

definition alps_varint :: "bytes \<Rightarrow> string + u64 \<times> bytes" where
  "alps_varint input =
     (case input of
        [] \<Rightarrow> Inl ''truncated ALPS varint''
      | first # _ \<Rightarrow>
          (let width = push_bit (unat (drop_bit 6 first)) (1 :: nat) in
           if length input < width then Inl ''truncated ALPS varint''
           else Inr (foldl be_step (ucast (first AND 0x3f)) (drop 1 (take width input)), drop width input)))"

definition length_prefixed :: "bytes \<Rightarrow> string + bytes \<times> bytes" where
  "length_prefixed input =
     and_then (alps_varint input) (\<lambda>(len, input).
     if length input < unat len then Inl ''truncated ALPS payload''
     else Inr (take (unat len) input, drop (unat len) input))"

lemma alps_varint_shorter: "alps_varint input = Inr (v, rest) \<Longrightarrow> length rest < length input"
proof (cases input)
  case (Cons first more_bytes)
  assume "alps_varint input = Inr (v, rest)"
  moreover have "0 < push_bit (unat (drop_bit 6 first)) (1 :: nat)" by (simp add: push_bit_eq_mult)
  ultimately show ?thesis using Cons by (auto simp: alps_varint_def Let_def split: if_splits)
qed (simp add: alps_varint_def)

lemma length_prefixed_shorter: "length_prefixed input = Inr (payload, rest) \<Longrightarrow> length rest < length input"
  by (fastforce simp: length_prefixed_def and_then_def split: sum.splits if_splits dest: alps_varint_shorter)

text \<open>The map of settings keeps the order of arrival; only lookups and the absence of duplicates matter.\<close>

function settings_values :: "(u64 \<times> u64) list \<Rightarrow> bytes \<Rightarrow> string + (u64 \<times> u64) list" where
  "settings_values known payload =
     (if payload = [] then Inr known
      else
        (case alps_varint payload of
           Inl e \<Rightarrow> Inl e
         | Inr (i, payload1) \<Rightarrow>
             (case alps_varint payload1 of
                Inl e \<Rightarrow> Inl e
              | Inr (v, payload2) \<Rightarrow>
                  if 2 \<le> i \<and> i \<le> 5 then Inl ''HTTP/2 setting in HTTP/3 ALPS''
                  else if (i = 8 \<or> i = 0x33) \<and> v > 1 then Inl ''invalid boolean ALPS setting''
                  else if map_of known i \<noteq> None then Inl ''duplicate ALPS setting identifier''
                  else settings_values (known @ [(i, v)]) payload2)))"
  by pat_completeness auto
termination
  by (relation "measure (length \<circ> snd)") (auto dest!: alps_varint_shorter)

function accept_ch_entries :: "bytes \<Rightarrow> string + unit" where
  "accept_ch_entries payload =
     (if payload = [] then Inr ()
      else
        (case length_prefixed payload of
           Inl e \<Rightarrow> Inl e
         | Inr (_, payload1) \<Rightarrow>
             (case length_prefixed payload1 of Inl e \<Rightarrow> Inl e | Inr (_, payload2) \<Rightarrow> accept_ch_entries payload2)))"
  by pat_completeness auto
termination
  by (relation "measure length") (auto dest!: length_prefixed_shorter)

abbreviation (input) forbidden_frame :: "u64 \<Rightarrow> bool" where
  "forbidden_frame kind \<equiv> (kind \<le> 3 \<or> (5 \<le> kind \<and> kind \<le> 9) \<or> kind \<in> set [0xd, 0xf0700, 0xf0701])"

definition inspect_frame :: "settings \<Rightarrow> u64 \<Rightarrow> bytes \<Rightarrow> string + settings" where
  "inspect_frame result kind payload =
     (if kind = 4 then
        (if st_values result \<noteq> None then Inl ''duplicate ALPS SETTINGS frame''
         else and_then (settings_values [] payload) (\<lambda>known. Inr (result\<lparr>st_values := Some known\<rparr>)))
      else if kind = 0x89 then
        and_then (accept_ch_entries payload) (\<lambda>_.
          Inr (result\<lparr>st_accept_ch_frames := st_accept_ch_frames result + 1\<rparr>))
      else if forbidden_frame kind then Inl ''forbidden HTTP/3 frame in ALPS''
      else Inr result)"

function inspect_frames :: "settings \<Rightarrow> bytes \<Rightarrow> string + settings" where
  "inspect_frames result input =
     (if input = [] then Inr result
      else
        (case alps_varint input of
           Inl e \<Rightarrow> Inl e
         | Inr (kind, input1) \<Rightarrow>
             (case length_prefixed input1 of
                Inl e \<Rightarrow> Inl e
              | Inr (payload, input2) \<Rightarrow>
                  (case inspect_frame result kind payload of
                     Inl e \<Rightarrow> Inl e
                   | Inr result \<Rightarrow> inspect_frames result input2))))"
  by pat_completeness auto
termination
  by (relation "measure (length \<circ> snd)") (auto dest!: alps_varint_shorter length_prefixed_shorter)

declare settings_values.simps [simp del] accept_ch_entries.simps [simp del] inspect_frames.simps [simp del]

definition inspect :: "bytes \<Rightarrow> string + settings" where
  "inspect input =
     (if length input > 16 * 1024 then Inl ''ALPS exceeds 16 KiB''
      else inspect_frames \<lparr>st_values = None, st_accept_ch_frames = 0\<rparr> input)"

section \<open>Connections\<close>

abbreviation (input) CLOSE_PROTOCOL_ERROR :: u32 where "CLOSE_PROTOCOL_ERROR \<equiv> 0x101"

record server_handshake =
  sh_udp_enabled :: bool
  sh_max_rx :: u64
  sh_rx_auto :: bool
  sh_max_tx :: u64

definition server_handshake_default :: server_handshake where
  "server_handshake_default = \<lparr>sh_udp_enabled = True, sh_max_rx = 0, sh_rx_auto = False, sh_max_tx = 0\<rparr>"

record client_handshake =
  ch_auth :: string
  ch_max_rx :: u64
  ch_max_tx :: u64

record handshake_info =
  hi_udp_enabled :: bool
  hi_actual_tx :: u64
  hi_server_address :: socket_addr
  hi_rx_auto :: bool

record authenticated_connection =
  ac_auth_id :: string
  ac_peer_rx :: u64
  ac_udp_enabled :: bool

text \<open>
  What the exchange works on: the random source, the congestion controller of the connection, the code and
  reason it was closed with, and the settings the peer sent inside the TLS handshake.
\<close>

record ('r, 'f) quic_conn =
  qc_random :: 'r
  qc_congestion :: "'f adaptive_congestion"
  qc_close :: "(u32 \<times> string) option"
  qc_alps :: "bytes option"

type_synonym ('r, 'f, 'a) hs = "(('r, 'f) quic_conn, transport_error, 'a) eff"

definition hs_fill :: "'r random_source \<Rightarrow> nat \<Rightarrow> ('r, 'f, bytes) hs" where
  "hs_fill fill n c =
     (case fill (qc_random c) n of
        (None, r) \<Rightarrow> (Inl (TransportRandomSource ''random source failed''), c\<lparr>qc_random := r\<rparr>)
      | (Some bs, r) \<Rightarrow> (Inr bs, c\<lparr>qc_random := r\<rparr>))"

definition hs_set_bandwidth :: "u64 \<Rightarrow> ('r, 'f, unit) hs" where
  "hs_set_bandwidth rate c =
     (case set_brutal_bandwidth (qc_congestion c) rate of
        Inl _ \<Rightarrow> (Inl (Configuration ''Brutal bandwidth must be greater than zero''), c)
      | Inr a \<Rightarrow> (Inr (), c\<lparr>qc_congestion := a\<rparr>))"

definition hs_close :: "u32 \<Rightarrow> string \<Rightarrow> transport_error \<Rightarrow> ('r, 'f, 'a) hs" where
  "hs_close code reason e c = (Inl e, c\<lparr>qc_close := Some (code, reason)\<rparr>)"

definition http3_peer_header_limit :: "('r, 'f, u64 option) hs" where
  "http3_peer_header_limit c =
     (case qc_alps c of
        None \<Rightarrow> eff_return None c
      | Some settings \<Rightarrow>
          (case inspect settings of
             Inl e \<Rightarrow> hs_close CLOSE_PROTOCOL_ERROR ''invalid HTTP/3 ALPS''
                       (Protocol (''invalid HTTP/3 ALPS: '' @ e)) c
           | Inr parsed \<Rightarrow>
               (case supported_header_limit parsed of
                  Inl e \<Rightarrow> hs_close CLOSE_PROTOCOL_ERROR ''unsupported HTTP/3 ALPS settings'' (Configuration e) c
                | Inr limit \<Rightarrow> eff_return limit c)))"

text \<open>The check of the HTTP/3 builder on a limit that it is given.\<close>

definition builder_limit :: "u64 option \<Rightarrow> ('r, 'f, unit) hs" where
  "builder_limit limit =
     (case limit of
        Some v \<Rightarrow>
          if v > push_bit 62 1 - 1
          then eff_lift (Inl (Configuration ''ALPS field section limit exceeds QUIC varint range''))
          else eff_return ()
      | None \<Rightarrow> eff_return ())"

definition PADDING_ALPHABET :: string where
  "PADDING_ALPHABET = ''abcdefghijklmnopqrstuvwxyzABCDEFGHIJKLMNOPQRSTUVWXYZ0123456789''"

abbreviation (input) AUTH_PADDING_MIN :: usize where "AUTH_PADDING_MIN \<equiv> 256"
abbreviation (input) AUTH_PADDING_MAX_EXCLUSIVE :: usize where "AUTH_PADDING_MAX_EXCLUSIVE \<equiv> 2048"

definition auth_padding :: "'r random_source \<Rightarrow> ('r, 'f, string) hs" where
  "auth_padding fill =
     eff_bind (hs_fill fill 2) (\<lambda>length_bytes.
     eff_bind (hs_fill fill (AUTH_PADDING_MIN +
         unat (from_be_bytes length_bytes :: u16) mod (AUTH_PADDING_MAX_EXCLUSIVE - AUTH_PADDING_MIN))) (\<lambda>entropy.
     eff_return (map (\<lambda>b. PADDING_ALPHABET ! (unat b mod length PADDING_ALPHABET)) entropy)))"

definition insert_header :: "http_lib \<Rightarrow> string \<Rightarrow> string \<Rightarrow> header_map \<Rightarrow> transport_error + header_map" where
  "insert_header lib name v headers =
     (case hv_from_str lib v of
        None \<Rightarrow> Inl (InvalidHeader ''failed to parse header value'')
      | Some bs \<Rightarrow> Inr (hdr_insert name bs headers))"

section \<open>The client\<close>

record http_request =
  rq_method :: string
  rq_authority :: "string option"
  rq_path :: string
  rq_headers :: header_map

text \<open>The request, once the builder has accepted the peer's limit.\<close>

definition client_request :: "http_lib \<Rightarrow> 'r random_source \<Rightarrow> client_handshake \<Rightarrow> ('r, 'f, http_request) hs" where
  "client_request lib fill handshake =
     eff_bind (eff_lift (insert_header lib HEADER_AUTH (ch_auth handshake) [])) (\<lambda>headers.
     eff_bind (eff_lift (insert_header lib HEADER_CC_RX (uint_string (ch_max_rx handshake)) headers)) (\<lambda>headers.
     eff_bind (auth_padding fill) (\<lambda>padding.
     eff_bind (eff_lift (insert_header lib HEADER_PADDING padding headers)) (\<lambda>headers.
     eff_return \<lparr>rq_method = ''POST'', rq_authority = Some AUTH_HOST, rq_path = AUTH_PATH, rq_headers = headers\<rparr>))))"

definition negotiated_tx :: "client_handshake \<Rightarrow> auth_response \<Rightarrow> u64" where
  "negotiated_tx handshake response =
     (if rx_auto response then 0
      else if rx_rate response = 0 \<or> rx_rate response > ch_max_tx handshake then ch_max_tx handshake
      else rx_rate response)"

definition client_response ::
  "http_lib \<Rightarrow> client_handshake \<Rightarrow> socket_addr \<Rightarrow> u16 \<times> header_map \<Rightarrow>
     ('r, 'f, authenticated_connection \<times> handshake_info) hs" where
  "client_response lib handshake server_address = (\<lambda>(status, headers).
     if status \<noteq> AUTH_STATUS_OK
     then hs_close CLOSE_PROTOCOL_ERROR ''authentication failed'' (AuthenticationFailed status)
     else
       (let response = auth_response_from_header_values
              (hdr_str lib headers HEADER_UDP_ENABLED) (hdr_str lib headers HEADER_CC_RX);
            actual_tx = negotiated_tx handshake response in
        eff_bind (if actual_tx > 0 then hs_set_bandwidth actual_tx else eff_return ()) (\<lambda>_.
        eff_return
          (\<lparr>ac_auth_id = [], ac_peer_rx = rx_rate response, ac_udp_enabled = udp_enabled response\<rparr>,
           \<lparr>hi_udp_enabled = udp_enabled response, hi_actual_tx = actual_tx, hi_server_address = server_address,
            hi_rx_auto = rx_auto response\<rparr>))))"

text \<open>\<open>h3\<close> stands for the HTTP/3 exchange: given the limit and the request, the response or an error.\<close>

definition authenticate_client_connection ::
  "http_lib \<Rightarrow> 'r random_source \<Rightarrow> (u64 option \<Rightarrow> http_request \<Rightarrow> string + u16 \<times> header_map) \<Rightarrow>
     socket_addr \<Rightarrow> client_handshake \<Rightarrow> ('r, 'f, authenticated_connection \<times> handshake_info) hs" where
  "authenticate_client_connection lib fill h3 server_address handshake =
     eff_bind http3_peer_header_limit (\<lambda>limit.
     eff_bind (builder_limit limit) (\<lambda>_.
     eff_bind (client_request lib fill handshake) (\<lambda>request.
     eff_bind (eff_lift (map_err Http3Stream (h3 limit request))) (\<lambda>response.
     client_response lib handshake server_address response))))"

section \<open>The masquerade\<close>

record masquerade_response =
  mr_status :: u16
  mr_headers :: header_map
  mr_body :: bytes
  mr_body_stream :: "(string + bytes) list option"

definition not_found_response :: masquerade_response where
  "not_found_response =
     \<lparr>mr_status = 404,
      mr_headers = [(''content-type'', as_bytes ''text/plain; charset=utf-8''), (''x-content-type-options'', as_bytes ''nosniff'')],
      mr_body = as_bytes (''404 page not found'' @ [CHR 0x0A]), mr_body_stream = None\<rparr>"

datatype h3_frame = Head u16 header_map | Data bytes | Finish

fun collect_chunks :: "bytes \<Rightarrow> (string + bytes) list \<Rightarrow> string + bytes" where
  "collect_chunks body [] = Inr body"
| "collect_chunks body (Inl e # _) = Inl e"
| "collect_chunks body (Inr chunk # pieces) = collect_chunks (body @ chunk) pieces"

definition collect_body :: "masquerade_response \<Rightarrow> (string + bytes) \<times> masquerade_response" where
  "collect_body response =
     (case mr_body_stream response of
        None \<Rightarrow> (Inr (mr_body response), response)
      | Some pieces \<Rightarrow>
          (case collect_chunks (mr_body response) pieces of
             Inl e \<Rightarrow> (Inl e, response\<lparr>mr_body_stream := None\<rparr>)
           | Inr body \<Rightarrow> (Inr body, response\<lparr>mr_body_stream := None, mr_body := body\<rparr>)))"

fun send_pieces :: "(string + bytes) list \<Rightarrow> h3_frame list \<times> string option" where
  "send_pieces [] = ([], None)"
| "send_pieces (Inl e # _) = ([], Some e)"
| "send_pieces (Inr chunk # pieces) = (case send_pieces pieces of (fs, e) \<Rightarrow> (Data chunk # fs, e))"

text \<open>\<open>date\<close> is the current date as a header value. What is sent, and the error of the body's producer.\<close>

definition body_allowed :: "masquerade_response \<Rightarrow> bool \<Rightarrow> bool" where
  "body_allowed response suppress_body =
     (\<not> suppress_body \<and> mr_status response \<noteq> 204 \<and> mr_status response \<noteq> 304 \<and>
      \<not> (100 \<le> mr_status response \<and> mr_status response < 200))"

definition masquerade_headers :: "bytes \<Rightarrow> masquerade_response \<Rightarrow> bool \<Rightarrow> header_map" where
  "masquerade_headers date response suppress_body =
     (let headers = (if hdr_get (mr_headers response) ''date'' = None
                     then hdr_insert ''date'' date (mr_headers response) else mr_headers response) in
      if hdr_get headers ''content-length'' = None \<and> mr_body_stream response = None \<and>
         (body_allowed response suppress_body \<or> suppress_body)
      then hdr_insert ''content-length'' (as_bytes (nat_string (length (mr_body response)))) headers
      else headers)"

definition send_masquerade_response :: "bytes \<Rightarrow> masquerade_response \<Rightarrow> bool \<Rightarrow> h3_frame list \<times> string option" where
  "send_masquerade_response date response suppress_body =
     (let allowed = body_allowed response suppress_body;
          head = Head (mr_status response) (masquerade_headers date response suppress_body)
                 # (if allowed \<and> mr_body response \<noteq> [] then [Data (mr_body response)] else []);
          (pieces, failed) = (if allowed then send_pieces (unwrap_or [] (mr_body_stream response)) else ([], None)) in
      (head @ pieces @ (if failed = None then [Finish] else []), failed))"

section \<open>The server\<close>

text \<open>
  What the server's accept loop sees next: an error of the connection, an error of a request, or a request
  with the pieces of its body.
\<close>

datatype incoming = AcceptError string | ResolveError string | Incoming http_request "(string + bytes) list"

type_synonym masquerade_handler = "http_request \<Rightarrow> (string + bytes) list \<Rightarrow> masquerade_response"

definition handle_masquerade_request ::
  "bytes \<Rightarrow> masquerade_handler \<Rightarrow> http_request \<Rightarrow> (string + bytes) list \<Rightarrow> h3_frame list \<times> string option" where
  "handle_masquerade_request date masquerade request body =
     send_masquerade_response date (masquerade request body) (rq_method request = ''HEAD'')"

definition is_auth :: "http_request \<Rightarrow> bool" where
  "is_auth request \<longleftrightarrow>
     rq_method request = ''POST'' \<and> rq_authority request = Some AUTH_HOST \<and> rq_path request = AUTH_PATH"

definition request_auth :: "http_lib \<Rightarrow> http_request \<Rightarrow> auth_request" where
  "request_auth lib request =
     auth_request_from_header_values (hdr_str lib (rq_headers request) HEADER_AUTH)
       (hdr_str lib (rq_headers request) HEADER_CC_RX)"

fun insert_headers :: "http_lib \<Rightarrow> (string \<times> string) list \<Rightarrow> header_map \<Rightarrow> transport_error + header_map" where
  "insert_headers lib [] headers = Inr headers"
| "insert_headers lib ((name, v) # rest) headers =
     and_then (insert_header lib name v headers) (\<lambda>headers. insert_headers lib rest headers)"

definition server_response :: "http_lib \<Rightarrow> 'r random_source \<Rightarrow> server_handshake \<Rightarrow> ('r, 'f, h3_frame list) hs" where
  "server_response lib fill config =
     eff_bind (eff_lift (insert_headers lib (auth_response_header_values
         \<lparr>udp_enabled = sh_udp_enabled config, rx_rate = sh_max_rx config, rx_auto = sh_rx_auto config\<rparr>) [])) (\<lambda>headers.
     eff_bind (auth_padding fill) (\<lambda>padding.
     eff_bind (eff_lift (insert_header lib HEADER_PADDING padding headers)) (\<lambda>headers.
     eff_return [Head AUTH_STATUS_OK headers, Finish])))"

definition server_peer_rx :: "server_handshake \<Rightarrow> auth_request \<Rightarrow> u64" where
  "server_peer_rx config request =
     (if sh_max_tx config > 0 \<and> auth_rx request > sh_max_tx config then sh_max_tx config else auth_rx request)"

definition accept_authenticated ::
  "http_lib \<Rightarrow> 'r random_source \<Rightarrow> server_handshake \<Rightarrow> string \<Rightarrow> auth_request \<Rightarrow>
     ('r, 'f, h3_frame list \<times> authenticated_connection) hs" where
  "accept_authenticated lib fill config auth_id request =
     eff_bind (server_response lib fill config) (\<lambda>frames.
     (let peer_rx = server_peer_rx config request in
      eff_bind (if \<not> sh_rx_auto config \<and> peer_rx > 0 then hs_set_bandwidth peer_rx else eff_return ()) (\<lambda>_.
      eff_return (frames, \<lparr>ac_auth_id = auth_id, ac_peer_rx = peer_rx, ac_udp_enabled = sh_udp_enabled config\<rparr>))))"

text \<open>
  The loop over the requests of a connection, with the frames sent in answer to each of them. The
  authenticator sees the peer's address and the headers of requests for the authentication endpoint only.
\<close>

fun serve_requests ::
  "http_lib \<Rightarrow> 'r random_source \<Rightarrow> server_handshake \<Rightarrow> (auth_request \<Rightarrow> string option) \<Rightarrow> bytes \<Rightarrow> masquerade_handler \<Rightarrow>
     incoming list \<Rightarrow> ('r, 'f) quic_conn \<Rightarrow>
     (transport_error + authenticated_connection option) \<times> h3_frame list list \<times> ('r, 'f) quic_conn" where
  "serve_requests lib fill config authenticator date masquerade [] c = (Inr None, [], c)"
| "serve_requests lib fill config authenticator date masquerade (AcceptError e # _) c = (Inl (Http3Connection e), [], c)"
| "serve_requests lib fill config authenticator date masquerade (ResolveError e # _) c = (Inl (Http3Stream e), [], c)"
| "serve_requests lib fill config authenticator date masquerade (Incoming request body # rest) c =
     (case (if is_auth request then authenticator (request_auth lib request) else None) of
        Some auth_id \<Rightarrow>
          (case accept_authenticated lib fill config auth_id (request_auth lib request) c of
             (Inl e, c) \<Rightarrow> (Inl e, [], c)
           | (Inr (frames, conn), c) \<Rightarrow> (Inr (Some conn), [frames], c))
      | None \<Rightarrow>
          (case handle_masquerade_request date masquerade request body of
             (frames, Some e) \<Rightarrow> (Inl (Http3Stream e), [frames], c)
           | (frames, None) \<Rightarrow>
               (case serve_requests lib fill config authenticator date masquerade rest c of
                  (r, sent, c) \<Rightarrow> (r, frames # sent, c))))"

definition authenticate_server_connection ::
  "http_lib \<Rightarrow> 'r random_source \<Rightarrow> server_handshake \<Rightarrow> (socket_addr \<Rightarrow> auth_request \<Rightarrow> string option) \<Rightarrow> socket_addr \<Rightarrow>
     bytes \<Rightarrow> masquerade_handler \<Rightarrow> incoming list \<Rightarrow> ('r, 'f) quic_conn \<Rightarrow>
     (transport_error + authenticated_connection option) \<times> h3_frame list list \<times> ('r, 'f) quic_conn" where
  "authenticate_server_connection lib fill config authenticator remote date masquerade incoming c =
     (case eff_bind http3_peer_header_limit builder_limit c of
        (Inl e, c) \<Rightarrow> (Inl e, [], c)
      | (Inr _, c) \<Rightarrow> serve_requests lib fill config (authenticator remote) date masquerade incoming c)"

section \<open>Reading application settings\<close>

lemma alps_varint_decode: "alps_varint input = map_err (\<lambda>_. ''truncated ALPS varint'') (decode_varint input)"
proof (cases input)
  case (Cons first bs)
  have "0 < (2 :: nat) ^ unat (drop_bit 6 first)" by simp
  then obtain m where "(2 :: nat) ^ unat (drop_bit 6 first) = Suc m" by (cases "(2 :: nat) ^ unat (drop_bit 6 first)") auto
  then show ?thesis
    by (simp add: Cons alps_varint_def decode_varint_def Let_def push_bit_eq_mult map_err_def)
qed (simp add: alps_varint_def decode_varint_def map_err_def)

definition encoded :: "u64 \<Rightarrow> bytes" where
  "encoded v = (case encode_varint v [] of Inr bs \<Rightarrow> bs | Inl _ \<Rightarrow> [])"

lemma alps_varint_encoded [simp]:
  assumes "v \<le> MAX_VARINT"
  shows "alps_varint (encoded v @ rest) = Inr (v, rest)" "encoded v \<noteq> []" "length (encoded v) \<le> 8"
proof -
  obtain p where p: "\<And>out. encode_varint v out = Inr (out @ p)" "length p = varint_len v"
      "\<And>rest. decode_varint (p @ rest) = Inr (v, rest)"
    by (rule varint_roundtrip_append [OF assms]) blast
  then show "alps_varint (encoded v @ rest) = Inr (v, rest)"
    by (simp add: encoded_def alps_varint_decode map_err_def)
  show "encoded v \<noteq> []" "length (encoded v) \<le> 8" using p(1) [of "[]"] p(2) varint_len_pos [of v] by (auto simp: encoded_def varint_len_def)
qed

definition settings_payload :: "(u64 \<times> u64) list \<Rightarrow> bytes" where
  "settings_payload kvs = concat (map (\<lambda>(i, v). encoded i @ encoded v) kvs)"

definition settings_frame :: "(u64 \<times> u64) list \<Rightarrow> bytes" where
  "settings_frame kvs = encoded 4 @ encoded (word_of_nat (length (settings_payload kvs))) @ settings_payload kvs"

definition setting_ok :: "u64 \<times> u64 \<Rightarrow> bool" where
  "setting_ok = (\<lambda>(i, v). i \<le> MAX_VARINT \<and> v \<le> MAX_VARINT \<and> \<not> (2 \<le> i \<and> i \<le> 5) \<and> ((i = 8 \<or> i = 0x33) \<longrightarrow> v \<le> 1))"

lemma settings_values_payload:
  "list_all setting_ok kvs \<Longrightarrow> distinct (map fst (known @ kvs)) \<Longrightarrow>
     settings_values known (settings_payload kvs) = Inr (known @ kvs)"
proof (induction kvs arbitrary: "known")
  case Nil
  then show ?case by (simp add: settings_payload_def settings_values.simps)
next
  case (Cons kv kvs)
  obtain i v where kv: "kv = (i, v)" by fastforce
  have ok: "i \<le> MAX_VARINT" "v \<le> MAX_VARINT" "\<not> (2 \<le> i \<and> i \<le> 5)" "\<not> ((i = 8 \<or> i = 0x33) \<and> v > 1)"
    using Cons.prems(1) kv by (auto simp: setting_ok_def not_less)
  have new: "map_of known i = None" using Cons.prems(2) kv by (auto simp: map_of_eq_None_iff)
  have "settings_payload (kv # kvs) = encoded i @ encoded v @ settings_payload kvs" by (simp add: settings_payload_def kv)
  moreover have "settings_values (known @ [(i, v)]) (settings_payload kvs) = Inr (known @ kv # kvs)"
    using Cons.IH [of "known @ [(i, v)]"] Cons.prems kv by simp
  ultimately show ?case
    using ok new by (subst settings_values.simps) (simp del: not_le not_less de_Morgan_conj)
qed

lemma alps_varint_range: "alps_varint input = Inr (v, rest) \<Longrightarrow> v \<le> MAX_VARINT"
  using varint_decode_range by (auto simp: alps_varint_decode map_err_def split: sum.splits)

lemma settings_values_range:
  "settings_values known payload = Inr kvs \<Longrightarrow> list_all (\<lambda>p. snd p \<le> MAX_VARINT) known \<Longrightarrow>
     list_all (\<lambda>p. snd p \<le> MAX_VARINT) kvs"
proof (induction "known" payload rule: settings_values.induct)
  case (1 "known" payload)
  show ?case
  proof (cases "payload = []")
    case True
    then show ?thesis using 1(2,3) by (simp add: settings_values.simps)
  next
    case False
    obtain i p1 where i: "alps_varint payload = Inr (i, p1)"
      using 1(2) False by (subst (asm) settings_values.simps) (auto split: sum.splits)
    obtain v p2 where v: "alps_varint p1 = Inr (v, p2)"
      using 1(2) False i by (subst (asm) settings_values.simps) (auto split: sum.splits)
    have g: "\<not> (2 \<le> i \<and> i \<le> 5)" "\<not> ((i = 8 \<or> i = 0x33) \<and> 1 < v)" "\<not> map_of known i \<noteq> None"
      "settings_values (known @ [(i, v)]) p2 = Inr kvs"
      using 1(2) settings_values.simps [of "known" payload] by (auto simp: False i v split: if_splits)
    show ?thesis
      using 1(1) [OF False i _ v _ g] 1(3) alps_varint_range [OF v] by simp
  qed
qed

lemma inspect_frames_range:
  "inspect_frames result input = Inr s \<Longrightarrow>
     (\<And>kvs. st_values result = Some kvs \<Longrightarrow> list_all (\<lambda>p. snd p \<le> MAX_VARINT) kvs) \<Longrightarrow>
     st_values s = Some kvs \<Longrightarrow> list_all (\<lambda>p. snd p \<le> MAX_VARINT) kvs"
proof (induction result input rule: inspect_frames.induct)
  case (1 result input)
  show ?case
  proof (cases "input = []")
    case True
    then show ?thesis using 1(2-4) by (simp add: inspect_frames.simps)
  next
    case False
    obtain kind i1 where k: "alps_varint input = Inr (kind, i1)"
      using 1(2) False by (subst (asm) inspect_frames.simps) (auto split: sum.splits)
    obtain payload i2 where pl: "length_prefixed i1 = Inr (payload, i2)"
      using 1(2) False k by (subst (asm) inspect_frames.simps) (auto split: sum.splits)
    obtain r where r: "inspect_frame result kind payload = Inr r" "inspect_frames r i2 = Inr s"
      using 1(2) inspect_frames.simps [of result input] by (auto simp: False k pl split: sum.splits)
    have "list_all (\<lambda>p. snd p \<le> MAX_VARINT) kvs" if "st_values r = Some kvs" for kvs
      using r(1) that 1(3) [of kvs] settings_values_range [of "[]" payload kvs]
      by (auto simp: inspect_frame_def and_then_def split: if_splits sum.splits)
    then show ?thesis using 1(1) [OF False k _ pl _ r(1) r(2) _ 1(4)] by simp
  qed
qed

lemma header_limit_range:
  assumes "inspect input = Inr s" and "supported_header_limit s = Inr (Some v)"
  shows "v \<le> MAX_VARINT"
proof -
  obtain kvs where kvs: "st_values s = Some kvs" "map_of kvs 6 = Some v"
    using assms(2) by (auto simp: supported_header_limit_def split: if_splits option.splits)
  have "list_all (\<lambda>p. snd p \<le> MAX_VARINT) kvs"
    using assms(1) kvs(1) inspect_frames_range [of "\<lparr>st_values = None, st_accept_ch_frames = 0\<rparr>" input s kvs] by (auto simp: inspect_def split: if_splits)
  then show ?thesis using map_of_SomeD [OF kvs(2)] by (auto simp: list_all_iff)
qed

lemma builder_limit_accepts:
  "http3_peer_header_limit c = (Inr limit, c') \<Longrightarrow> builder_limit limit d = (Inr (), d)"
proof -
  assume "http3_peer_header_limit c = (Inr limit, c')"
  then have "\<forall>v. limit = Some v \<longrightarrow> v \<le> MAX_VARINT"
    by (auto simp: http3_peer_header_limit_def eff_return_def hs_close_def split: option.splits sum.splits
        dest: header_limit_range)
  then show ?thesis
    by (auto simp: builder_limit_def eff_return_def eff_lift_def MAX_VARINT_def not_less split: option.splits)
qed

text \<open>
  Application settings that carry one well-formed settings frame are accepted and read exactly; the
  limit on header sections that they advertise is the limit the connection uses, unless a setting asks
  for something that is not supported. The HTTP/3 builder never refuses a limit obtained this way.
\<close>

lemma alps_settings_roundtrip:
  assumes "list_all setting_ok kvs" and "distinct (map fst kvs)" and "length (settings_payload kvs) \<le> 16000"
  shows "inspect (settings_frame kvs) = Inr \<lparr>st_values = Some kvs, st_accept_ch_frames = 0\<rparr> \<and>
    (\<not> list_ex unsupported_setting kvs \<longrightarrow>
       (\<forall>c. qc_alps c = Some (settings_frame kvs) \<longrightarrow>
         eff_bind http3_peer_header_limit builder_limit c = (Inr (), c) \<and>
         http3_peer_header_limit c = (Inr (map_of kvs 6), c)))"
proof -
  let ?p = "settings_payload kvs" let ?n = "word_of_nat (length ?p) :: u64"
  have n: "unat ?n = length ?p" using assms(3) by (simp add: unat_of_nat take_bit_nat_eq_self)
  have le: "?n \<le> MAX_VARINT" "(4 :: u64) \<le> MAX_VARINT"
    using n assms(3) by (simp_all add: word_le_nat_alt unat_MAX_VARINT)
  have short: "length (settings_frame kvs) \<le> 16 * 1024"
    using alps_varint_encoded(3) [OF le(1)] alps_varint_encoded(3) [OF le(2)] assms(3) by (simp add: settings_frame_def)
  have v: "settings_values [] ?p = Inr kvs" using settings_values_payload [OF assms(1), of "[]"] assms(2) by simp
  have lp: "length_prefixed (encoded ?n @ ?p) = Inr (?p, [])"
    using le by (simp add: length_prefixed_def n)
  have i: "inspect (settings_frame kvs) = Inr \<lparr>st_values = Some kvs, st_accept_ch_frames = 0\<rparr>"
    using short le lp v
    by (simp add: inspect_def inspect_frames.simps [of _ "encoded 4 @ encoded ?n @ ?p"] inspect_frames.simps [of _ "[]"]
        settings_frame_def inspect_frame_def)
  moreover have "http3_peer_header_limit c = (Inr (map_of kvs 6), c)"
    if "\<not> list_ex unsupported_setting kvs" "qc_alps c = Some (settings_frame kvs)" for c :: "('r, 'f) quic_conn"
    using that by (simp add: http3_peer_header_limit_def i supported_header_limit_def eff_return_def)
  ultimately show ?thesis
    using builder_limit_accepts by (fastforce simp: eff_bind_def)
qed

section \<open>The exchange\<close>

lemma hs_fill_always:
  assumes "always_random fill"
  obtains bs r where "hs_fill fill n c = (Inr bs, c\<lparr>qc_random := r\<rparr>)" "length bs = n"
proof -
  obtain bs r where "fill (qc_random c) n = (Some bs, r)" "length bs = n"
    using assms unfolding always_random_def by metis
  then show ?thesis by (intro that) (simp_all add: hs_fill_def)
qed

lemma alphabet_visible: "list_all (\<lambda>c. 32 \<le> byte_of_char c \<and> byte_of_char c < 127) PADDING_ALPHABET"
  by code_simp

lemma visible_padding: "visible_ascii (as_bytes (map (\<lambda>b. PADDING_ALPHABET ! (unat (b :: u8) mod length PADDING_ALPHABET)) bs))"
proof -
  have "0 < length PADDING_ALPHABET" by (simp add: PADDING_ALPHABET_def)
  then show ?thesis
    using alphabet_visible by (auto simp: visible_ascii_def list_all_iff as_bytes_def list_all_length)
qed

lemma auth_padding_always:
  assumes "always_random fill"
  obtains padding r where "auth_padding fill c = (Inr padding, c\<lparr>qc_random := r\<rparr>)" "visible_ascii (as_bytes padding)"
    "AUTH_PADDING_MIN \<le> length padding" "length padding < AUTH_PADDING_MAX_EXCLUSIVE"
proof -
  obtain lb r where lb: "hs_fill fill 2 c = (Inr lb, c\<lparr>qc_random := r\<rparr>)" using assms by (rule hs_fill_always)
  let ?n = "AUTH_PADDING_MIN + unat (from_be_bytes lb :: u16) mod (AUTH_PADDING_MAX_EXCLUSIVE - AUTH_PADDING_MIN)"
  obtain bs r' where bs: "hs_fill fill ?n (c\<lparr>qc_random := r\<rparr>) = (Inr bs, c\<lparr>qc_random := r, qc_random := r'\<rparr>)" "length bs = ?n"
    using assms by (rule hs_fill_always)
  have "?n < AUTH_PADDING_MAX_EXCLUSIVE" by simp
  with lb bs show ?thesis
    by (intro that [of "map (\<lambda>b. PADDING_ALPHABET ! (unat b mod length PADDING_ALPHABET)) bs" r'])
      (simp_all add: auth_padding_def eff_bind_def eff_return_def visible_padding)
qed

lemma visible_digit: "d < 10 \<Longrightarrow> 32 \<le> byte_of_char (digit_char d) \<and> byte_of_char (digit_char d) < 127"
proof -
  assume d: "d < 10"
  have "byte_of_char (digit_char d) = word_of_nat (48 + d)" using d by (simp add: byte_of_char_def digit_char_def)
  moreover have "unat (word_of_nat (48 + d) :: u8) = 48 + d"
    unfolding unat_of_nat using d by simp
  ultimately show ?thesis using d by (simp only: word_le_nat_alt word_less_nat_alt) simp
qed

lemma visible_nat_string: "visible_ascii (as_bytes (nat_string n))"
proof (induction n rule: nat_string.induct)
  case (1 n)
  then show ?case
    using visible_digit [of n] visible_digit [of "n mod 10"]
    by (cases "n < 10") (simp_all add: nat_string.simps [of n] visible_ascii_def as_bytes_def)
qed

lemma visible_uint_string: "visible_ascii (as_bytes (uint_string w))"
  by (simp add: uint_string_def visible_nat_string)

lemma header_names_differ [simp]:
  "to_ascii_lowercase HEADER_AUTH \<noteq> to_ascii_lowercase HEADER_CC_RX"
  "to_ascii_lowercase HEADER_CC_RX \<noteq> to_ascii_lowercase HEADER_AUTH"
  "to_ascii_lowercase HEADER_AUTH \<noteq> to_ascii_lowercase HEADER_PADDING"
  "to_ascii_lowercase HEADER_CC_RX \<noteq> to_ascii_lowercase HEADER_PADDING"
  "to_ascii_lowercase HEADER_UDP_ENABLED \<noteq> to_ascii_lowercase HEADER_PADDING"
  "to_ascii_lowercase HEADER_UDP_ENABLED \<noteq> to_ascii_lowercase HEADER_CC_RX"
  "to_ascii_lowercase HEADER_CC_RX \<noteq> to_ascii_lowercase HEADER_UDP_ENABLED"
  by code_simp+

lemma insert_header_visible:
  "http_lib_ok lib \<Longrightarrow> visible_ascii (as_bytes v) \<Longrightarrow> insert_header lib name v h = Inr (hdr_insert name (as_bytes v) h)"
  by (simp add: insert_header_def http_lib_okD(1))

lemma hdr_str_insert:
  "http_lib_ok lib \<Longrightarrow> visible_ascii (as_bytes v) \<Longrightarrow> hdr_str lib (hdr_insert name (as_bytes v) h) n =
     (if to_ascii_lowercase n = to_ascii_lowercase name then Some v else hdr_str lib h n)"
  by (simp add: hdr_str_def http_lib_okD(3))

lemma client_request_form:
  assumes lib: "http_lib_ok lib" and fill: "always_random fill" and v: "visible_ascii (as_bytes (ch_auth ch))"
  obtains request r where "client_request lib fill ch c = (Inr request, c\<lparr>qc_random := r\<rparr>)" "is_auth request"
    "request_auth lib request = \<lparr>auth_secret = ch_auth ch, auth_rx = ch_max_rx ch\<rparr>"
proof -
  obtain padding r where p: "auth_padding fill c = (Inr padding, c\<lparr>qc_random := r\<rparr>)" "visible_ascii (as_bytes padding)"
    using fill by (rule auth_padding_always)
  show ?thesis
    using lib v p
    by (intro that [of "\<lparr>rq_method = ''POST'', rq_authority = Some AUTH_HOST, rq_path = AUTH_PATH,
          rq_headers = hdr_insert HEADER_PADDING (as_bytes padding) (hdr_insert HEADER_CC_RX (as_bytes (uint_string (ch_max_rx ch)))
            (hdr_insert HEADER_AUTH (as_bytes (ch_auth ch)) []))\<rparr>" r])
      (simp_all add: client_request_def eff_bind_def eff_lift_def eff_return_def insert_header_visible is_auth_def request_auth_def
        hdr_str_insert auth_request_from_header_values_def unwrap_or_def visible_uint_string)
qed

lemma response_values_form:
  obtains u x where "auth_response_header_values \<lparr>udp_enabled = b, rx_rate = w, rx_auto = a\<rparr> =
      [(HEADER_UDP_ENABLED, u), (HEADER_CC_RX, x)]"
    "visible_ascii (as_bytes u)" "visible_ascii (as_bytes x)"
    "auth_response_from_header_values (Some u) (Some x) =
       \<lparr>udp_enabled = b, rx_rate = (if a then 0 else w), rx_auto = a\<rparr>"
proof -
  have t: "visible_ascii (as_bytes ''true'')" "visible_ascii (as_bytes ''false'')" "visible_ascii (as_bytes ''auto'')" by code_simp+
  have g: "parse_go_bool ''true'' = Some True" "parse_go_bool ''false'' = Some False" by code_simp+
  define u where "u = (if b then ''true'' else ''false'')"
  define x where "x = (if a then ''auto'' else uint_string w)"
  have "parse_go_bool u = Some b" using g by (simp add: u_def)
  moreover have "(x = ''auto'') = a" by (simp add: x_def)
  moreover have "\<not> a \<Longrightarrow> parse_u64 x = Some w" by (simp add: x_def)
  ultimately have r: "auth_response_from_header_values (Some u) (Some x) =
       \<lparr>udp_enabled = b, rx_rate = (if a then 0 else w), rx_auto = a\<rparr>"
    by (simp add: auth_response_from_header_values_def unwrap_or_def Let_def)
  have vu: "visible_ascii (as_bytes u)" by (cases b) (simp_all only: u_def t if_True if_False)
  have vx: "visible_ascii (as_bytes x)" by (cases a) (simp_all only: x_def t if_True if_False visible_uint_string)
  have "auth_response_header_values \<lparr>udp_enabled = b, rx_rate = w, rx_auto = a\<rparr> = [(HEADER_UDP_ENABLED, u), (HEADER_CC_RX, x)]"
    by (simp only: auth_response_header_values_def auth_response.select_convs u_def x_def)
  then show ?thesis using vu vx r by (rule that)
qed

lemma server_response_form:
  assumes lib: "http_lib_ok lib" and fill: "always_random fill"
  obtains headers r where "server_response lib fill config c = (Inr [Head AUTH_STATUS_OK headers, Finish], c\<lparr>qc_random := r\<rparr>)"
    "auth_response_from_header_values (hdr_str lib headers HEADER_UDP_ENABLED) (hdr_str lib headers HEADER_CC_RX) =
       \<lparr>udp_enabled = sh_udp_enabled config, rx_rate = (if sh_rx_auto config then 0 else sh_max_rx config), rx_auto = sh_rx_auto config\<rparr>"
proof -
  obtain padding r where p: "auth_padding fill c = (Inr padding, c\<lparr>qc_random := r\<rparr>)" "visible_ascii (as_bytes padding)"
    using fill by (rule auth_padding_always)
  let ?known = "auth_response_header_values
      \<lparr>udp_enabled = sh_udp_enabled config, rx_rate = sh_max_rx config, rx_auto = sh_rx_auto config\<rparr>"
  obtain u x where vals: "?known = [(HEADER_UDP_ENABLED, u), (HEADER_CC_RX, x)]" "visible_ascii (as_bytes u)" "visible_ascii (as_bytes x)"
    "auth_response_from_header_values (Some u) (Some x) =
       \<lparr>udp_enabled = sh_udp_enabled config, rx_rate = (if sh_rx_auto config then 0 else sh_max_rx config), rx_auto = sh_rx_auto config\<rparr>"
    by (rule response_values_form)
  let ?h = "hdr_insert HEADER_CC_RX (as_bytes x) (hdr_insert HEADER_UDP_ENABLED (as_bytes u) [])"
  have h: "insert_headers lib ?known [] = Inr ?h"
    unfolding vals(1) by (simp add: insert_header_visible lib vals(2,3))
  have "server_response lib fill config c =
      (Inr [Head AUTH_STATUS_OK (hdr_insert HEADER_PADDING (as_bytes padding) ?h), Finish], c\<lparr>qc_random := r\<rparr>)"
    unfolding server_response_def h by (simp add: eff_bind_def eff_lift_def eff_return_def p insert_header_visible lib)
  moreover have hs: "hdr_str lib (hdr_insert HEADER_PADDING (as_bytes padding) ?h) HEADER_UDP_ENABLED = Some u"
    "hdr_str lib (hdr_insert HEADER_PADDING (as_bytes padding) ?h) HEADER_CC_RX = Some x"
    using lib p(2) vals(2,3) by (simp_all add: hdr_str_insert)
  ultimately show ?thesis using vals(4) [folded hs] by (intro that)
qed

text \<open>What the controller of a connection is set to by a rate from the exchange.\<close>

definition runs_at :: "u64 \<Rightarrow> ('r, 'f) quic_conn \<Rightarrow> ('r, 'f) quic_conn \<Rightarrow> bool" where
  "runs_at rate c c' \<longleftrightarrow>
     (if rate = 0 then qc_congestion c' = qc_congestion c
      else brutal_enabled (qc_congestion c') \<and> bc_bandwidth (ad_control (qc_congestion c')) = rate)"

lemma accept_authenticated_form:
  assumes "server_response lib fill config s = (Inr frames, s\<lparr>qc_random := r\<rparr>)"
  obtains s' where "accept_authenticated lib fill config auth_id request s =
      (Inr (frames, \<lparr>ac_auth_id = auth_id, ac_peer_rx = server_peer_rx config request, ac_udp_enabled = sh_udp_enabled config\<rparr>), s')"
    "runs_at (if sh_rx_auto config then 0 else server_peer_rx config request) s s'"
proof (cases "sh_rx_auto config \<or> server_peer_rx config request = 0")
  case True
  then show ?thesis using assms
    by (intro that [of "s\<lparr>qc_random := r\<rparr>"])
      (auto simp: accept_authenticated_def eff_bind_def eff_return_def Let_def runs_at_def word_gt_0)
next
  case False
  then show ?thesis using assms
    by (intro that [of "s\<lparr>qc_random := r, qc_congestion := (qc_congestion s)\<lparr>ad_control :=
          (ad_control (qc_congestion s))\<lparr>bc_bandwidth := server_peer_rx config request, bc_enabled := True\<rparr>\<rparr>\<rparr>"])
      (auto simp: accept_authenticated_def eff_bind_def eff_return_def Let_def runs_at_def word_gt_0 
        hs_set_bandwidth_def set_brutal_bandwidth_def)
qed

lemma client_response_form:
  assumes "auth_response_from_header_values (hdr_str lib headers HEADER_UDP_ENABLED) (hdr_str lib headers HEADER_CC_RX) = response"
  obtains c' where "client_response lib ch address (AUTH_STATUS_OK, headers) c =
      (Inr (\<lparr>ac_auth_id = [], ac_peer_rx = rx_rate response, ac_udp_enabled = udp_enabled response\<rparr>,
        \<lparr>hi_udp_enabled = udp_enabled response, hi_actual_tx = negotiated_tx ch response, hi_server_address = address,
         hi_rx_auto = rx_auto response\<rparr>), c')"
    "\<And>d. qc_congestion d = qc_congestion c \<Longrightarrow> runs_at (negotiated_tx ch response) d c'"
proof (cases "negotiated_tx ch response = 0")
  case True
  then show ?thesis using assms
    by (intro that [of c]) (auto simp: client_response_def eff_bind_def eff_return_def Let_def runs_at_def)
next
  case False
  then show ?thesis using assms
    by (intro that [of "c\<lparr>qc_congestion := (qc_congestion c)\<lparr>ad_control :=
          (ad_control (qc_congestion c))\<lparr>bc_bandwidth := negotiated_tx ch response, bc_enabled := True\<rparr>\<rparr>\<rparr>"])
      (auto simp: client_response_def eff_bind_def eff_return_def Let_def runs_at_def word_gt_0 
        hs_set_bandwidth_def set_brutal_bandwidth_def)
qed

text \<open>The HTTP/3 exchange when the peer is the server of this model and the request is the first one.\<close>

definition served_by ::
  "http_lib \<Rightarrow> 'r random_source \<Rightarrow> server_handshake \<Rightarrow> (socket_addr \<Rightarrow> auth_request \<Rightarrow> string option) \<Rightarrow> socket_addr \<Rightarrow>
     bytes \<Rightarrow> masquerade_handler \<Rightarrow> ('r, 'f) quic_conn \<Rightarrow> http_request \<Rightarrow> string + u16 \<times> header_map" where
  "served_by lib fill config authenticator remote date masquerade s request =
     (case authenticate_server_connection lib fill config authenticator remote date masquerade [Incoming request []] s of
        (_, (Head status headers # _) # _, _) \<Rightarrow> Inr (status, headers)
      | _ \<Rightarrow> Inl ''stream closed'')"

definition limit_rate :: "u64 \<Rightarrow> u64 \<Rightarrow> u64" where
  "limit_rate limit rate = (if limit = 0 then rate else min limit rate)"


definition masquerade_reply :: "bytes \<Rightarrow> masquerade_handler \<Rightarrow> incoming \<Rightarrow> h3_frame list" where
  "masquerade_reply date masquerade i =
     (case i of Incoming request body \<Rightarrow> fst (handle_masquerade_request date masquerade request body) | _ \<Rightarrow> [])"

definition not_accepted :: "http_lib \<Rightarrow> (auth_request \<Rightarrow> string option) \<Rightarrow> incoming \<Rightarrow> bool" where
  "not_accepted lib authenticator i =
     (case i of Incoming request _ \<Rightarrow> \<not> is_auth request \<or> authenticator (request_auth lib request) = None | _ \<Rightarrow> False)"

lemma serve_requests_gate:
  "serve_requests lib fill config authenticator date masquerade reqs c = (Inr res, sent, c') \<Longrightarrow>
   case res of
     Some conn \<Rightarrow>
       \<exists>pre request body rest frames.
         reqs = pre @ Incoming request body # rest \<and> is_auth request \<and>
         authenticator (request_auth lib request) = Some (ac_auth_id conn) \<and>
         list_all (not_accepted lib authenticator) pre \<and>
         sent = map (masquerade_reply date masquerade) pre @ [frames]
   | None \<Rightarrow> c' = c \<and> list_all (not_accepted lib authenticator) reqs \<and> sent = map (masquerade_reply date masquerade) reqs"
proof (induction lib fill config authenticator date masquerade reqs c arbitrary: res sent rule: serve_requests.induct)
  case (4 lib fill config authenticator date masquerade request body rest c)
  let ?auth = "if is_auth request then authenticator (request_auth lib request) else None"
  show ?case
  proof (cases ?auth)
    case (Some auth_id)
    then have a: "is_auth request" "authenticator (request_auth lib request) = Some auth_id" by (simp_all split: if_splits)
    obtain frames conn where "res = Some conn" "sent = [frames]" "ac_auth_id conn = auth_id"
      using 4(2) a
      by (auto simp: accept_authenticated_def eff_bind_def eff_return_def Let_def split: sum.splits prod.splits if_splits)
    with a show ?thesis by (auto intro!: exI [of _ "[]"])
  next
    case None
    then have a: "not_accepted lib authenticator (Incoming request body)" by (auto simp: not_accepted_def split: if_splits)
    obtain frames err where m: "handle_masquerade_request date masquerade request body = (frames, err)" by fastforce
    obtain s1 where s: "err = None" "sent = frames # s1"
        "serve_requests lib fill config authenticator date masquerade rest c = (Inr res, s1, c')"
      using 4(2) None m by (auto split: option.splits prod.splits)
    have r: "masquerade_reply date masquerade (Incoming request body) = frames" by (simp add: masquerade_reply_def m)
    note IH = 4(1) [OF None m [symmetric] s(1,3)]
    show ?thesis
    proof (cases res)
      case (Some conn)
      then obtain pre rq b post fs where "rest = pre @ Incoming rq b # post" "is_auth rq"
        "authenticator (request_auth lib rq) = Some (ac_auth_id conn)" "list_all (not_accepted lib authenticator) pre"
        "s1 = map (masquerade_reply date masquerade) pre @ [fs]"
        using IH by auto
      then show ?thesis
        unfolding Some option.case using a r s(2)
        by - (rule exI [of _ "Incoming request body # pre"], rule exI [of _ rq], rule exI [of _ b], rule exI [of _ post],
          rule exI [of _ fs], simp)
    qed (use IH a r s(2) in auto)
  qed
qed auto

text \<open>
  C16: A server hands out a connection only for a request to the authentication endpoint whose credentials
  the authenticator accepted, under the name that the authenticator gave. Every request before it was
  answered with exactly what the masquerade answers. A connection that ends without such a request got
  nothing but the masquerade's answers and left the controller and the random source untouched: to a peer
  without credentials the server is the masquerade.
\<close>

theorem server_auth_gate:
  "serve_requests lib fill config authenticator date masquerade reqs c = (Inr res, sent, c') \<Longrightarrow>
   case res of
     Some conn \<Rightarrow>
       \<exists>pre request body rest frames.
         reqs = pre @ Incoming request body # rest \<and> is_auth request \<and>
         authenticator (request_auth lib request) = Some (ac_auth_id conn) \<and>
         list_all (not_accepted lib authenticator) pre \<and>
         sent = map (masquerade_reply date masquerade) pre @ [frames]
   | None \<Rightarrow> c' = c \<and> list_all (not_accepted lib authenticator) reqs \<and> sent = map (masquerade_reply date masquerade) reqs"
  by (rule serve_requests_gate)

text \<open>
  C39: A secret with a character outside visible ASCII never reaches the authenticator: when the client can
  send it at all, the server reads an empty secret from the request.
\<close>

theorem non_ascii_secret_lost:
  assumes "http_lib_ok lib" and "\<not> visible_ascii (as_bytes (ch_auth ch))"
    and "client_request lib fill ch c = (Inr request, c')"
  shows "auth_secret (request_auth lib request) = []"
proof -
  obtain h1 h2 padding c1 where h: "insert_header lib HEADER_AUTH (ch_auth ch) [] = Inr h1"
      "insert_header lib HEADER_CC_RX (uint_string (ch_max_rx ch)) h1 = Inr h2"
      "insert_header lib HEADER_PADDING padding h2 = Inr (rq_headers request)"
    using assms(3) by (auto simp: client_request_def eff_iffs)
  have g: "hdr_get h1 HEADER_AUTH = Some (as_bytes (ch_auth ch))"
    using h(1) http_lib_okD(2) [OF assms(1)] by (auto simp: insert_header_def split: option.splits)
  obtain v w where e: "hdr_insert HEADER_PADDING v (hdr_insert HEADER_CC_RX w h1) = rq_headers request"
    using h(2,3) by (auto simp: insert_header_def split: option.splits)
  have "hdr_get (hdr_insert HEADER_PADDING v (hdr_insert HEADER_CC_RX w h1)) HEADER_AUTH = Some (as_bytes (ch_auth ch))"
    using g by simp
  note this [unfolded e]
  then show ?thesis
    using assms(2) by (simp add: request_auth_def auth_request_from_header_values_def hdr_str_def http_lib_okD(3) [OF assms(1)] unwrap_or_def)
qed

definition sample_conn :: "(unit, unit) quic_conn" where
  "sample_conn = \<lparr>qc_random = (), qc_congestion = adaptive_build (\<lambda>_ _ _. ()) (\<lambda>_ _. ()) congestion_settings_default 0 1200,
     qc_close = None, qc_alps = None\<rparr>"

definition lax_http_lib :: http_lib where
  "lax_http_lib = plain_http_lib\<lparr>hv_from_str := (\<lambda>s. Some (as_bytes s))\<rparr>"

lemma lax_http_lib_ok: "http_lib_ok lax_http_lib"
  by (simp add: http_lib_ok_def lax_http_lib_def plain_http_lib_def)

definition sample_secret :: client_handshake where
  "sample_secret = \<lparr>ch_auth = [CHR 0xC3, CHR 0xA9], ch_max_rx = 0, ch_max_tx = 0\<rparr>"

theorem non_ascii_secret_lost_witness:
  "\<exists>request c'. client_request lax_http_lib zero_random sample_secret sample_conn = (Inr request, c') \<and>
     auth_secret (request_auth lax_http_lib request) = []"
proof -
  have n: "\<not> visible_ascii (as_bytes (ch_auth sample_secret))" by code_simp
  obtain padding r where "auth_padding zero_random sample_conn = (Inr padding, sample_conn\<lparr>qc_random := r\<rparr>)"
    by (rule auth_padding_always [OF always_random_zero])
  then have "\<exists>request c'. client_request lax_http_lib zero_random sample_secret sample_conn = (Inr request, c')"
    by (simp add: client_request_def eff_bind_def eff_lift_def eff_return_def insert_header_def lax_http_lib_def)
  with non_ascii_secret_lost [OF lax_http_lib_ok n] show ?thesis by blast
qed

section \<open>The masquerade's answers\<close>

definition payload :: "h3_frame list \<Rightarrow> bytes" where
  "payload frames = concat (map (\<lambda>f. case f of Data bs \<Rightarrow> bs | _ \<Rightarrow> []) frames)"

lemma send_pieces_collect:
  "send_pieces pieces = (frames, None) \<Longrightarrow> collect_chunks body pieces = Inr (body @ payload frames)"
  by (induction body pieces arbitrary: frames rule: collect_chunks.induct)
    (auto simp: payload_def split: prod.splits)

text \<open>
  An answer that is sent completely starts with its head and ends the stream. Its data is exactly the
  body that collecting the response gives, and none at all for a HEAD request and for statuses that have
  no body. A length that the server adds itself is the length of that data.
\<close>

lemma masquerade_framing:
  assumes "send_masquerade_response date response suppress = (frames, None)"
  shows "\<exists>headers middle. frames = Head (mr_status response) headers # middle @ [Finish] \<and>
    payload frames = (if body_allowed response suppress then
        (case fst (collect_body response) of Inr body \<Rightarrow> body | Inl _ \<Rightarrow> []) else []) \<and>
    (body_allowed response suppress \<and> mr_body_stream response = None \<and>
       hdr_get (mr_headers response) ''content-length'' = None \<longrightarrow>
     hdr_get headers ''content-length'' = Some (as_bytes (nat_string (length (payload frames)))))"
proof (cases "body_allowed response suppress")
  case False
  then show ?thesis using assms by (auto simp: send_masquerade_response_def payload_def Let_def)
next
  case True
  have names: "to_ascii_lowercase ''content-length'' \<noteq> to_ascii_lowercase ''date''" by code_simp
  obtain fs where fs: "send_pieces (unwrap_or [] (mr_body_stream response)) = (fs, None)"
    and frames: "frames = Head (mr_status response) (masquerade_headers date response suppress)
      # (if mr_body response \<noteq> [] then [Data (mr_body response)] else []) @ fs @ [Finish]"
    using assms True by (auto simp: send_masquerade_response_def Let_def split: prod.splits if_splits)
  have p: "payload frames = mr_body response @ payload fs" by (simp add: frames payload_def)
  have c: "collect_chunks (mr_body response) (unwrap_or [] (mr_body_stream response)) = Inr (mr_body response @ payload fs)"
    using fs by (rule send_pieces_collect)
  have "payload frames = (case fst (collect_body response) of Inr body \<Rightarrow> body | Inl _ \<Rightarrow> [])"
    using c by (cases "mr_body_stream response") (auto simp: collect_body_def p unwrap_or_def)
  moreover have "hdr_get (masquerade_headers date response suppress) ''content-length'' = Some (as_bytes (nat_string (length (payload frames))))"
    if "mr_body_stream response = None" "hdr_get (mr_headers response) ''content-length'' = None"
  proof -
    have "payload fs = []" using fs that by (auto simp: unwrap_or_def payload_def)
    then show ?thesis using that True names by (simp add: masquerade_headers_def Let_def p)
  qed
  ultimately show ?thesis using True frames by auto
qed

theorem server_auth_gate_witness:
  "list_all (not_accepted plain_http_lib (\<lambda>_. None))
     [Incoming \<lparr>rq_method = ''GET'', rq_authority = None, rq_path = ''/'', rq_headers = []\<rparr> []]"
proof -
  let ?i = "Incoming \<lparr>rq_method = ''GET'', rq_authority = None, rq_path = ''/'', rq_headers = []\<rparr> []"
  have b: "mr_body_stream not_found_response = None" by (simp add: not_found_response_def)
  obtain frames where m: "handle_masquerade_request [] (\<lambda>_ _. not_found_response)
      \<lparr>rq_method = ''GET'', rq_authority = None, rq_path = ''/'', rq_headers = []\<rparr> [] = (frames, None)"
    by (cases "body_allowed not_found_response False")
      (simp_all add: handle_masquerade_request_def send_masquerade_response_def Let_def unwrap_or_def b)
  have "serve_requests plain_http_lib zero_random server_handshake_default (\<lambda>_. None) [] (\<lambda>_ _. not_found_response)
      [?i] sample_conn = (Inr None, [frames], sample_conn)"
    by (simp add: is_auth_def m)
  from server_auth_gate [OF this] show ?thesis by (simp only: option.case)
qed

definition sample_handshake :: client_handshake where
  "sample_handshake = \<lparr>ch_auth = ''pw'', ch_max_rx = 700, ch_max_tx = 500\<rparr>"

definition sample_address :: socket_addr where
  "sample_address = SocketAddr (V4 1) 443"

definition sample_authenticator :: "socket_addr \<Rightarrow> auth_request \<Rightarrow> string option" where
  "sample_authenticator remote request = (if auth_secret request = ''pw'' then Some ''user'' else None)"


end
