(* ===== verification/Obfs_Socket.thy ===== *)
theory Obfs_Socket
  imports Gecko_Delivery Stun Punch Transport_Error
begin

text \<open>
  The UDP sockets below QUIC (\<open>hysteria-transport/src/obfs_socket.rs\<close>): the packet codecs, the bounded
  send queue with its worker and wake-ups, receiving through a codec, the socket that shares one port
  between QUIC, STUN answers and punch packets, and the client socket that hops between ports. The
  operating system's sockets are the arrivals and the outcomes of sends; hash functions are parameters.
\<close>

section \<open>Codecs\<close>

datatype obfuscation_config = ObfsSalamander bytes | ObfsGecko bytes usize usize

datatype wire_codec = CodecSalamander salamander | CodecGecko gecko

fun salamander_error_display :: "salamander_error \<Rightarrow> string" where
  "salamander_error_display PasswordTooShort = ''password must be at least 4 bytes''"
| "salamander_error_display PacketTooShort = ''packet must contain an 8-byte salt and a payload''"

fun gecko_error_display :: "gecko_error \<Rightarrow> string" where
  "gecko_error_display MissingPassword = ''gecko password is required''"
| "gecko_error_display InvalidPacketSizeRange = ''invalid Gecko minimum/maximum packet size''"
| "gecko_error_display (InvalidFragmentCount n) = ''invalid Gecko fragment count '' @ uint_string n"
| "gecko_error_display (InvalidChunkIndex i n) =
     ''Gecko chunk index '' @ uint_string i @ '' is outside fragment count '' @ uint_string n"
| "gecko_error_display TruncatedFrame = ''truncated Gecko frame''"
| "gecko_error_display RandomSource = ''operating-system random source failed''"
| "gecko_error_display (SalamanderFailed e) = ''Salamander error: '' @ salamander_error_display e"

fun wire_codec_new :: "obfuscation_config \<Rightarrow> transport_error + wire_codec" where
  "wire_codec_new (ObfsSalamander pw) =
     map_err (\<lambda>e. Configuration (salamander_error_display e)) (and_then (salamander_new pw) (\<lambda>s. Inr (CodecSalamander s)))"
| "wire_codec_new (ObfsGecko pw min_size max_size) =
     map_err (\<lambda>e. Configuration (gecko_error_display e))
       (and_then (gecko_new pw \<lparr>min_packet_size = min_size, max_packet_size = max_size\<rparr>) (\<lambda>g. Inr (CodecGecko g)))"

datatype io_kind = WouldBlock | InvalidData | OtherKind | OsKind string

type_synonym io_error = "io_kind \<times> string"

fun wire_encode ::
  "(nat \<Rightarrow> bytes \<Rightarrow> bytes) \<Rightarrow> 'r random_source \<Rightarrow> wire_codec \<Rightarrow> bytes \<Rightarrow> 'r \<Rightarrow> (io_error + bytes list) \<times> wire_codec \<times> 'r" where
  "wire_encode blake fill (CodecSalamander s) packet r =
     (case fill r SALT_LENGTH of
        (None, r') \<Rightarrow> (Inl (OtherKind, ''random source failed''), CodecSalamander s, r')
      | (Some salt, r') \<Rightarrow> (Inr [obfuscate blake s packet salt], CodecSalamander s, r'))"
| "wire_encode blake fill (CodecGecko g) packet r =
     (case encode_packet blake fill g packet r of
        (res, g', r') \<Rightarrow> (map_err (\<lambda>e. (InvalidData, gecko_error_display e)) res, CodecGecko g', r'))"

fun wire_decode ::
  "(nat \<Rightarrow> bytes \<Rightarrow> bytes) \<Rightarrow> wire_codec \<Rightarrow> socket_addr \<Rightarrow> bytes \<Rightarrow> nat \<Rightarrow> wire_codec \<times> bytes option" where
  "wire_decode blake (CodecSalamander s) source packet now = (CodecSalamander s, ok (deobfuscate blake s packet))"
| "wire_decode blake (CodecGecko g) source packet now =
     (case receive_packet blake g (socket_addr_display source) packet now of
        (g', res) \<Rightarrow> (CodecGecko g', case res of Inr (Some p) \<Rightarrow> Some p | _ \<Rightarrow> None))"

section \<open>Sending\<close>

abbreviation (input) SEND_QUEUE_CAPACITY :: usize where "SEND_QUEUE_CAPACITY \<equiv> 1024"

record outgoing_datagrams =
  od_destination :: socket_addr
  od_packets :: "bytes list"

text \<open>Wakers are numbers: two wakers wake the same task if they are the same number.\<close>

record send_state =
  sn_queue :: "outgoing_datagrams list"
  sn_waiters :: "nat list"
  sn_error :: "io_error option"

record transmit =
  tr_destination :: socket_addr
  tr_contents :: bytes
  tr_segment_size :: "usize option"

record 'r udp_socket =
  so_send :: send_state
  so_codec :: "wire_codec option"
  so_random :: 'r

text \<open>Cutting into segments of size zero is a panic of the slice library.\<close>

definition segments :: "transmit \<Rightarrow> 'e fault + bytes list" where
  "segments t =
     (case tr_segment_size t of
        None \<Rightarrow> Inr [tr_contents t]
      | Some n \<Rightarrow> if n = 0 then Inl Panic else Inr (chunks n (tr_contents t)))"

fun encode_segments ::
  "(nat \<Rightarrow> bytes \<Rightarrow> bytes) \<Rightarrow> 'r random_source \<Rightarrow> bytes list \<Rightarrow> wire_codec option \<Rightarrow> 'r \<Rightarrow>
     (io_error + bytes list) \<times> wire_codec option \<times> 'r" where
  "encode_segments blake fill [] codec r = (Inr [], codec, r)"
| "encode_segments blake fill (p # ps) None r =
     (case encode_segments blake fill ps None r of (res, codec, r) \<Rightarrow> (and_then res (\<lambda>ws. Inr (p # ws)), codec, r))"
| "encode_segments blake fill (p # ps) (Some c) r =
     (case wire_encode blake fill c p r of
        (Inl e, c, r) \<Rightarrow> (Inl e, Some c, r)
      | (Inr ws, c, r) \<Rightarrow>
          (case encode_segments blake fill ps (Some c) r of
             (res, codec, r) \<Rightarrow> (and_then res (\<lambda>vs. Inr (ws @ vs)), codec, r)))"

text \<open>Sending to a given destination: the three sockets differ only in the destination and the codec.\<close>

definition queue_transmit ::
  "(nat \<Rightarrow> bytes \<Rightarrow> bytes) \<Rightarrow> 'r random_source \<Rightarrow> socket_addr \<Rightarrow> transmit \<Rightarrow> 'r udp_socket \<Rightarrow>
     (io_error fault + unit) \<times> 'r udp_socket" where
  "queue_transmit blake fill destination t s =
     (let st = so_send s in
      case sn_error st of
        Some e \<Rightarrow> (Inl (Err e), s\<lparr>so_send := st\<lparr>sn_error := None\<rparr>\<rparr>)
      | None \<Rightarrow>
          if SEND_QUEUE_CAPACITY \<le> length (sn_queue st) then (Inl (Err (WouldBlock, ''operation would block'')), s)
          else
            (case segments t of
               Inl e \<Rightarrow> (Inl e, s)
             | Inr ps \<Rightarrow>
                 (case encode_segments blake fill ps (so_codec s) (so_random s) of
                    (Inl e, codec, r) \<Rightarrow> (Inl (Err e), s\<lparr>so_codec := codec, so_random := r\<rparr>)
                  | (Inr packets, codec, r) \<Rightarrow>
                      (Inr (), s\<lparr>so_codec := codec, so_random := r,
                        so_send := st\<lparr>sn_queue := sn_queue st @ [\<lparr>od_destination = destination, od_packets = packets\<rparr>]\<rparr>\<rparr>))))"

definition try_send where
  "try_send blake fill t s = queue_transmit blake fill (tr_destination t) t s"

definition hopping_try_send where
  "hopping_try_send blake fill logical_remote t s = queue_transmit blake fill logical_remote t s"

text \<open>Polling for room in the queue: an answer, or \<open>None\<close> after registering the waker.\<close>

definition poll_writable :: "nat \<Rightarrow> send_state \<Rightarrow> (io_error + unit) option \<times> send_state" where
  "poll_writable waker st =
     (case sn_error st of
        Some e \<Rightarrow> (Some (Inl e), st\<lparr>sn_error := None\<rparr>)
      | None \<Rightarrow>
          if length (sn_queue st) < SEND_QUEUE_CAPACITY then (Some (Inr ()), st)
          else (None, if waker \<in> set (sn_waiters st) then st else st\<lparr>sn_waiters := sn_waiters st @ [waker]\<rparr>))"

text \<open>
  The worker takes the next datagrams off the queue and wakes the tasks that wait for room; an error of
  a send is kept for the next caller, and wakes the waiting tasks too. Both give the tasks they wake.
\<close>

definition worker_pop :: "send_state \<Rightarrow> outgoing_datagrams option \<times> nat list \<times> send_state" where
  "worker_pop st =
     (case sn_queue st of
        [] \<Rightarrow> (None, [], st)
      | out # rest \<Rightarrow> (Some out, sn_waiters st, st\<lparr>sn_queue := rest, sn_waiters := []\<rparr>))"

abbreviation (input) worker_fail :: "io_error \<Rightarrow> send_state \<Rightarrow> nat list \<times> send_state" where
  "worker_fail e st \<equiv> (sn_waiters st, st\<lparr>sn_error := Some e, sn_waiters := []\<rparr>)"

fun send_packets :: "socket_addr \<Rightarrow> bytes list \<Rightarrow> (bytes \<Rightarrow> io_error option) \<Rightarrow> (socket_addr \<times> bytes) list \<times> io_error option" where
  "send_packets destination [] send_to = ([], None)"
| "send_packets destination (p # ps) send_to =
     (case send_to p of
        Some e \<Rightarrow> ([], Some e)
      | None \<Rightarrow> (case send_packets destination ps send_to of (sent, e) \<Rightarrow> ((destination, p) # sent, e)))"

text \<open>One turn of the worker without anything in between.\<close>

definition send_worker ::
  "(bytes \<Rightarrow> io_error option) \<Rightarrow> send_state \<Rightarrow> (socket_addr \<times> bytes) list \<times> nat list \<times> send_state" where
  "send_worker send_to st =
     (case worker_pop st of
        (None, woken, st) \<Rightarrow> ([], woken, st)
      | (Some out, woken, st) \<Rightarrow>
          (case send_packets (od_destination out) (od_packets out) send_to of
             (sent, None) \<Rightarrow> (sent, woken, st)
           | (sent, Some e) \<Rightarrow> (case worker_fail e st of (more_woken, st) \<Rightarrow> (sent, woken @ more_woken, st))))"

subsection \<open>The life of the worker\<close>

text \<open>
  The worker sleeps on a \<open>Notify\<close> of the runtime library, whose operations are parameters: \<open>notify_one\<close>,
  \<open>notify_waiters\<close>, the creation of the future \<open>notified()\<close> and its completion. \<open>nl_ready\<close> says that the future of
  the only waiter, created or still to be created, completes at once, and \<open>nl_waiting\<close> that it has been created.
\<close>

record 'n notify_lib =
  nl_new :: 'n
  nl_one :: "'n \<Rightarrow> 'n"
  nl_all :: "'n \<Rightarrow> 'n"
  nl_notified :: "'n \<Rightarrow> 'n"
  nl_complete :: "'n \<Rightarrow> 'n"
  nl_ready :: "'n \<Rightarrow> bool"
  nl_waiting :: "'n \<Rightarrow> bool"

text \<open>
  The documented behaviour: a new \<open>Notify\<close> holds no permit; \<open>notify_one\<close> wakes the waiter or stores a permit for
  the next one; \<open>notify_waiters\<close> wakes those that wait and stores nothing; creating the future takes nothing away.
\<close>

definition notify_ok :: "'n notify_lib \<Rightarrow> bool" where
  "notify_ok L \<longleftrightarrow>
     \<not> nl_ready L (nl_new L) \<and> \<not> nl_waiting L (nl_new L) \<and>
     (\<forall>n. nl_ready L (nl_one L n)) \<and>
     (\<forall>n. nl_ready L n \<longrightarrow> nl_ready L (nl_all L n)) \<and>
     (\<forall>n. \<not> nl_waiting L n \<longrightarrow> nl_ready L (nl_all L n) = nl_ready L n) \<and>
     (\<forall>n. nl_ready L (nl_notified L n) = nl_ready L n)"

text \<open>
  Where the worker is, and the state it shares with the socket. \<open>sh_owed\<close> counts the calls of \<open>try_send\<close> that
  have queued their datagrams and not yet called \<open>notify_one\<close>; \<open>sh_dropping\<close> is a \<open>drop\<close> that has stored the flag
  and not yet notified.
\<close>

datatype worker_pc = CheckClosed | PopQueue | CreateNotified | AwaitNotified | Sending outgoing_datagrams | Stopped

record 'n shared_send =
  sh_state :: send_state
  sh_queued :: 'n
  sh_closed :: bool
  sh_pc :: worker_pc
  sh_owed :: nat
  sh_dropping :: bool

definition shared_send_new :: "'n notify_lib \<Rightarrow> 'n shared_send" where
  "shared_send_new L =
     \<lparr>sh_state = \<lparr>sn_queue = [], sn_waiters = [], sn_error = None\<rparr>, sh_queued = nl_new L, sh_closed = False,
      sh_pc = CheckClosed, sh_owed = 0, sh_dropping = False\<rparr>"

text \<open>One step of the worker; \<open>failed\<close> is the error of its sends, when it is sending.\<close>

definition worker_turn :: "'n notify_lib \<Rightarrow> io_error option \<Rightarrow> 'n shared_send \<Rightarrow> 'n shared_send" where
  "worker_turn L failed s =
     (case sh_pc s of
        CheckClosed \<Rightarrow> s\<lparr>sh_pc := if sh_closed s then Stopped else PopQueue\<rparr>
      | PopQueue \<Rightarrow>
          (case worker_pop (sh_state s) of
             (None, _, st) \<Rightarrow> s\<lparr>sh_state := st, sh_pc := CreateNotified\<rparr>
           | (Some out, _, st) \<Rightarrow> s\<lparr>sh_state := st, sh_pc := Sending out\<rparr>)
      | CreateNotified \<Rightarrow> s\<lparr>sh_queued := nl_notified L (sh_queued s), sh_pc := AwaitNotified\<rparr>
      | AwaitNotified \<Rightarrow>
          if nl_ready L (sh_queued s) then s\<lparr>sh_queued := nl_complete L (sh_queued s), sh_pc := CheckClosed\<rparr> else s
      | Sending out \<Rightarrow>
          (case failed of
             None \<Rightarrow> s\<lparr>sh_pc := CheckClosed\<rparr>
           | Some e \<Rightarrow> s\<lparr>sh_state := snd (worker_fail e (sh_state s)), sh_pc := CheckClosed\<rparr>)
      | Stopped \<Rightarrow> s)"

datatype send_event =
    WorkerTurn "io_error option"
  | Enqueue outgoing_datagrams
  | NotifyQueued
  | TakeError
  | PollWritable nat
  | DropSocket
  | NotifyDropped

text \<open>
  The events of the socket and the worker in any order. The parameter \<open>on_drop\<close> is what \<open>drop\<close> calls on the
  \<open>Notify\<close>: \<open>notify_one\<close> for two of the sockets, \<open>notify_waiters\<close> for the hopping one. A dropped socket queues no more.
\<close>

fun send_step :: "'n notify_lib \<Rightarrow> ('n \<Rightarrow> 'n) \<Rightarrow> 'n shared_send \<Rightarrow> send_event \<Rightarrow> 'n shared_send" where
  "send_step L on_drop s (WorkerTurn failed) = worker_turn L failed s"
| "send_step L on_drop s (Enqueue out) =
     (if sh_closed s \<or> sn_error (sh_state s) \<noteq> None \<or> SEND_QUEUE_CAPACITY \<le> length (sn_queue (sh_state s)) then s
      else s\<lparr>sh_state := (sh_state s)\<lparr>sn_queue := sn_queue (sh_state s) @ [out]\<rparr>, sh_owed := sh_owed s + 1\<rparr>)"
| "send_step L on_drop s NotifyQueued =
     (if sh_owed s = 0 then s else s\<lparr>sh_queued := nl_one L (sh_queued s), sh_owed := sh_owed s - 1\<rparr>)"
| "send_step L on_drop s TakeError = s\<lparr>sh_state := (sh_state s)\<lparr>sn_error := None\<rparr>\<rparr>"
| "send_step L on_drop s (PollWritable waker) = s\<lparr>sh_state := snd (poll_writable waker (sh_state s))\<rparr>"
| "send_step L on_drop s DropSocket = (if sh_closed s then s else s\<lparr>sh_closed := True, sh_dropping := True\<rparr>)"
| "send_step L on_drop s NotifyDropped =
     (if sh_dropping s then s\<lparr>sh_queued := on_drop (sh_queued s), sh_dropping := False\<rparr> else s)"

definition send_run :: "'n notify_lib \<Rightarrow> ('n \<Rightarrow> 'n) \<Rightarrow> send_event list \<Rightarrow> 'n shared_send" where
  "send_run L on_drop es = foldl (send_step L on_drop) (shared_send_new L) es"

section \<open>Receiving\<close>

text \<open>What the operating system's socket holds for the receiver; nothing more means that the call is pending.\<close>

datatype arrival = Arrived socket_addr bytes nat | SocketFailed string

datatype received = Received socket_addr bytes | ReceivedNone | ReceiveFailed string | ReceivePending

definition decode_with :: "(nat \<Rightarrow> bytes \<Rightarrow> bytes) \<Rightarrow> wire_codec option \<Rightarrow> socket_addr \<Rightarrow> bytes \<Rightarrow> nat \<Rightarrow> wire_codec option \<times> bytes option" where
  "decode_with blake codec source wire now =
     (case codec of
        None \<Rightarrow> (None, Some wire)
      | Some c \<Rightarrow> (case wire_decode blake c source wire now of (c, p) \<Rightarrow> (Some c, p)))"

text \<open>\<open>peer\<close> is the address that a datagram counts for, and \<open>buffer\<close> the size of the caller's buffer.\<close>

fun recv_loop ::
  "(nat \<Rightarrow> bytes \<Rightarrow> bytes) \<Rightarrow> (socket_addr \<Rightarrow> socket_addr) \<Rightarrow> nat \<Rightarrow> arrival list \<Rightarrow> wire_codec option \<Rightarrow>
     received \<times> wire_codec option \<times> arrival list" where
  "recv_loop blake peer buffer [] codec = (ReceivePending, codec, [])"
| "recv_loop blake peer buffer (SocketFailed e # rest) codec = (ReceiveFailed e, codec, rest)"
| "recv_loop blake peer buffer (Arrived source wire now # rest) codec =
     (case decode_with blake codec (peer source) wire now of
        (codec, None) \<Rightarrow> recv_loop blake peer buffer rest codec
      | (codec, Some packet) \<Rightarrow> (Received (peer source) (take buffer packet), codec, rest))"

text \<open>\<open>buffers\<close> are the sizes of the caller's buffers and \<open>slots\<close> the number of its metadata entries.\<close>

definition obfuscated_poll_recv ::
  "(nat \<Rightarrow> bytes \<Rightarrow> bytes) \<Rightarrow> nat list \<Rightarrow> nat \<Rightarrow> arrival list \<Rightarrow> wire_codec option \<Rightarrow>
     received \<times> wire_codec option \<times> arrival list" where
  "obfuscated_poll_recv blake buffers slots arrivals codec =
     (if buffers = [] \<or> slots = 0 then (ReceivedNone, codec, arrivals)
      else recv_loop blake id (hd buffers) arrivals codec)"

section \<open>Port hopping\<close>

definition hop_settings_check :: "socket_addr list \<Rightarrow> nat \<Rightarrow> nat \<Rightarrow> transport_error + unit" where
  "hop_settings_check remotes min_interval max_interval =
     (if remotes = [] then Inl (Configuration ''UDP port hopping requires at least one remote address'')
      else if min_interval < 5 * 1000000000 \<or> min_interval > max_interval
      then Inl (Configuration ''UDP hop interval must be at least 5 seconds and not exceed its maximum'')
      else Inr ())"

record 'k hop_state =
  hs_current :: 'k
  hs_previous :: "'k option"
  hs_remote_index :: usize

text \<open>\<open>ne\<close> reads eight bytes in the byte order of the machine.\<close>

definition random_index ::
  "'r random_source \<Rightarrow> (bytes \<Rightarrow> u64) \<Rightarrow> usize \<Rightarrow> 'r \<Rightarrow> (unit fault + usize) \<times> 'r" where
  "random_index fill ne n r =
     (case fill r 8 of
        (None, r) \<Rightarrow> (Inr 0, r)
      | (Some bs, r) \<Rightarrow> (if n = 0 then Inl Panic else Inr (unat (ne bs) mod n), r))"

definition random_duration :: "'r random_source \<Rightarrow> (bytes \<Rightarrow> u64) \<Rightarrow> nat \<Rightarrow> nat \<Rightarrow> 'r \<Rightarrow> nat \<times> 'r" where
  "random_duration fill ne minimum maximum r =
     (let span = maximum - minimum in
      if span = 0 then (minimum, r)
      else
        (let nanos = (if span < 2 ^ 64 then word_of_nat span else - 1) :: u64 in
         case fill r 8 of
           (None, r) \<Rightarrow> (minimum, r)
         | (Some bs, r) \<Rightarrow> (minimum + unat (ne bs) mod (min (unat nanos + 1) (2 ^ 64 - 1)), r)))"

definition hop_new ::
  "'r random_source \<Rightarrow> (bytes \<Rightarrow> u64) \<Rightarrow> socket_addr list \<Rightarrow> 'k \<Rightarrow> 'r \<Rightarrow> (unit fault + 'k hop_state) \<times> 'r" where
  "hop_new fill ne remotes socket r =
     (case random_index fill ne (length remotes) r of
        (i, r) \<Rightarrow> (and_then i (\<lambda>i. Inr \<lparr>hs_current = socket, hs_previous = None, hs_remote_index = i\<rparr>), r))"

text \<open>
  One turn of the hop worker after its sleep: it ends with the socket, keeps the state when no new socket
  could be made, and moves on otherwise. \<open>None\<close> is the end of the worker.
\<close>

definition hop_worker ::
  "'r random_source \<Rightarrow> (bytes \<Rightarrow> u64) \<Rightarrow> socket_addr list \<Rightarrow> bool \<Rightarrow> 'k option \<Rightarrow> 'k hop_state \<Rightarrow> 'r \<Rightarrow>
     (unit fault + 'k hop_state) option \<times> 'r" where
  "hop_worker fill ne remotes closed new_socket h r =
     (if closed then (None, r)
      else
        (case new_socket of
           None \<Rightarrow> (Some (Inr h), r)
         | Some socket \<Rightarrow>
             (case random_index fill ne (length remotes) r of
                (i, r) \<Rightarrow> (Some (and_then i (\<lambda>i.
                  Inr (h\<lparr>hs_previous := Some (hs_current h), hs_current := socket, hs_remote_index := i\<rparr>))), r))))"

text \<open>What the hopping worker sends with: the current socket and the current one of the remote addresses.\<close>

definition hopping_send_worker ::
  "(bytes \<Rightarrow> io_error option) \<Rightarrow> socket_addr list \<Rightarrow> 'k hop_state \<Rightarrow> send_state \<Rightarrow>
     unit fault + (('k \<times> socket_addr \<times> bytes) list \<times> nat list \<times> send_state)" where
  "hopping_send_worker send_to remotes h st =
     (case worker_pop st of
        (None, woken, st) \<Rightarrow> Inr ([], woken, st)
      | (Some out, woken, st) \<Rightarrow>
          and_then (index_at remotes (hs_remote_index h)) (\<lambda>remote.
          (case send_packets remote (od_packets out) send_to of
             (sent, None) \<Rightarrow> Inr (map (Pair (hs_current h)) sent, woken, st)
           | (sent, Some e) \<Rightarrow>
               (case worker_fail e st of
                  (more_woken, st) \<Rightarrow> Inr (map (Pair (hs_current h)) sent, woken @ more_woken, st)))))"

definition hopping_poll_recv ::
  "(nat \<Rightarrow> bytes \<Rightarrow> bytes) \<Rightarrow> socket_addr \<Rightarrow> nat list \<Rightarrow> nat \<Rightarrow> arrival list \<Rightarrow> arrival list option \<Rightarrow> wire_codec option \<Rightarrow>
     received \<times> wire_codec option \<times> arrival list \<times> arrival list option" where
  "hopping_poll_recv blake logical_remote buffers slots current previous codec =
     (if buffers = [] \<or> slots = 0 then (ReceivedNone, codec, current, previous)
      else
        (case recv_loop blake (\<lambda>_. logical_remote) (hd buffers) current codec of
           (ReceivePending, codec, current) \<Rightarrow>
             (case previous of
                None \<Rightarrow> (ReceivePending, codec, current, None)
              | Some previous \<Rightarrow>
                  (case recv_loop blake (\<lambda>_. logical_remote) (hd buffers) previous codec of
                     (res, codec, previous) \<Rightarrow> (res, codec, current, Some previous)))
         | (res, codec, current) \<Rightarrow> (res, codec, current, previous)))"

section \<open>The realm socket\<close>

record realm_attempt =
  ra_metadata :: punch_metadata
  ra_events :: "(socket_addr \<times> punch_packet) list"

text \<open>
  A STUN transaction belongs to a server and to the channel of one discovery, which has room for as many
  addresses as the discovery has requests.
\<close>

record realm_socket =
  rz_attempts :: "(string, realm_attempt) hmap"
  rz_stun :: "(bytes, socket_addr \<times> nat) hmap"
  rz_discoveries :: "(nat, nat \<times> socket_addr list) hmap"
  rz_codec :: "wire_codec option"

definition push_bounded :: "nat \<Rightarrow> 'a \<Rightarrow> 'a list \<Rightarrow> 'a list" where
  "push_bounded capacity x q = (if length q < capacity then q @ [x] else q)"

definition stun_dispatch :: "realm_socket \<Rightarrow> socket_addr \<Rightarrow> bytes \<Rightarrow> stun_error fault + realm_socket option" where
  "stun_dispatch z source wire =
     (case parse_binding_response wire of
        Inl Panic \<Rightarrow> Inl Panic
      | Inl (Err _) \<Rightarrow> Inr None
      | Inr (transaction, address) \<Rightarrow>
          (case hm_get (rz_stun z) transaction of
             Some (server, channel) \<Rightarrow>
               if server = source
               then Inr (Some (case hm_get (rz_discoveries z) channel of
                      Some (capacity, q) \<Rightarrow>
                        z\<lparr>rz_discoveries := hm_insert channel (capacity, push_bounded capacity address q) (rz_discoveries z)\<rparr>
                    | None \<Rightarrow> z))
               else Inr None
           | None \<Rightarrow> Inr None))"

fun find_attempt ::
  "(bytes \<Rightarrow> bytes) \<Rightarrow> bytes \<Rightarrow> (string \<times> realm_attempt) list \<Rightarrow> punch_packet_error fault + (string \<times> punch_packet) option" where
  "find_attempt sha wire [] = Inr None"
| "find_attempt sha wire ((i, a) # rest) =
     (case punch_decode sha wire (ra_metadata a) of
        Inl Panic \<Rightarrow> Inl Panic
      | Inl (Err _) \<Rightarrow> find_attempt sha wire rest
      | Inr packet \<Rightarrow> Inr (Some (i, packet)))"

definition punch_dispatch :: "(bytes \<Rightarrow> bytes) \<Rightarrow> realm_socket \<Rightarrow> socket_addr \<Rightarrow> bytes \<Rightarrow> punch_packet_error fault + realm_socket option" where
  "punch_dispatch sha z source wire =
     and_then (find_attempt sha wire (rz_attempts z)) (\<lambda>found.
     Inr (case found of
        None \<Rightarrow> None
      | Some (i, packet) \<Rightarrow>
          (case hm_get (rz_attempts z) i of
             None \<Rightarrow> Some z
           | Some a \<Rightarrow> Some (z\<lparr>rz_attempts := hm_insert i
               (a\<lparr>ra_events := push_bounded 16 (source, packet) (ra_events a)\<rparr>) (rz_attempts z)\<rparr>))))"

text \<open>Receiving on the shared socket: STUN answers first, then punch packets, then QUIC through the codec.\<close>

fun realm_recv_loop ::
  "(nat \<Rightarrow> bytes \<Rightarrow> bytes) \<Rightarrow> (bytes \<Rightarrow> bytes) \<Rightarrow> nat \<Rightarrow> arrival list \<Rightarrow> realm_socket \<Rightarrow>
     unit fault + (received \<times> realm_socket \<times> arrival list)" where
  "realm_recv_loop blake sha buffer [] z = Inr (ReceivePending, z, [])"
| "realm_recv_loop blake sha buffer (SocketFailed e # rest) z = Inr (ReceiveFailed e, z, rest)"
| "realm_recv_loop blake sha buffer (Arrived source wire now # rest) z =
     (case stun_dispatch z source wire of
        Inl _ \<Rightarrow> Inl Panic
      | Inr (Some z) \<Rightarrow> realm_recv_loop blake sha buffer rest z
      | Inr None \<Rightarrow>
          (case punch_dispatch sha z source wire of
             Inl _ \<Rightarrow> Inl Panic
           | Inr (Some z) \<Rightarrow> realm_recv_loop blake sha buffer rest z
           | Inr None \<Rightarrow>
               (case decode_with blake (rz_codec z) source wire now of
                  (codec, None) \<Rightarrow> realm_recv_loop blake sha buffer rest (z\<lparr>rz_codec := codec\<rparr>)
                | (codec, Some packet) \<Rightarrow> Inr (Received source (take buffer packet), z\<lparr>rz_codec := codec\<rparr>, rest))))"

definition realm_poll_recv ::
  "(nat \<Rightarrow> bytes \<Rightarrow> bytes) \<Rightarrow> (bytes \<Rightarrow> bytes) \<Rightarrow> nat list \<Rightarrow> nat \<Rightarrow> arrival list \<Rightarrow> realm_socket \<Rightarrow>
     unit fault + (received \<times> realm_socket \<times> arrival list)" where
  "realm_poll_recv blake sha buffers slots arrivals z =
     (if buffers = [] \<or> slots = 0 then Inr (ReceivedNone, z, arrivals)
      else realm_recv_loop blake sha (hd buffers) arrivals z)"

subsection \<open>The punch controller\<close>

definition register :: "string \<Rightarrow> punch_metadata \<Rightarrow> realm_socket \<Rightarrow> punch_error + realm_socket" where
  "register attempt_id m z =
     (if hm_get (rz_attempts z) attempt_id \<noteq> None then Inl (PunchInvalidConfig ''duplicate punch attempt ID'')
      else Inr (z\<lparr>rz_attempts := hm_insert attempt_id \<lparr>ra_metadata = m, ra_events = []\<rparr> (rz_attempts z)\<rparr>))"

definition attempt_guard_drop :: "string \<Rightarrow> realm_socket \<Rightarrow> realm_socket" where
  "attempt_guard_drop attempt_id z = z\<lparr>rz_attempts := hm_remove attempt_id (rz_attempts z)\<rparr>"

text \<open>
  \<open>respond\<close> up to its loop: the checks, among them that the metadata encodes a packet, then the registration.
  The result is the addresses to punch at. \<open>None\<close> is an encoding whose padding draw never ends.
\<close>

definition respond_start ::
  "(bytes \<Rightarrow> bytes) \<Rightarrow> 'r random_source \<Rightarrow> string \<Rightarrow> socket_addr list \<Rightarrow> socket_addr list \<Rightarrow> punch_metadata \<Rightarrow> addr_family \<Rightarrow>
     realm_socket \<Rightarrow> 'r \<Rightarrow> ((punch_error fault + socket_addr list \<times> realm_socket) \<times> 'r) option" where
  "respond_start sha fill attempt_id local_addresses peer_addresses m family z r =
     (if attempt_id = [] then Some (Inl (Err (PunchInvalidConfig ''punch attempt ID is required'')), r)
      else Option.bind (punch_encode sha fill Hello m r) (\<lambda>(res, r).
        Some (case res of
           Inl Panic \<Rightarrow> Inl Panic
         | Inl (Err e) \<Rightarrow> Inl (Err (PunchPacketError e))
         | Inr _ \<Rightarrow>
             (let candidates = candidate_punch_addresses local_addresses peer_addresses family in
              if candidates = [] then Inl (Err (PunchInvalidConfig ''no compatible peer addresses''))
              else map_err Err (and_then (register attempt_id m z) (\<lambda>z. Inr (candidates, z)))), r)))"

datatype respond_event = RespondDeadline | RespondTick | RespondEvent "(socket_addr \<times> punch_packet) option"

fun respond_loop ::
  "socket_addr list \<Rightarrow> respond_event list \<Rightarrow>
     (punch_error + (socket_addr \<times> punch_packet)) option \<times> (punch_packet_type \<times> socket_addr) list" where
  "respond_loop candidates [] = (None, [])"
| "respond_loop candidates (RespondDeadline # _) = (Some (Inl PunchTimeout), [])"
| "respond_loop candidates (RespondTick # es) =
     (case respond_loop candidates es of (res, out) \<Rightarrow> (res, map (Pair Hello) candidates @ out))"
| "respond_loop candidates (RespondEvent None # _) = (Some (Inl (PunchInvalidConfig ''punch event channel closed'')), [])"
| "respond_loop candidates (RespondEvent (Some (source, packet)) # _) =
     (Some (Inr (source, packet)), if pp_kind packet = Hello then [(Ack, source)] else [])"

text \<open>
  Discovery: its transactions are registered together under a fresh channel, then it waits until it has as
  many addresses as requests were sent, or until its time is over, which ends the list of received addresses.
\<close>

definition stun_register :: "stun_request list \<Rightarrow> nat \<Rightarrow> realm_socket \<Rightarrow> stun_error + realm_socket" where
  "stun_register requests channel z =
     (let ids = map stun_transaction requests in
      if \<not> distinct ids \<or> list_ex (\<lambda>i. hm_get (rz_stun z) i \<noteq> None) ids
      then Inl (StunInvalidConfig ''duplicate STUN transaction'')
      else Inr (z\<lparr>rz_stun := foldl (\<lambda>m q. hm_insert (stun_transaction q) (stun_server q, channel) m) (rz_stun z) requests,
                  rz_discoveries := hm_insert channel (max (length requests) 1, []) (rz_discoveries z)\<rparr>))"

definition stun_guard_drop :: "stun_request list \<Rightarrow> nat \<Rightarrow> realm_socket \<Rightarrow> realm_socket" where
  "stun_guard_drop requests channel z =
     z\<lparr>rz_stun := foldl (\<lambda>m q. hm_remove (stun_transaction q) m) (rz_stun z) requests,
       rz_discoveries := hm_remove channel (rz_discoveries z)\<rparr>"

fun discover_collect :: "nat \<Rightarrow> socket_addr list \<Rightarrow> socket_addr list \<Rightarrow> socket_addr list" where
  "discover_collect sent addresses [] = addresses"
| "discover_collect sent addresses (a # rest) =
     (if length addresses < sent then discover_collect sent (bt_insert a addresses) rest else addresses)"

definition discover_result :: "nat \<Rightarrow> socket_addr list \<Rightarrow> stun_error + socket_addr list" where
  "discover_result sent events =
     (if sent = 0 then Inl (StunInvalidConfig ''failed to send STUN binding requests'')
      else
        (let addresses = discover_collect sent [] events in
         if addresses = [] then Inl StunTimeout else Inr addresses))"

section \<open>The send queue and its worker\<close>

text \<open>A call of \<open>try_send\<close> is a step of the shared state: the error is taken, nothing changes, or datagrams are queued.\<close>

lemma queue_transmit_step:
  assumes "queue_transmit blake fill destination t s = (res, s')" and "sh_state w = so_send s" and "\<not> sh_closed w"
  shows "so_send s' = so_send s \<or> (\<exists>e \<in> insert TakeError (range Enqueue). so_send s' = sh_state (send_step L on_drop w e))"
  using assms by (auto simp: queue_transmit_def Let_def not_le split: option.splits if_splits sum.splits prod.splits)

definition send_inv :: "send_state \<Rightarrow> bool" where
  "send_inv st \<longleftrightarrow> length (sn_queue st) \<le> SEND_QUEUE_CAPACITY \<and> distinct (sn_waiters st) \<and>
     (sn_waiters st = [] \<or> length (sn_queue st) = SEND_QUEUE_CAPACITY)"

text \<open>
  A worker on its way to sleep, or asleep, has been or will be told of what it does not know yet.
\<close>

definition worker_inv :: "'n notify_lib \<Rightarrow> 'n shared_send \<Rightarrow> bool" where
  "worker_inv L s \<longleftrightarrow>
     (sh_pc s \<in> {CreateNotified, AwaitNotified} \<and> sn_queue (sh_state s) \<noteq> [] \<longrightarrow>
        0 < sh_owed s \<or> nl_ready L (sh_queued s)) \<and>
     (sh_pc s \<in> {PopQueue, CreateNotified, AwaitNotified} \<and> sh_closed s \<longrightarrow>
        sh_dropping s \<or> nl_ready L (sh_queued s))"

definition asleep :: "'n notify_lib \<Rightarrow> 'n shared_send \<Rightarrow> bool" where
  "asleep L s \<longleftrightarrow> sh_pc s = AwaitNotified \<and> \<not> nl_ready L (sh_queued s) \<and> sh_owed s = 0 \<and> \<not> sh_dropping s"

lemma worker_turn_send_inv: "send_inv (sh_state s) \<Longrightarrow> send_inv (sh_state (worker_turn L failed s))"
  by (auto simp: worker_turn_def worker_pop_def send_inv_def split: worker_pc.splits list.splits option.splits)

lemma send_step_send_inv: "send_inv (sh_state s) \<Longrightarrow> send_inv (sh_state (send_step L on_drop s e))"
proof (cases e)
  case (WorkerTurn failed)
  assume "send_inv (sh_state s)"
  then show ?thesis using WorkerTurn by (simp add: worker_turn_send_inv)
qed (auto simp: poll_writable_def send_inv_def split: option.splits)

lemma worker_turn_inv: "notify_ok L \<Longrightarrow> worker_inv L s \<Longrightarrow> worker_inv L (worker_turn L failed s)"
  by (auto simp: worker_turn_def worker_pop_def worker_inv_def notify_ok_def
      split: worker_pc.splits list.splits option.splits)

lemma poll_writable_queue [simp]: "sn_queue (snd (poll_writable w st)) = sn_queue st"
  by (simp add: poll_writable_def split: option.split)

lemma send_step_worker_inv: "notify_ok L \<Longrightarrow> worker_inv L s \<Longrightarrow> worker_inv L (send_step L (nl_one L) s e)"
  by (cases e) (auto simp: worker_turn_inv, auto simp: worker_inv_def notify_ok_def)

lemma send_run_induct:
  "P (shared_send_new L) \<Longrightarrow> (\<And>s e. P s \<Longrightarrow> P (send_step L on_drop s e)) \<Longrightarrow> P (send_run L on_drop es)"
  by (induction es rule: rev_induct) (auto simp: send_run_def)

definition flag_notify :: "(bool \<times> bool) notify_lib" where
  "flag_notify = \<lparr>nl_new = (False, False), nl_one = (\<lambda>(w, p). (w, True)), nl_all = (\<lambda>(w, p). (w, w \<or> p)),
     nl_notified = (\<lambda>(w, p). (True, p)), nl_complete = (\<lambda>_. (False, False)), nl_ready = snd, nl_waiting = fst\<rparr>"

lemma flag_notify_ok: "notify_ok flag_notify"
  by (simp add: notify_ok_def flag_notify_def)

text \<open>
  Whatever the order of sends, polls, worker steps and the drop of the socket, the queue never holds more
  than its capacity, no task is registered twice, and a task waits for room only while the queue is full: the
  step that makes room has woken all of them.
\<close>

lemma send_queue_bounded: "send_inv (sh_state (send_run L on_drop es))"
  by (rule send_run_induct) (simp add: shared_send_new_def send_inv_def, rule send_step_send_inv)

text \<open>
  C9: With \<open>notify_one\<close> in \<open>drop\<close>, as in the obfuscated and the realm socket, a worker that sleeps when all
  notifications have been made has an empty queue and an open socket: no datagram is stranded, and the
  worker of a dropped socket ends.
\<close>

theorem sleeping_worker_idle:
  assumes "notify_ok L" and "asleep L (send_run L (nl_one L) es)"
  shows "sn_queue (sh_state (send_run L (nl_one L) es)) = [] \<and> \<not> sh_closed (send_run L (nl_one L) es)"
proof -
  have "worker_inv L (send_run L (nl_one L) es)"
    by (rule send_run_induct) (simp add: shared_send_new_def worker_inv_def, rule send_step_worker_inv [OF assms(1)])
  then show ?thesis using assms(2) by (auto simp: worker_inv_def asleep_def)
qed

theorem sleeping_worker_idle_witness:
  "sn_queue (sh_state (send_run flag_notify (nl_one flag_notify) [WorkerTurn None, WorkerTurn None, WorkerTurn None])) = []
   \<and> \<not> sh_closed (send_run flag_notify (nl_one flag_notify) [WorkerTurn None, WorkerTurn None, WorkerTurn None])"
  by (rule sleeping_worker_idle [OF flag_notify_ok])
    (simp add: asleep_def send_run_def shared_send_new_def worker_turn_def worker_pop_def flag_notify_def)

lemma asleep_stays: "asleep L s \<Longrightarrow> worker_turn L failed s = s"
  by (simp add: asleep_def worker_turn_def)

text \<open>
  C40: The hopping socket calls \<open>notify_waiters\<close> in \<open>drop\<close>. A drop between the worker's look at the closed flag and its
  sleep is lost: the socket is closed, every notification has been made, and the worker sleeps, through any
  further steps of its own.
\<close>

theorem hopping_worker_leaks:
  assumes "notify_ok L"
  shows "\<exists>es. let s = send_run L (nl_all L) es in
     sh_closed s \<and> asleep L s \<and> (\<forall>failed. worker_turn L failed s = s)"
proof -
  define es where "es = [WorkerTurn None, WorkerTurn None, DropSocket, NotifyDropped, WorkerTurn None]"
  have "sh_closed (send_run L (nl_all L) es)" "asleep L (send_run L (nl_all L) es)"
    using assms by (simp_all add: es_def asleep_def send_run_def shared_send_new_def worker_turn_def worker_pop_def notify_ok_def)
  then show ?thesis using asleep_stays by (auto simp: Let_def)
qed

theorem hopping_worker_leaks_witness:
  "\<exists>es. let s = send_run flag_notify (nl_all flag_notify) es in
     sh_closed s \<and> asleep flag_notify s \<and> (\<forall>failed. worker_turn flag_notify failed s = s)"
  by (rule hopping_worker_leaks [OF flag_notify_ok])

section \<open>Delivery through the sockets\<close>

text \<open>A receiver with the same password and room for the sender's next message from \<open>source\<close>.\<close>

fun receiver_ready :: "wire_codec \<Rightarrow> wire_codec \<Rightarrow> socket_addr \<Rightarrow> bool" where
  "receiver_ready (CodecSalamander s) (CodecSalamander s') source \<longleftrightarrow> s' = s"
| "receiver_ready (CodecGecko g) (CodecGecko h) source \<longleftrightarrow>
     gk_salamander h = gk_salamander g \<and> reasm_inv (gk_reassembler h) \<and>
     hm_get (entries (gk_reassembler h)) (socket_addr_display source, ucast (next_message_id g + 1)) = None \<and>
     source_count (socket_addr_display source) (entries (gk_reassembler h)) < MAX_REASSEMBLIES_PER_SOURCE"
| "receiver_ready _ _ source \<longleftrightarrow> False"

lemma recv_loop_gecko:
  "snd (receive_all blake h (socket_addr_display source) ps) = replicate k (Inr None) @ [Inr (Some p)] \<Longrightarrow>
   \<exists>codec. recv_loop blake id n (map (\<lambda>(w, t). Arrived source w t) ps) (Some (CodecGecko h)) =
     (Received source (take n p), codec, [])"
proof (induction ps arbitrary: h k)
  case (Cons a ps)
  obtain g res where step: "receive_packet blake h (socket_addr_display source) (fst a) (snd a) = (g, res)" by fastforce
  obtain g2 ress where rest: "receive_all blake g (socket_addr_display source) ps = (g2, ress)" by fastforce
  have eq: "res # ress = replicate k (Inr None) @ [Inr (Some p)]" using Cons.prems step rest by simp
  show ?case
  proof (cases k)
    case 0
    then have "res = Inr (Some p)" "ress = []" using eq by simp_all
    moreover have "ps = []" using rest \<open>ress = []\<close> by (cases ps) (auto split: prod.splits)
    ultimately show ?thesis using step by (simp add: decode_with_def split_beta)
  next
    case (Suc k')
    then have "res = Inr None" "ress = replicate k' (Inr None) @ [Inr (Some p)]" using eq by simp_all
    then show ?thesis using step rest Cons.IH [of g k'] by (simp add: decode_with_def split_beta)
  qed
qed simp

lemma codec_delivers:
  assumes "good_random fill" and "wire_encode blake fill c p r = (Inr ws, c', r')" and "p \<noteq> []"
    and "receiver_ready c h source"
    and "insert j (fst ` set as) = {..<length ws}" and "j \<notin> fst ` set as"
  shows "\<exists>codec. recv_loop blake id n (map (\<lambda>(i, t). Arrived source (ws ! i) t) (as @ [(j, t)])) (Some h) =
     (Received source (take n p), codec, [])"
proof (cases c)
  case (CodecSalamander s)
  then obtain salt where salt: "fill r SALT_LENGTH = (Some salt, r')" and ws: "ws = [obfuscate blake s p salt]"
    using assms(2) by (auto split: prod.splits option.splits)
  have "length salt = SALT_LENGTH" using assms(1) salt by (auto simp: good_random_def)
  then have dec: "deobfuscate blake s (obfuscate blake s p salt) = Inr p" using assms(3) sal.dec_enc by blast
  have "insert j (fst ` set as) = {0}" using assms(5) ws by (simp add: lessThan_Suc)
  then have "j = 0 \<and> fst ` set as = {}" using assms(6) by (rule insert_eq_singleton)
  moreover have "h = CodecSalamander s" using assms(4) CodecSalamander by (cases h) simp_all
  ultimately show ?thesis using dec ws by (simp add: decode_with_def)
next
  case (CodecGecko g)
  then obtain g' where enc: "encode_packet blake fill g p r = (Inr ws, g', r')"
    using assms(2) by (auto simp: result_iffs split: prod.splits)
  obtain h' where h: "h = CodecGecko h'" using assms(4) CodecGecko by (cases h) simp_all
  have "snd (receive_all blake h' (socket_addr_display source) (map (\<lambda>(i, t). (ws ! i, t)) (as @ [(j, t)]))) =
      replicate (length as) (Inr None) @ [Inr (Some p)]"
    using assms(4-6) CodecGecko h by (intro encode_packet_delivers [OF assms(1) enc assms(3)]) simp_all
  from recv_loop_gecko [OF this, of n] show ?thesis unfolding h by (simp add: comp_def case_prod_unfold)
qed

lemma send_packets_destination: "x \<in> set (fst (send_packets d ps send_to)) \<Longrightarrow> fst x = d"
  by (induction ps) (auto split: option.splits prod.splits)

lemma send_packets_ok: "send_packets d ps (\<lambda>_. None) = (map (Pair d) ps, None)"
  by (induction ps) simp_all

text \<open>
  C4: A packet given to an idle socket goes out in one turn of the worker, to the transmit's destination, and a
  receiver with the same password gets it from the socket exactly as sent when the last of its datagrams
  has arrived, in whatever order they come; nothing else is delivered on the way.
\<close>

theorem obfuscated_delivery:
  assumes "good_random fill" and "so_codec s = Some c" and "sn_queue (so_send s) = []"
    and "tr_contents t \<noteq> []" and "tr_segment_size t = None"
    and "try_send blake fill t s = (Inr (), s')" and "send_worker (\<lambda>_. None) (so_send s') = (sent, woken, st)"
    and "receiver_ready c h source"
    and "insert j (fst ` set as) = {..<length sent}" and "j \<notin> fst ` set as"
    and "buffers \<noteq> []" and "0 < slots" and "length (tr_contents t) \<le> hd buffers"
  shows "fst ` set sent \<subseteq> {tr_destination t} \<and> sn_queue st = [] \<and>
    (\<exists>codec. obfuscated_poll_recv blake buffers slots
        (map (\<lambda>(i, time). Arrived source (snd (sent ! i)) time) (as @ [(j, time)])) (Some h) =
      (Received source (tr_contents t), codec, []))"
proof -
  obtain ws c' r' where enc: "wire_encode blake fill c (tr_contents t) (so_random s) = (Inr ws, c', r')"
    and queue: "sn_queue (so_send s') = [\<lparr>od_destination = tr_destination t, od_packets = ws\<rparr>]"
    using assms(2-6)
    by (auto simp: try_send_def queue_transmit_def Let_def segments_def result_iffs split: option.splits if_splits sum.splits prod.splits)
  have sent: "sent = map (Pair (tr_destination t)) ws" "sn_queue st = []"
    using assms(7) queue by (auto simp: send_worker_def worker_pop_def send_packets_ok)
  have idx: "i < length ws" if "(i, u) \<in> set (as @ [(j, time)])" for i u
    using assms(9) that sent(1) by (auto simp: set_eq_iff) (metis fst_conv image_eqI)
  have arr: "map (\<lambda>(i, time). Arrived source (snd (sent ! i)) time) (as @ [(j, time)]) =
      map (\<lambda>(i, time). Arrived source (ws ! i) time) (as @ [(j, time)])"
    unfolding sent(1) by (intro map_cong refl) (clarsimp simp only: nth_map idx split_beta fst_conv snd_conv simp_thms)
  have "insert j (fst ` set as) = {..<length ws}" using assms(9) sent(1) by simp
  from codec_delivers [OF assms(1) enc assms(4,8) this assms(10), of "hd buffers" time]
  have "\<exists>codec. obfuscated_poll_recv blake buffers slots
      (map (\<lambda>(i, time). Arrived source (snd (sent ! i)) time) (as @ [(j, time)])) (Some h) =
    (Received source (tr_contents t), codec, [])"
    unfolding arr using assms(11-13) by (simp add: obfuscated_poll_recv_def)
  then show ?thesis using sent by auto
qed

lemma sample_receiver_ready: "receiver_ready (CodecGecko sample_gecko) (CodecGecko sample_gecko) source"
  by (simp add: sample_gecko_def reassembler_default_def source_count_def MAX_REASSEMBLIES_PER_SOURCE_def
      reasm_inv_def accounted_def)

definition sample_socket :: "unit udp_socket" where
  "sample_socket = \<lparr>so_send = \<lparr>sn_queue = [], sn_waiters = [], sn_error = None\<rparr>,
     so_codec = Some (CodecGecko sample_gecko), so_random = ()\<rparr>"

definition sample_peer :: socket_addr where
  "sample_peer = SocketAddr (V4 1) 2"

definition sample_transmit :: transmit where
  "sample_transmit = \<lparr>tr_destination = sample_peer, tr_contents = [128, 1, 2, 3, 4], tr_segment_size = None\<rparr>"

lemma sample_try_send:
  "try_send zero_hash zero_random sample_transmit sample_socket =
     (Inr (), sample_socket\<lparr>so_codec := Some (CodecGecko (sample_gecko\<lparr>next_message_id := 1\<rparr>)),
        so_send := \<lparr>sn_queue = [\<lparr>od_destination = sample_peer, od_packets = sample_wires\<rparr>], sn_waiters = [], sn_error = None\<rparr>\<rparr>)"
  by (simp add: try_send_def queue_transmit_def segments_def sample_transmit_def sample_socket_def sample_encode)

theorem obfuscated_delivery_witness:
  "\<exists>codec. obfuscated_poll_recv zero_hash [1500] 1
     (map (\<lambda>(i, time). Arrived sample_peer (snd (map (Pair sample_peer) sample_wires ! i)) time) ([(1, 5)] @ [(0, 7)]))
     (Some (CodecGecko sample_gecko)) =
     (Received sample_peer [128, 1, 2, 3, 4], codec, [])"
  using obfuscated_delivery [OF good_zero_random _ _ _ _ sample_try_send _ sample_receiver_ready,
      where sent = "map (Pair sample_peer) sample_wires" and woken = "[]" and buffers = "[1500]" and slots = 1 and j = 0
        and as = "[(1, 5)]" and time = 7 and source = sample_peer and st = "\<lparr>sn_queue = [], sn_waiters = [], sn_error = None\<rparr>"]
  by (simp add: sample_socket_def sample_transmit_def send_worker_def worker_pop_def send_packets_ok sample_wires_def
      lessThan_Suc insert_commute)

section \<open>Hopping\<close>

lemma random_index_less: "0 < n \<Longrightarrow> \<exists>i < n. fst (random_index fill ne n r) = Inr i"
  by (auto simp: random_index_def split: prod.split option.split)

lemma hopping_send_worker_remote:
  assumes "hs_remote_index g < length remotes"
  shows "\<exists>sent woken st'. hopping_send_worker send_to remotes g st = Inr (sent, woken, st') \<and>
    (\<forall>(socket, remote, p) \<in> set sent. socket = hs_current g \<and> remote \<in> set remotes)"
proof -
  obtain out woken st1 where pop: "worker_pop st = (out, woken, st1)" using prod_cases3 by blast
  show ?thesis
  proof (cases out)
    case None
    then show ?thesis using pop by (simp add: hopping_send_worker_def)
  next
    case (Some o')
    obtain sent e where run: "send_packets (remotes ! hs_remote_index g) (od_packets o') send_to = (sent, e)" by fastforce
    have "\<forall>(socket, remote, p) \<in> set (map (Pair (hs_current g)) sent). socket = hs_current g \<and> remote \<in> set remotes"
      using send_packets_destination [of _ "remotes ! hs_remote_index g" "od_packets o'" send_to] run nth_mem [OF assms] by fastforce
    then show ?thesis using pop Some run assms by (cases e) (simp_all add: hopping_send_worker_def )
  qed
qed

text \<open>
  Settings that pass the check never lead the hop worker or the sender to a panic: a new state and every hop
  give an index into the remote addresses, so each datagram goes to one of them.
\<close>

lemma hop_stays_in_range:
  assumes "hop_settings_check remotes low high = Inr ()"
  shows "(\<exists>h. fst (hop_new fill ne remotes k r) = Inr h \<and> hs_remote_index h < length remotes) \<and>
    (hs_remote_index g < length remotes \<longrightarrow>
      (\<forall>res. fst (hop_worker fill ne remotes closed new_socket g r) = Some res \<longrightarrow>
         (\<exists>h. res = Inr h \<and> hs_remote_index h < length remotes \<and>
            hs_previous h \<in> {hs_previous g, Some (hs_current g)})) \<and>
      (\<exists>sent woken st'. hopping_send_worker send_to remotes g st = Inr (sent, woken, st') \<and>
         (\<forall>(socket, remote, p) \<in> set sent. socket = hs_current g \<and> remote \<in> set remotes)))"
proof -
  have ne: "0 < length remotes" using assms by (auto simp: hop_settings_check_def split: if_splits)
  have "\<exists>h. fst (hop_new fill ne remotes k r) = Inr h \<and> hs_remote_index h < length remotes"
    using random_index_less [OF ne, of fill ne r] by (auto simp: hop_new_def split: prod.splits)
  moreover have "\<exists>h. res = Inr h \<and> hs_remote_index h < length remotes \<and> hs_previous h \<in> {hs_previous g, Some (hs_current g)}"
    if "hs_remote_index g < length remotes" "fst (hop_worker fill ne remotes closed new_socket g r) = Some res" for res
    using that random_index_less [OF ne, of fill ne r]
    by (auto simp: hop_worker_def split: if_splits option.splits prod.splits)
  ultimately show ?thesis using hopping_send_worker_remote by blast
qed

lemma random_duration_bounds:
  "low \<le> high \<Longrightarrow> low \<le> fst (random_duration fill ne low high r) \<and> fst (random_duration fill ne low high r) \<le> high"
proof -
  assume le: "low \<le> high"
  have "x mod min (unat (if high - low < 2 ^ 64 then word_of_nat (high - low) else - 1 :: u64) + 1) (2 ^ 64 - 1) \<le> high - low"
    if "low < high" for x :: nat
  proof -
    let ?m = "min (unat (if high - low < 2 ^ 64 then word_of_nat (high - low) else - 1 :: u64) + 1) (2 ^ 64 - 1 :: nat)"
    have "0 < ?m" by simp
    then have "x mod ?m < ?m" by (rule mod_less_divisor)
    moreover have "?m \<le> high - low + 1" by (auto simp: unat_of_nat min_def unsigned_minus_1_eq_mask mask_eq_exp_minus_1)
    ultimately show ?thesis by linarith
  qed
  then show ?thesis using le by (auto simp: random_duration_def Let_def le_diff_conv2 add.commute split: prod.split option.split)
qed

section \<open>The shared socket\<close>

definition realm_inv :: "realm_socket \<Rightarrow> bool" where
  "realm_inv z \<longleftrightarrow> hm_ok (rz_attempts z) \<and>
     (\<forall>i a. hm_get (rz_attempts z) i = Some a \<longrightarrow> (\<exists>k. decode_metadata (ra_metadata a) = Inr k) \<and> length (ra_events a) \<le> 16)"

lemma punch_decode_total: "decode_metadata m = Inr k \<Longrightarrow> punch_decode sha wire m \<noteq> Inl Panic"
  by (cases k) (auto simp: punch_decode_def Let_def result_iffs split: if_splits)

lemma find_attempt_total:
  "\<forall>(i, a) \<in> set as. \<exists>k. decode_metadata (ra_metadata a) = Inr k \<Longrightarrow> \<exists>res. find_attempt sha wire as = Inr res"
  by (induction sha wire as rule: find_attempt.induct)
    (auto split: sum.splits fault.splits dest: punch_decode_total)

lemma stun_dispatch_total: "\<exists>res. stun_dispatch z source wire = Inr res"
  using stun_parse_no_panic [of wire]
  by (auto simp: stun_dispatch_def split: sum.splits fault.splits option.splits prod.splits)

lemma stun_dispatch_attempts: "stun_dispatch z source wire = Inr (Some z') \<Longrightarrow> rz_attempts z' = rz_attempts z"
  by (auto simp: stun_dispatch_def split: sum.splits fault.splits option.splits prod.splits if_splits)

lemma realm_inv_attempts: "rz_attempts z' = rz_attempts z \<Longrightarrow> realm_inv z \<Longrightarrow> realm_inv z'"
  by (simp add: realm_inv_def)

lemma punch_dispatch_total: "realm_inv z \<Longrightarrow> \<exists>res. punch_dispatch sha z source wire = Inr res"
proof -
  assume inv: "realm_inv z"
  have "\<forall>(i, a) \<in> set (rz_attempts z). \<exists>k. decode_metadata (ra_metadata a) = Inr k"
    using inv hm_mem_get by (fastforce simp: realm_inv_def)
  from find_attempt_total [OF this, of sha wire] show ?thesis by (auto simp: punch_dispatch_def)
qed

lemma punch_dispatch_cases:
  assumes "punch_dispatch sha z source wire = Inr (Some z')"
  obtains "z' = z"
  | i a packet where "hm_get (rz_attempts z) i = Some a"
    and "z' = z\<lparr>rz_attempts := hm_insert i (a\<lparr>ra_events := push_bounded 16 (source, packet) (ra_events a)\<rparr>) (rz_attempts z)\<rparr>"
proof (cases "find_attempt sha wire (rz_attempts z)")
  case (Inr found)
  with assms obtain i packet where found: "found = Some (i, packet)"
    by (cases found) (auto simp: punch_dispatch_def)
  show thesis
  proof (cases "hm_get (rz_attempts z) i")
    case None
    then have "z' = z" using assms Inr found by (simp add: punch_dispatch_def)
    then show thesis by (rule that(1))
  next
    case (Some a)
    then show thesis using assms Inr found that(2) [OF Some, of packet] by (simp add: punch_dispatch_def)
  qed
qed (use assms in \<open>simp add: punch_dispatch_def\<close>)

lemma punch_dispatch_inv:
  assumes "realm_inv z" and "punch_dispatch sha z source wire = Inr (Some z')"
  shows "realm_inv z'"
  using assms(2)
proof (cases rule: punch_dispatch_cases)
  case 1
  then show ?thesis using assms(1) by simp
next
  case (2 i a packet)
  then show ?thesis using assms(1) by (auto simp: realm_inv_def push_bounded_def hm_laws)
qed

lemma realm_recv_loop_total:
  "realm_inv z \<Longrightarrow> \<exists>res z' rest. realm_recv_loop blake sha n as z = Inr (res, z', rest) \<and> realm_inv z'"
proof (induction as arbitrary: z)
  case (Cons x as)
  show ?case
  proof (cases x)
    case (Arrived source wire now)
    obtain s where s: "stun_dispatch z source wire = Inr s" using stun_dispatch_total by blast
    obtain p where p: "punch_dispatch sha z source wire = Inr p" using punch_dispatch_total [OF Cons.prems] by blast
    obtain c q where d: "decode_with blake (rz_codec z) source wire now = (c, q)" by fastforce
    have inv: "realm_inv (z\<lparr>rz_codec := c\<rparr>)" using Cons.prems by (simp add: realm_inv_def)
    show ?thesis
    proof (cases s)
      case (Some z1)
      then have "realm_inv z1" using s stun_dispatch_attempts realm_inv_attempts Cons.prems by blast
      then show ?thesis using Cons.IH Arrived s Some by simp
    next
      case None
      show ?thesis
      proof (cases p)
        case (Some z1)
        then have "realm_inv z1" using p punch_dispatch_inv Cons.prems by blast
        then show ?thesis using Cons.IH Arrived s None p Some by simp
      next
        case no_punch: None
        then show ?thesis using Cons.IH [OF inv] inv Arrived s None p d by (cases q) simp_all
      qed
    qed
  qed (use Cons.prems in simp)
qed simp

lemma punch_encode_metadata:
  "punch_encode sha fill kind m r = Some (Inr wire, r') \<Longrightarrow> \<exists>k. decode_metadata m = Inr k"
proof -
  assume enc: "punch_encode sha fill kind m r = Some (Inr wire, r')"
  then obtain res r1 where pad: "random_padding_length fill r = Some (res, r1)"
    by (auto simp: punch_encode_def bind_eq_Some_conv)
  show ?thesis using enc pad by (cases res) (auto simp: punch_encode_def encode_with_def eff_iffs split: if_splits)
qed

lemma respond_start_inv:
  assumes "realm_inv z" and "respond_start sha fill i own peers m family z r = Some (Inr (candidates, z'), r')"
  shows "realm_inv z'" and "hm_get (rz_attempts z) i = None" and "candidates \<noteq> []"
    and "z' = z\<lparr>rz_attempts := hm_insert i \<lparr>ra_metadata = m, ra_events = []\<rparr> (rz_attempts z)\<rparr>"
proof -
  obtain wire r1 where enc: "punch_encode sha fill Hello m r = Some (Inr wire, r1)"
  proof -
    obtain res r1 where res: "punch_encode sha fill Hello m r = Some (res, r1)"
      using assms(2) by (auto simp: respond_start_def bind_eq_Some_conv split: if_splits)
    show thesis
    proof (cases res)
      case (Inl e)
      then show thesis using assms(2) res by (cases e) (simp_all add: respond_start_def split: if_splits)
    qed (use res that in blast)
  qed
  then show new: "hm_get (rz_attempts z) i = None" "candidates \<noteq> []"
    "z' = z\<lparr>rz_attempts := hm_insert i \<lparr>ra_metadata = m, ra_events = []\<rparr> (rz_attempts z)\<rparr>"
    using assms(2) by (auto simp: respond_start_def register_def Let_def result_iffs split: if_splits)
  show "realm_inv z'"
    using assms(1) punch_encode_metadata [OF enc] unfolding new(3) by (auto simp: realm_inv_def hm_laws)
qed

text \<open>The states the shared socket can be in: attempts and discoveries come and go while datagrams arrive.\<close>

inductive realm_reachable ::
  "(nat \<Rightarrow> bytes \<Rightarrow> bytes) \<Rightarrow> (bytes \<Rightarrow> bytes) \<Rightarrow> 'r random_source \<Rightarrow> realm_socket \<Rightarrow> bool"
  for blake sha fill where
  realm_new: "realm_reachable blake sha fill \<lparr>rz_attempts = [], rz_stun = [], rz_discoveries = [], rz_codec = codec\<rparr>"
| realm_respond: "realm_reachable blake sha fill z \<Longrightarrow>
    respond_start sha fill i own peers m family z r = Some (Inr (candidates, z'), r') \<Longrightarrow> realm_reachable blake sha fill z'"
| realm_respond_end: "realm_reachable blake sha fill z \<Longrightarrow> realm_reachable blake sha fill (attempt_guard_drop i z)"
| realm_discover: "realm_reachable blake sha fill z \<Longrightarrow> stun_register requests channel z = Inr z' \<Longrightarrow>
    realm_reachable blake sha fill z'"
| realm_discover_end: "realm_reachable blake sha fill z \<Longrightarrow> realm_reachable blake sha fill (stun_guard_drop requests channel z)"
| realm_receive: "realm_reachable blake sha fill z \<Longrightarrow>
    realm_poll_recv blake sha buffers slots arrivals z = Inr (res, z', rest) \<Longrightarrow> realm_reachable blake sha fill z'"

lemma realm_poll_recv_total:
  "realm_inv z \<Longrightarrow> \<exists>res z' rest. realm_poll_recv blake sha buffers slots arrivals z = Inr (res, z', rest) \<and> realm_inv z'"
  using realm_recv_loop_total by (simp add: realm_poll_recv_def)

lemma realm_reachable_inv: "realm_reachable blake sha fill z \<Longrightarrow> realm_inv z"
proof (induction rule: realm_reachable.induct)
  case (realm_respond z i own peers m family r candidates z' r')
  then show ?case by (blast intro: respond_start_inv(1))
next
  case (realm_receive z buffers slots arrivals res z' rest)
  then show ?case using realm_poll_recv_total [of z blake sha buffers slots arrivals] by simp
qed (auto simp: realm_inv_def attempt_guard_drop_def stun_guard_drop_def stun_register_def Let_def hm_laws split: if_splits)

lemma find_attempt_unique:
  assumes "(i, a) \<in> set as" and "punch_decode sha wire (ra_metadata a) = Inr packet"
    and "\<forall>(j, b) \<in> set as. (j, b) = (i, a) \<or> (\<exists>e. punch_decode sha wire (ra_metadata b) = Inl (Err e))"
  shows "find_attempt sha wire as = Inr (Some (i, packet))"
  using assms
proof (induction as)
  case (Cons x as)
  show ?case
  proof (cases "x = (i, a)")
    case True
    then show ?thesis using Cons.prems(2) by simp
  next
    case False
    then show ?thesis using Cons by (cases x) auto
  qed
qed simp



text \<open>
  C21: A punch packet of the peer that an attempt was registered for does not reach QUIC: it ends as the only event
  of that attempt, whose loop then reports the peer's address and answers a hello with an acknowledgement. The
  packet must not look like the answer of a STUN server that is being asked, nor decode for another attempt.
\<close>

theorem realm_punch_reaches_attempt:
  assumes "realm_reachable blake sha fill z"
    and "respond_start sha fill i own peers m family z r = Some (Inr (candidates, z'), r')"
    and "good_random fill'" and "punch_encode sha fill' kind m q = Some (Inr wire, q')"
    and "stun_dispatch z' source wire = Inr None"
    and "\<forall>(j, b) \<in> set (rz_attempts z). \<exists>e. punch_decode sha wire (ra_metadata b) = Inl (Err e)"
    and "buffers \<noteq> []" and "0 < slots"
  shows "\<exists>z'' a packet. realm_poll_recv blake sha buffers slots [Arrived source wire now] z' = Inr (ReceivePending, z'', []) \<and>
    hm_get (rz_attempts z'') i = Some a \<and> ra_events a = [(source, packet)] \<and> pp_kind packet = kind \<and>
    respond_loop candidates [RespondTick, RespondEvent (Some (hd (ra_events a)))] =
      (Some (Inr (source, packet)), map (Pair Hello) candidates @ (if kind = Hello then [(Ack, source)] else []))"
proof -
  define a where "a = \<lparr>ra_metadata = m, ra_events = []\<rparr>"
  note start = respond_start_inv [OF realm_reachable_inv [OF assms(1)] assms(2)]
  obtain n where dec: "punch_decode sha wire m = Inr \<lparr>pp_kind = kind, pp_padding_length = n\<rparr>"
    using punch_encode_decodes [OF assms(3,4)] by blast
  have ok: "hm_ok (rz_attempts z')" and get: "hm_get (rz_attempts z') i = Some a"
    using start(1,4) by (simp_all add: realm_inv_def hm_laws a_def)
  have "(j, b) = (i, a) \<or> (\<exists>e. punch_decode sha wire (ra_metadata b) = Inl (Err e))" if "(j, b) \<in> set (rz_attempts z')" for j b
    using hm_mem_get [OF ok that] assms(6) start(4) hm_get_mem [of "rz_attempts z" j b]
    by (auto simp: hm_laws a_def split: if_splits)
  then have "find_attempt sha wire (rz_attempts z') = Inr (Some (i, \<lparr>pp_kind = kind, pp_padding_length = n\<rparr>))"
    using dec hm_get_mem [OF get] by (intro find_attempt_unique) (auto simp: a_def)
  then have "realm_poll_recv blake sha buffers slots [Arrived source wire now] z' = Inr (ReceivePending,
      z'\<lparr>rz_attempts := hm_insert i (a\<lparr>ra_events := [(source, \<lparr>pp_kind = kind, pp_padding_length = n\<rparr>)]\<rparr>) (rz_attempts z')\<rparr>, [])"
    using assms(5,7,8) get by (simp add: realm_poll_recv_def punch_dispatch_def push_bounded_def a_def)
  then show ?thesis
    by (intro exI [of _ "z'\<lparr>rz_attempts := hm_insert i (a\<lparr>ra_events := [(source, \<lparr>pp_kind = kind, pp_padding_length = n\<rparr>)]\<rparr>) (rz_attempts z')\<rparr>"]
        exI [of _ "a\<lparr>ra_events := [(source, \<lparr>pp_kind = kind, pp_padding_length = n\<rparr>)]\<rparr>"]
        exI [of _ "\<lparr>pp_kind = kind, pp_padding_length = n\<rparr>"]) (simp add: hm_laws)
qed

lemma stun_dispatch_idle: "rz_stun z = [] \<Longrightarrow> stun_dispatch z source wire = Inr None"
  using stun_parse_no_panic [of wire] by (auto simp: stun_dispatch_def split: sum.split fault.split)

theorem realm_punch_reaches_attempt_witness:
  "\<exists>wire z' z'' a packet.
     punch_encode (\<lambda>_. replicate 32 9) counting_random Hello sample_metadata 0 = Some (Inr wire, 2) \<and>
     realm_poll_recv zero_hash (\<lambda>_. replicate 32 9) [1500] 1 [Arrived sample_peer wire 0] z' = Inr (ReceivePending, z'', []) \<and>
     hm_get (rz_attempts z'') ''a'' = Some a \<and> ra_events a = [(sample_peer, packet)] \<and> pp_kind packet = Hello"
proof -
  define z where "z = \<lparr>rz_attempts = [], rz_stun = [], rz_discoveries = [], rz_codec = None\<rparr>"
  define z' where "z' = z\<lparr>rz_attempts := hm_insert ''a'' \<lparr>ra_metadata = sample_metadata, ra_events = []\<rparr> []\<rparr>"
  have reach: "realm_reachable zero_hash (\<lambda>_. replicate 32 9) counting_random z" unfolding z_def by (rule realm_new)
  obtain wire where e: "punch_encode (\<lambda>_. replicate 32 9) counting_random Hello sample_metadata 0 = Some (Inr wire, 2)"
    using sample_punch_encode by blast
  have "candidate_punch_addresses [sample_peer] [sample_peer] AnyFamily = [sample_peer]" by code_simp
  then have start: "respond_start (\<lambda>_. replicate 32 9) counting_random ''a'' [sample_peer] [sample_peer] sample_metadata
      AnyFamily z 0 = Some (Inr ([sample_peer], z'), 2)"
    using e by (simp add: respond_start_def register_def z_def z'_def)
  have "stun_dispatch z' sample_peer wire = Inr None" by (rule stun_dispatch_idle) (simp add: z'_def z_def)
  from realm_punch_reaches_attempt [OF reach start good_counting_random e this, of "[1500]" 1 0] e
  show ?thesis by (simp add: z_def) blast
qed

end
