(* ===== verification/Http_Proxy.thy ===== *)
theory Http_Proxy
  imports Config_Types Transport_Error
begin

text \<open>
  The HTTP proxy of the client (\<open>hysteria/src/http_proxy.rs\<close>): reading the head of a request from a connection
  that delivers it in arbitrary pieces, the basic authentication, and the two ways a request is served,
  by a tunnel (\<open>CONNECT\<close>) or by sending on the rewritten request. The base64 decoder is a parameter, and so is
  opening a tunnel. A connection is the list of the results of its reads, which ends with its end; writing
  succeeds.
\<close>

section \<open>What the proxy uses of the standard library\<close>

text \<open>\<open>split\<close> with the pattern \<open>"\r\n"\<close>.\<close>

abbreviation CR :: char where
  "CR \<equiv> CHR 0x0D"

abbreviation LF :: char where
  "LF \<equiv> CHR 0x0A"

fun split_crlf :: "string \<Rightarrow> string list" where
  "split_crlf [] = [[]]"
| "split_crlf (c # s) =
     (if c = CR \<and> s \<noteq> [] \<and> hd s = LF then [] # split_crlf (tl s)
      else case split_crlf s of [] \<Rightarrow> [[c]] | l # ls \<Rightarrow> (c # l) # ls)"

declare split_crlf.simps(2) [simp del]

section \<open>Reading a request\<close>

abbreviation (input) MAX_HEADER_SIZE :: usize where
  "MAX_HEADER_SIZE \<equiv> 64 * 1024"

type_synonym reads = "(string + bytes) list"

record proxy_request =
  hq_method :: string
  hq_target :: string
  hq_version :: string
  hq_headers :: "(string \<times> string) list"
  hq_buffered_body :: bytes

fun head_position :: "bytes \<Rightarrow> nat option" where
  "head_position [] = None"
| "head_position (b # bs) =
     (if take 4 (b # bs) = [13, 10, 13, 10] then Some 0 else map_option Suc (head_position bs))"

fun read_head :: "bytes \<Rightarrow> reads \<Rightarrow> cli_error + (usize \<times> bytes \<times> reads)" where
  "read_head buffer reads =
     (case head_position buffer of
        Some position \<Rightarrow> Inr (position + 4, buffer, reads)
      | None \<Rightarrow>
          if MAX_HEADER_SIZE \<le> length buffer then Inl (cli_error ''HTTP proxy request headers are too large'')
          else
            (case reads of
               [] \<Rightarrow> Inl (cli_error ''connection closed before HTTP request headers'')
             | Inl error # _ \<Rightarrow> Inl (cli_error error)
             | Inr chunk # rest \<Rightarrow>
                 if chunk = [] then Inl (cli_error ''connection closed before HTTP request headers'')
                 else read_head (buffer @ chunk) rest))"

declare read_head.simps [simp del]

definition parse_header_line :: "string \<Rightarrow> cli_error + (string \<times> string)" where
  "parse_header_line line =
     and_then (ok_or (cli_error ''invalid HTTP header'') (split_once line (CHR '':''))) (\<lambda>(name, v).
       if name = [] \<or> list_ex (\<lambda>b. b \<le> 32 \<or> 0x7f \<le> b) (as_bytes name)
       then Inl (cli_error ''invalid HTTP header name'')
       else Inr (name, trim v))"

definition parse_request_line :: "string \<Rightarrow> cli_error + (string \<times> string \<times> string)" where
  "parse_request_line line =
     (case split_whitespace line of
        [] \<Rightarrow> Inl (cli_error ''missing HTTP method'')
      | [_] \<Rightarrow> Inl (cli_error ''missing HTTP request target'')
      | [_, _] \<Rightarrow> Inl (cli_error ''missing HTTP version'')
      | method # target # version # parts \<Rightarrow>
          if parts \<noteq> [] \<or> \<not> starts_with version ''HTTP/'' then Inl (cli_error ''invalid HTTP request line'')
          else Inr (method, target, version))"

definition read_request :: "reads \<Rightarrow> cli_error + (proxy_request \<times> reads)" where
  "read_request reads =
     and_then (read_head [] reads) (\<lambda>(head_end, buffer, rest).
       let head = take (head_end - 4) buffer in
       if \<not> utf8_valid head then Inl (CliError ''invalid HTTP request header: {}'' [utf8_error 0 head])
       else
         (case split_crlf (of_bytes head) of
            [] \<Rightarrow> Inl (cli_error ''missing HTTP request line'')
          | request_line # lines \<Rightarrow>
              and_then (parse_request_line request_line) (\<lambda>(method, target, version).
              and_then (try_map parse_header_line lines) (\<lambda>headers.
                Inr (\<lparr>hq_method = method, hq_target = target, hq_version = version, hq_headers = headers,
                      hq_buffered_body = drop head_end buffer\<rparr>, rest)))))"

section \<open>Authorization and targets\<close>

definition str_get :: "string \<Rightarrow> nat \<Rightarrow> nat \<Rightarrow> string option" where
  "str_get s i j =
     (if i \<le> j \<and> is_char_boundary s i \<and> is_char_boundary s j then Some (take (j - i) (drop i s)) else None)"

definition http_authorized :: "(string \<Rightarrow> bytes option) \<Rightarrow> proxy_request \<Rightarrow> http_proxy_config \<Rightarrow> bool" where
  "http_authorized base64_decode request config \<longleftrightarrow>
     hp_username config = [] \<or>
     list_ex (\<lambda>(name, v).
       eq_ignore_ascii_case name ''proxy-authorization'' \<and>
       (case Option.bind (str_get v 0 6) (\<lambda>prefix. if eq_ignore_ascii_case prefix ''basic '' then str_get v 6 (length v) else None) of
          None \<Rightarrow> False
        | Some encoded \<Rightarrow>
            base64_decode encoded = Some (as_bytes (hp_username config @ '':'' @ hp_password config))))
       (hq_headers request)"

definition normalize_authority :: "string \<Rightarrow> u16 \<Rightarrow> cli_error + string" where
  "normalize_authority authority default_port =
     (if parse_socket_addr authority \<noteq> None then Inr authority
      else if starts_with authority ''['' \<and> ends_with authority '']'' then Inr (authority @ '':'' @ uint_string default_port)
      else if (case rsplit_once authority (CHR '':'') of
                 None \<Rightarrow> False
               | Some (host, port) \<Rightarrow> host \<noteq> [] \<and> parse_u16 port \<noteq> None) then Inr authority
      else if authority \<noteq> [] \<and> \<not> list_ex (\<lambda>c. c \<in> {CHR ''/'', CR, LF}) authority
      then Inr (authority @ '':'' @ uint_string default_port)
      else Inl (cli_error ''invalid HTTP proxy authority''))"

definition parse_absolute_http_target :: "string \<Rightarrow> cli_error + (string \<times> string)" where
  "parse_absolute_http_target target =
     and_then (ok_or (cli_error ''HTTP proxy requires an absolute http:// request target'')
         (strip_prefix target ''http://'')) (\<lambda>remainder.
       let (authority, path) =
         (case split_once remainder (CHR ''/'') of
            None \<Rightarrow> (remainder, ''/'')
          | Some (authority, path) \<Rightarrow> (authority, ''/'' @ path)) in
       if authority = [] then Inl (cli_error ''HTTP request target has no host'')
       else and_then (normalize_authority authority 80) (\<lambda>authority. Inr (authority, path)))"

abbreviation (input) escape_header_value :: "string \<Rightarrow> string" where
  "escape_header_value v \<equiv> filter (\<lambda>c. c \<notin> {CR, LF, CHR ''\"''}) v"

section \<open>Serving a request\<close>

text \<open>
  What serving a connection did: what was written back, the target of the tunnel that was asked for, what
  was written to the tunnel, and, when the two connections are joined by \<open>copy_bidirectional\<close>, the reads that
  are still to come.
\<close>

record http_exchange =
  hx_reply :: string
  hx_target :: "string option"
  hx_tunnel :: bytes
  hx_relay :: "reads option"

definition crlf :: string where
  "crlf = [CR, LF]"

abbreviation (input) bad_gateway :: "string \<Rightarrow> string" where
  "bad_gateway version \<equiv> version @ '' 502 Bad Gateway'' @ crlf @ ''Content-Length: 0'' @ crlf @ ''Connection: close'' @ crlf @ crlf"

definition http_handle_connect ::
  "(string \<Rightarrow> transport_error + unit) \<Rightarrow> proxy_request \<Rightarrow> reads \<Rightarrow> (cli_error + unit) \<times> http_exchange" where
  "http_handle_connect tcp request rest =
     (case normalize_authority (hq_target request) 80 of
        Inl error \<Rightarrow> (Inl error, \<lparr>hx_reply = [], hx_target = None, hx_tunnel = [], hx_relay = None\<rparr>)
      | Inr target \<Rightarrow>
          (case tcp target of
             Inl error \<Rightarrow>
               (Inl (cli_error (transport_error_display error)),
                \<lparr>hx_reply = bad_gateway (hq_version request), hx_target = Some target, hx_tunnel = [], hx_relay = None\<rparr>)
           | Inr _ \<Rightarrow>
               (Inr (),
                \<lparr>hx_reply = hq_version request @ '' 200 OK'' @ crlf @ crlf, hx_target = Some target,
                 hx_tunnel = hq_buffered_body request, hx_relay = Some rest\<rparr>)))"

abbreviation (input) forwarded_header :: "string \<times> string \<Rightarrow> string" where
  "forwarded_header \<equiv> (\<lambda>(name, v).
     if eq_ignore_ascii_case name ''proxy-authorization'' \<or> eq_ignore_ascii_case name ''proxy-connection'' then []
     else name @ '': '' @ v @ crlf)"

definition http_handle_plain ::
  "(string \<Rightarrow> transport_error + unit) \<Rightarrow> proxy_request \<Rightarrow> reads \<Rightarrow> (cli_error + unit) \<times> http_exchange" where
  "http_handle_plain tcp request rest =
     (case parse_absolute_http_target (hq_target request) of
        Inl error \<Rightarrow> (Inl error, \<lparr>hx_reply = [], hx_target = None, hx_tunnel = [], hx_relay = None\<rparr>)
      | Inr (target, origin_form) \<Rightarrow>
          (case tcp target of
             Inl error \<Rightarrow>
               (Inl (cli_error (transport_error_display error)),
                \<lparr>hx_reply = bad_gateway (hq_version request), hx_target = Some target, hx_tunnel = [], hx_relay = None\<rparr>)
           | Inr _ \<Rightarrow>
               let outbound = hq_method request @ '' '' @ origin_form @ '' '' @ hq_version request @ crlf @
                     concat (map forwarded_header (hq_headers request)) @ crlf in
               (Inr (),
                \<lparr>hx_reply = [], hx_target = Some target, hx_tunnel = as_bytes outbound @ hq_buffered_body request,
                 hx_relay = Some rest\<rparr>)))"

definition http_handle_connection ::
  "(string \<Rightarrow> bytes option) \<Rightarrow> (string \<Rightarrow> transport_error + unit) \<Rightarrow> http_proxy_config \<Rightarrow> reads \<Rightarrow>
     (cli_error + unit) \<times> http_exchange" where
  "http_handle_connection base64_decode tcp config reads =
     (case read_request reads of
        Inl error \<Rightarrow> (Inl error, \<lparr>hx_reply = [], hx_target = None, hx_tunnel = [], hx_relay = None\<rparr>)
      | Inr (request, rest) \<Rightarrow>
          if \<not> http_authorized base64_decode request config
          then
            let realm = if hp_realm config = [] then ''Hysteria'' else hp_realm config in
            (Inr (),
             \<lparr>hx_reply = hq_version request @ '' 407 Proxy Authentication Required'' @ crlf @
                ''Proxy-Authenticate: Basic realm='' @ ''\"'' @ escape_header_value realm @ ''\"'' @ crlf @
                ''Content-Length: 0'' @ crlf @ ''Connection: close'' @ crlf @ crlf,
              hx_target = None, hx_tunnel = [], hx_relay = None\<rparr>)
          else if eq_ignore_ascii_case (hq_method request) ''CONNECT'' then http_handle_connect tcp request rest
          else http_handle_plain tcp request rest)"

section \<open>The head of a request\<close>

lemma head_position_append: "head_position xs = Some p \<Longrightarrow> head_position (xs @ ys) = Some p"
proof (induction xs arbitrary: p)
  case (Cons b xs)
  show ?case
  proof (cases "take 4 (b # xs) = [13, 10, 13, 10]")
    case True
    then have "take 4 (b # xs @ ys) = [13, 10, 13, 10]"
      by (cases xs; cases "tl xs"; cases "tl (tl xs)") auto
    then show ?thesis using Cons.prems True by simp
  next
    case False
    then obtain q where q: "head_position xs = Some q" "p = Suc q" using Cons.prems by auto
    have "take 4 (b # xs @ ys) \<noteq> [13, 10, 13, 10]"
      using False q by (cases xs; cases "tl xs"; cases "tl (tl xs)") auto
    then show ?thesis using Cons.IH [OF q(1)] q(2) by simp
  qed
qed simp

lemma head_position_line: "13 \<notin> set l \<Longrightarrow> head_position (l @ bs) = map_option ((+) (length l)) (head_position bs)"
  by (induction l) (auto simp: option.map_comp comp_def map_option_case split: option.splits)

lemma head_position_break: "hd bs \<noteq> 13 \<Longrightarrow> bs \<noteq> [] \<Longrightarrow> head_position (13 # 10 # bs) = map_option ((+) 2) (head_position bs)"
  by (cases bs) (auto simp: option.map_comp comp_def)

lemma byte_of_char_CR: "byte_of_char c = 13 \<longleftrightarrow> c = CR"
proof -
  have "byte_of_char CR = 13" by code_simp
  then show ?thesis by (metis char_of_byte_of_char)
qed

lemma as_bytes_append: "as_bytes (s @ t) = as_bytes s @ as_bytes t"
  by (simp add: as_bytes_def)

lemma head_position_lines:
  assumes "ls \<noteq> []" and "list_all (\<lambda>l. l \<noteq> [] \<and> CR \<notin> set l) ls"
  shows "head_position (as_bytes (join_with crlf ls @ crlf @ crlf) @ bs) = Some (length (join_with crlf ls))"
  using assms
proof (induction ls)
  case (Cons l ls)
  have l: "13 \<notin> set (as_bytes l)" using Cons.prems by (auto simp: as_bytes_def byte_of_char_CR)
  have breaks: "as_bytes crlf = [13, 10]" by code_simp
  show ?case
  proof (cases "ls = []")
    case True
    then show ?thesis by (simp add: breaks as_bytes_append head_position_line [OF l])
  next
    case False
    define rest where "rest = as_bytes (join_with crlf ls @ crlf @ crlf) @ bs"
    have step: "as_bytes (join_with crlf (l # ls) @ crlf @ crlf) @ bs = as_bytes l @ 13 # 10 # rest"
      using False by (simp add: rest_def join_with_Cons as_bytes_append breaks)
    have "head_position rest = Some (length (join_with crlf ls))" using Cons False by (simp add: rest_def)
    moreover have "rest \<noteq> [] \<and> hd rest \<noteq> 13"
      using False Cons.prems by (cases ls; cases "tl ls"; cases "hd ls") (auto simp: rest_def join_with_Cons as_bytes_def byte_of_char_CR)
    ultimately show ?thesis
      unfolding step head_position_line [OF l] using head_position_break [of rest] False by (simp add: join_with_Cons crlf_def del: head_position.simps)
  qed
qed simp

lemma split_crlf_line:
  assumes "CR \<notin> set l"
  shows "split_crlf (l @ crlf @ s) = l # split_crlf s" and "split_crlf l = [l]"
  using assms by (induction l) (auto simp: split_crlf.simps(2) crlf_def split: list.splits)

lemma split_crlf_lines: "ls \<noteq> [] \<Longrightarrow> list_all (\<lambda>l. l \<noteq> [] \<and> CR \<notin> set l) ls \<Longrightarrow> split_crlf (join_with crlf ls) = ls"
proof (induction ls)
  case (Cons l ls)
  then show ?case by (cases "ls = []") (simp_all add: join_with_Cons split_crlf_line)
qed simp

section \<open>Fields separated by spaces\<close>

definition graphic :: "char \<Rightarrow> bool" where
  "graphic c \<longleftrightarrow> 33 \<le> byte_of_char c \<and> byte_of_char c < 127"

lemma whitespace_not_graphic: "w \<in> set whitespace_seqs \<Longrightarrow> w \<noteq> [] \<and> \<not> graphic (hd w)"
proof -
  have "list_all (\<lambda>w. w \<noteq> [] \<and> \<not> graphic (hd w)) whitespace_seqs" by code_simp
  then show "w \<in> set whitespace_seqs \<Longrightarrow> w \<noteq> [] \<and> \<not> graphic (hd w)" by (simp add: list_all_iff)
qed

lemma find_whitespace_graphic: "graphic c \<Longrightarrow> find (\<lambda>w. w \<noteq> [] \<and> starts_with (c # s) w) whitespace_seqs = None"
  unfolding find_None_iff using whitespace_not_graphic by (fastforce simp: starts_with_iff Cons_eq_append_conv)

lemma whitespace_fields_token:
  "list_all graphic t \<Longrightarrow> whitespace_fields acc (t @ s) = whitespace_fields (rev t @ acc) s"
proof (induction t arbitrary: acc)
  case (Cons c t)
  then show ?case by (subst whitespace_fields.simps) (simp add: find_whitespace_graphic)
qed simp

lemma split_whitespace_tokens:
  assumes "list_all graphic a" and "list_all graphic b" and "list_all graphic c" and "a \<noteq> []" "b \<noteq> []" "c \<noteq> []"
  shows "split_whitespace (a @ '' '' @ b @ '' '' @ c) = [a, b, c]"
proof -
  have space: "whitespace_fields acc (CHR '' '' # s) = (if acc = [] then [] else [rev acc]) @ whitespace_fields [] s" for acc s
    by (subst whitespace_fields.simps) (simp add: find_whitespace_space)
  have ending: "whitespace_fields acc [] = (if acc = [] then [] else [rev acc])" for acc
    by (subst whitespace_fields.simps) simp
  have "whitespace_fields [] c = [c]"
    using whitespace_fields_token [OF assms(3), of "[]" "[]"] assms(6) by (simp add: ending)
  then show ?thesis
    unfolding split_whitespace_def using assms by (simp add: whitespace_fields_token space)
qed

section \<open>Requests delivered in pieces\<close>

definition header_text :: "string \<times> string \<Rightarrow> string" where
  "header_text = (\<lambda>(name, v). name @ '': '' @ v)"

definition request_text :: "string \<Rightarrow> string \<Rightarrow> string \<Rightarrow> (string \<times> string) list \<Rightarrow> string" where
  "request_text method target version headers =
     join_with crlf ((method @ '' '' @ target @ '' '' @ version) # map header_text headers) @ crlf @ crlf"

definition token :: "string \<Rightarrow> bool" where
  "token s \<longleftrightarrow> s \<noteq> [] \<and> list_all graphic s"

definition field :: "string \<times> string \<Rightarrow> bool" where
  "field = (\<lambda>(name, v). token name \<and> CHR '':'' \<notin> set name \<and> trim v = v \<and> CR \<notin> set v)"

lemma graphic_CR: "\<not> graphic CR" "\<not> graphic (CHR '' '')"
  by code_simp+

lemma token_CR: "token s \<Longrightarrow> CR \<notin> set s"
  using graphic_CR by (auto simp: token_def list_all_iff)

lemma parse_header_text: "field h \<Longrightarrow> parse_header_line (header_text h) = Inr h"
proof -
  assume h: "field h"
  obtain name v where p: "h = (name, v)" by fastforce
  have "split_once (header_text h) (CHR '':'') = Some (name, '' '' @ v)"
    using h split_once_append [of "CHR '':''" name "'' '' @ v"] by (simp add: p field_def header_text_def)
  moreover have "\<not> list_ex (\<lambda>b. b \<le> 32 \<or> 0x7f \<le> b) (as_bytes name)"
    using h by (auto simp: p field_def token_def list_ex_iff list_all_iff as_bytes_def graphic_def word_le_nat_alt word_less_nat_alt)
  ultimately show ?thesis using h by (simp add: parse_header_line_def p field_def token_def trim_space)
qed

lemma try_map_parse_headers: "list_all field hs \<Longrightarrow> try_map parse_header_line (map header_text hs) = Inr hs"
  by (induction hs) (simp_all add: parse_header_text)

lemma parse_request_line_text:
  "token method \<Longrightarrow> token target \<Longrightarrow> token version \<Longrightarrow> starts_with version ''HTTP/'' \<Longrightarrow>
     parse_request_line (method @ '' '' @ target @ '' '' @ version) = Inr (method, target, version)"
  by (simp add: parse_request_line_def split_whitespace_tokens [simplified] token_def)

text \<open>However the connection delivers the text, the loop stops with the whole head in the buffer.\<close>

lemma head_position_bound: "head_position bs = Some p \<Longrightarrow> p + 4 \<le> length bs"
proof (induction bs arbitrary: p)
  case (Cons b bs)
  show ?case
  proof (cases "take 4 (b # bs) = [13, 10, 13, 10]")
    case True
    then have "length (take 4 (b # bs)) = 4" by (simp only: list.size)
    then show ?thesis using Cons.prems True by simp
  qed (use Cons in auto)
qed simp

lemma read_head_pieces:
  assumes "[] \<notin> set pieces" and "buffer @ concat pieces = head @ body"
    and "head_position head = Some p" and "length head = p + 4" and "length head \<le> MAX_HEADER_SIZE"
  shows "\<exists>buffered later. read_head buffer (map Inr pieces) = Inr (p + 4, head @ buffered, map Inr later) \<and>
    buffered @ concat later = body"
  using assms(1,2)
proof (induction pieces arbitrary: buffer)
  case Nil
  then show ?case using head_position_append [OF assms(3), of body] by (subst read_head.simps) auto
next
  case (Cons piece pieces)
  show ?case
  proof (cases "length head \<le> length buffer")
    case True
    then obtain b where "buffer = head @ b" "b @ concat (piece # pieces) = body"
      using Cons.prems(2) by (auto simp: append_eq_append_conv2)
    then show ?thesis using head_position_append [OF assms(3), of b]
      by (subst read_head.simps) (auto intro: exI [of _ "piece # pieces"])
  next
    case False
    have "head_position buffer = None"
    proof (rule ccontr)
      assume "head_position buffer \<noteq> None"
      then obtain q where q: "head_position buffer = Some q" by blast
      then have "q = p"
        using head_position_append [OF q, of "concat (piece # pieces)"] Cons.prems(2) head_position_append [OF assms(3), of body] by simp
      then show False using head_position_bound [OF q] False assms(4) by simp
    qed
    then show ?thesis using Cons.IH [of "buffer @ piece"] Cons.prems False assms(5) by (subst read_head.simps) auto
  qed
qed

lemma not_continuation_CR: "\<not> is_continuation (byte_of_char CR)"
  by code_simp

lemma read_request_pieces:
  assumes "concat pieces = as_bytes (request_text method target version headers) @ body" and "[] \<notin> set pieces"
    and "length (request_text method target version headers) \<le> MAX_HEADER_SIZE"
    and "valid_string (request_text method target version headers)"
    and "token method" "token target" "token version" "starts_with version ''HTTP/''" and "list_all field headers"
  shows "\<exists>buffered later. read_request (map Inr pieces) =
      Inr (\<lparr>hq_method = method, hq_target = target, hq_version = version, hq_headers = headers,
            hq_buffered_body = buffered\<rparr>, map Inr later) \<and> buffered @ concat later = body"
proof -
  define ls where "ls = (method @ '' '' @ target @ '' '' @ version) # map header_text headers"
  define h where "h = join_with crlf ls"
  define head where "head = as_bytes (h @ crlf @ crlf)"
  have request: "request_text method target version headers = h @ crlf @ crlf"
    by (simp add: request_text_def h_def ls_def)
  have lines: "list_all (\<lambda>l. l \<noteq> [] \<and> CR \<notin> set l) ls"
    using assms(5-7,9) token_CR by (auto simp: ls_def list_all_iff header_text_def field_def token_def)
  have ne: "ls \<noteq> []" by (simp add: ls_def)
  have pos: "head_position head = Some (length h)"
    using head_position_lines [OF ne lines, of "[]"] by (simp add: head_def h_def)
  have len: "length head = length h + 4" by (simp add: head_def crlf_def)
  obtain buffered later where read: "read_head [] (map Inr pieces) = Inr (length h + 4, head @ buffered, map Inr later)"
    and rest: "buffered @ concat later = body"
    using read_head_pieces [OF assms(2) _ pos len, of "[]" body] assms(1,3) by (auto simp: request head_def)
  have h: "take (length h) head = as_bytes h" by (simp add: head_def as_bytes_append)
  have d: "drop (length h + 4) (head @ buffered) = buffered" using len by simp
  have "is_char_boundary (h @ crlf @ crlf) (length h)"
    using not_continuation_CR by (simp add: is_char_boundary_def nth_append crlf_def)
  then have "valid_string h" using valid_string_take [OF assms(4) [unfolded request], of "length h"] by simp
  then have valid: "utf8_valid (as_bytes h)" by (simp add: valid_string_def)
  have split: "split_crlf h = ls" unfolding h_def by (rule split_crlf_lines [OF ne lines])
  show ?thesis
    using rest by (simp add: read_request_def read h d valid split ls_def len parse_request_line_text [simplified]
        assms(5-8) try_map_parse_headers [OF assms(9)] Let_def)
qed

definition proxy_header :: "string \<times> string \<Rightarrow> bool" where
  "proxy_header h \<longleftrightarrow> eq_ignore_ascii_case (fst h) ''proxy-authorization'' \<or> eq_ignore_ascii_case (fst h) ''proxy-connection''"

lemma forwarded_headers:
  "crlf @ concat (map forwarded_header hs) =
     concat (map (\<lambda>h. crlf @ header_text h) (filter (\<lambda>h. \<not> proxy_header h) hs)) @ crlf"
  by (induction hs) (auto simp: header_text_def proxy_header_def)

lemma request_text_eq:
  "request_text method target version headers =
     method @ '' '' @ target @ '' '' @ version @ concat (map (\<lambda>h. crlf @ header_text h) headers) @ crlf @ crlf"
proof -
  have "join_with crlf (l # map header_text hs) = l @ concat (map (\<lambda>h. crlf @ header_text h) hs)" for l hs
    by (induction hs arbitrary: l) (simp_all add: join_with_Cons)
  then show ?thesis by (simp add: request_text_def)
qed

text \<open>A tunnel to the target of a \<open>CONNECT\<close> request carries everything that follows the head of the request.\<close>

lemma http_connect_tunnel:
  assumes "concat pieces = as_bytes (request_text method target version headers) @ body" and "[] \<notin> set pieces"
    and "length (request_text method target version headers) \<le> MAX_HEADER_SIZE"
    and "valid_string (request_text method target version headers)"
    and "token method" "token target" "token version" "starts_with version ''HTTP/''" and "list_all field headers"
    and "eq_ignore_ascii_case method ''CONNECT''" and "normalize_authority target 80 = Inr authority" and "tcp authority = Inr ()"
    and "\<And>b. http_authorized base64_decode \<lparr>hq_method = method, hq_target = target, hq_version = version,
           hq_headers = headers, hq_buffered_body = b\<rparr> config"
  shows "\<exists>buffered later. http_handle_connection base64_decode tcp config (map Inr pieces) =
      (Inr (), \<lparr>hx_reply = version @ '' 200 OK'' @ crlf @ crlf, hx_target = Some authority,
                hx_tunnel = buffered, hx_relay = Some (map Inr later)\<rparr>) \<and> buffered @ concat later = body"
  using read_request_pieces [OF assms(1-9)] assms(10-13)
  by (auto simp: http_handle_connection_def http_handle_connect_def)

text \<open>
  C23: A request for an \<open>http\<close> URL reaches the host of the URL however the connection delivers it: the target gets
  the request with the path of the URL and without the headers meant for the proxy, followed by exactly what followed
  the head. What follows is passed on as it is, so further requests on the same connection go to the first
  host with their proxy headers.
\<close>

theorem http_request_forwarded:
  assumes "concat pieces = as_bytes (request_text method target version headers) @ body" and "[] \<notin> set pieces"
    and "length (request_text method target version headers) \<le> MAX_HEADER_SIZE"
    and "valid_string (request_text method target version headers)"
    and "token method" "token target" "token version" "starts_with version ''HTTP/''" and "list_all field headers"
    and "\<not> eq_ignore_ascii_case method ''CONNECT''" and "parse_absolute_http_target target = Inr (authority, path)"
    and "tcp authority = Inr ()"
    and "http_authorized base64_decode \<lparr>hq_method = method, hq_target = target, hq_version = version,
           hq_headers = headers, hq_buffered_body = []\<rparr> config"
  shows "\<exists>sent later. http_handle_connection base64_decode tcp config (map Inr pieces) =
      (Inr (), \<lparr>hx_reply = [], hx_target = Some authority, hx_tunnel = sent, hx_relay = Some (map Inr later)\<rparr>) \<and>
    sent @ concat later =
      as_bytes (request_text method path version (filter (\<lambda>h. \<not> proxy_header h) headers)) @ body"
proof -
  obtain buffered later where read: "read_request (map Inr pieces) =
      Inr (\<lparr>hq_method = method, hq_target = target, hq_version = version, hq_headers = headers,
            hq_buffered_body = buffered\<rparr>, map Inr later)" and body: "buffered @ concat later = body"
    using read_request_pieces [OF assms(1-9)] by blast
  have "http_authorized base64_decode \<lparr>hq_method = method, hq_target = target, hq_version = version,
      hq_headers = headers, hq_buffered_body = buffered\<rparr> config"
    using assms(13) by (simp add: http_authorized_def)
  then have "http_handle_connection base64_decode tcp config (map Inr pieces) =
      (Inr (), \<lparr>hx_reply = [], hx_target = Some authority,
         hx_tunnel = as_bytes (method @ '' '' @ path @ '' '' @ version @ (crlf @ concat (map forwarded_header headers)) @ crlf) @ buffered,
         hx_relay = Some (map Inr later)\<rparr>)"
    using assms(10-12) by (simp add: http_handle_connection_def http_handle_plain_def read Let_def)
  then show ?thesis unfolding forwarded_headers using body by (simp add: request_text_eq)
qed

definition open_proxy :: http_proxy_config where
  "open_proxy = \<lparr>hp_listen = ''127.0.0.1:8080'', hp_username = [], hp_password = [], hp_realm = []\<rparr>"

theorem http_request_forwarded_witness:
  "\<exists>sent later. http_handle_connection (\<lambda>_. None) (\<lambda>_. Inr ()) open_proxy
      (map Inr [as_bytes ''GET http://a/b HT'', as_bytes (''TP/1.1'' @ crlf @ ''A: b'' @ [CR]), as_bytes (LF # crlf @ ''x'')]) =
      (Inr (), \<lparr>hx_reply = [], hx_target = Some ''a:80'', hx_tunnel = sent, hx_relay = Some (map Inr later)\<rparr>) \<and>
    sent @ concat later =
      as_bytes (request_text ''GET'' ''/b'' ''HTTP/1.1'' (filter (\<lambda>h. \<not> proxy_header h) [(''A'', ''b'')])) @ as_bytes ''x''"
proof (rule http_request_forwarded)
  show "concat [as_bytes ''GET http://a/b HT'', as_bytes (''TP/1.1'' @ crlf @ ''A: b'' @ [CR]), as_bytes (LF # crlf @ ''x'')] =
      as_bytes (request_text ''GET'' ''http://a/b'' ''HTTP/1.1'' [(''A'', ''b'')]) @ as_bytes ''x''"
    by code_simp
  show "[] \<notin> set [as_bytes ''GET http://a/b HT'', as_bytes (''TP/1.1'' @ crlf @ ''A: b'' @ [CR]), as_bytes (LF # crlf @ ''x'')]"
    by (simp add: as_bytes_def)
  show "length (request_text ''GET'' ''http://a/b'' ''HTTP/1.1'' [(''A'', ''b'')]) \<le> MAX_HEADER_SIZE"
    by (simp add: request_text_eq header_text_def crlf_def)
  show "valid_string (request_text ''GET'' ''http://a/b'' ''HTTP/1.1'' [(''A'', ''b'')])" by code_simp
  show "list_all field [(''A'', ''b'')]" by code_simp
  show "parse_absolute_http_target ''http://a/b'' = Inr (''a:80'', ''/b'')" by code_simp
qed (simp add: http_authorized_def open_proxy_def | code_simp)+

text \<open>
  C24: With a user name configured, the proxy asks for a tunnel and joins a connection only for a request that carries the
  configured user name and password in a \<open>Proxy-Authorization\<close> header of its head; every other request that
  can be read is answered with status 407 and nothing else.
\<close>

theorem http_proxy_requires_credentials:
  assumes "hp_username config \<noteq> []" and "read_request reads = Inr (request, rest)"
    and "http_handle_connection base64_decode tcp config reads = (r, exchange)"
  shows "(\<exists>name v encoded. (name, v) \<in> set (hq_headers request) \<and> eq_ignore_ascii_case name ''proxy-authorization'' \<and>
      v = take 6 v @ encoded \<and> eq_ignore_ascii_case (take 6 v) ''basic '' \<and>
      base64_decode encoded = Some (as_bytes (hp_username config @ '':'' @ hp_password config))) \<or>
    r = Inr () \<and> hx_target exchange = None \<and> hx_tunnel exchange = [] \<and> hx_relay exchange = None \<and>
    starts_with (hx_reply exchange) (hq_version request @ '' 407 Proxy Authentication Required'' @ crlf)"
proof (cases "http_authorized base64_decode request config")
  case True
  then obtain name v encoded where h: "(name, v) \<in> set (hq_headers request)" "eq_ignore_ascii_case name ''proxy-authorization''"
    and d: "base64_decode encoded = Some (as_bytes (hp_username config @ '':'' @ hp_password config))"
    and e: "Option.bind (str_get v 0 6) (\<lambda>prefix. if eq_ignore_ascii_case prefix ''basic '' then str_get v 6 (length v) else None) = Some encoded"
    using assms(1) by (auto simp: http_authorized_def list_ex_iff split: option.splits)
  from e have "eq_ignore_ascii_case (take 6 v) ''basic ''" "encoded = drop 6 v"
    by (auto simp: bind_eq_Some_conv str_get_def split: if_splits)
  then show ?thesis using h d by (metis append_take_drop_id)
next
  case False
  then show ?thesis using assms by (auto simp: http_handle_connection_def starts_with_iff Let_def)
qed

definition locked_http_proxy :: http_proxy_config where
  "locked_http_proxy = open_proxy\<lparr>hp_username := ''u'', hp_password := ''p''\<rparr>"

lemma locked_proxy_request:
  "read_request [Inr (as_bytes (''GET http://a/ HTTP/1.1'' @ crlf @ crlf))] =
     Inr (\<lparr>hq_method = ''GET'', hq_target = ''http://a/'', hq_version = ''HTTP/1.1'', hq_headers = [], hq_buffered_body = []\<rparr>, [])"
  by code_simp

theorem http_proxy_requires_credentials_witness:
  "\<exists>r exchange. http_handle_connection (\<lambda>_. None) (\<lambda>_. Inr ()) locked_http_proxy
      [Inr (as_bytes (''GET http://a/ HTTP/1.1'' @ crlf @ crlf))] = (r, exchange) \<and> hx_target exchange = None \<and>
    starts_with (hx_reply exchange) (''HTTP/1.1 407 Proxy Authentication Required'' @ crlf)"
proof -
  obtain r exchange where e: "http_handle_connection (\<lambda>_. None) (\<lambda>_. Inr ()) locked_http_proxy
      [Inr (as_bytes (''GET http://a/ HTTP/1.1'' @ crlf @ crlf))] = (r, exchange)" by fastforce
  have "hp_username locked_http_proxy \<noteq> []" by (simp add: locked_http_proxy_def)
  from http_proxy_requires_credentials [OF this locked_proxy_request e] show ?thesis using e by simp
qed

end
