(* ===== verification/Realm_Addr.thy ===== *)
theory Realm_Addr
  imports Resolver
begin

text \<open>
  Rendezvous addresses (\<open>hysteria-realm/src/addr.rs\<close>). The URL library and the percent decoder are parameters;
  what the code reads of a parsed URL is a record.
\<close>

record full_url = url +
  fu_port :: "u16 option"
  fu_query :: "string option"
  fu_fragment :: "string option"
  fu_query_pairs :: "(string \<times> string) list"
  fu_cannot_be_a_base :: bool

type_synonym url_parser = "string \<Rightarrow> full_url option"

datatype realm_addr_error = InvalidScheme | InvalidRealm string

record realm_addr =
  rz_scheme :: string
  rz_rendezvous_scheme :: string
  rz_token :: string
  rz_host :: string
  rz_port :: u16
  rz_realm_id :: string
  rz_local_port :: "u16 option"
  rz_params :: "(string, string list) hmap"

definition decoded_userinfo :: "(string \<Rightarrow> bytes) \<Rightarrow> full_url \<Rightarrow> realm_addr_error + string" where
  "decoded_userinfo percent_decode url =
     (if url_username url = [] then Inl (InvalidRealm ''realm token is required'')
      else
        let encoded = (case url_password url of None \<Rightarrow> url_username url
                       | Some password \<Rightarrow> url_username url @ '':'' @ password);
            decoded = percent_decode encoded in
        if \<not> utf8_valid decoded then Inl (InvalidRealm ''realm token is invalid UTF-8'')
        else if decoded = [] then Inl (InvalidRealm ''realm token is required'')
        else Inr (of_bytes decoded))"

definition decoded_realm_id :: "(string \<Rightarrow> bytes) \<Rightarrow> full_url \<Rightarrow> realm_addr_error + string" where
  "decoded_realm_id percent_decode url =
     (let encoded = unwrap_or (url_path url) (strip_prefix (url_path url) ''/'') in
      if encoded = [] \<or> CHR ''/'' \<in> set encoded then Inl (InvalidRealm ''realm id must be a single path segment'')
      else
        let decoded = percent_decode encoded in
        if \<not> utf8_valid decoded then Inl (InvalidRealm ''realm id is invalid UTF-8'')
        else if decoded = [] \<or> CHR ''/'' \<in> set (of_bytes decoded)
        then Inl (InvalidRealm ''realm id must be a single path segment'')
        else Inr (of_bytes decoded))"

definition realm_addr_parse :: "url_parser \<Rightarrow> (string \<Rightarrow> bytes) \<Rightarrow> string \<Rightarrow> realm_addr_error + realm_addr" where
  "realm_addr_parse parse_url percent_decode input =
     and_then (ok_or (InvalidRealm ''{error}'') (parse_url input)) (\<lambda>url.
     and_then (if url_scheme url = ''realm'' then Inr (''https'', 443 :: u16)
               else if url_scheme url = ''realm+http'' then Inr (''http'', 80)
               else Inl InvalidScheme) (\<lambda>(rendezvous_scheme, default_port).
     and_then (ensure (\<not> (fu_cannot_be_a_base url \<or> fu_fragment url \<noteq> None \<or> ends_with input ''?''))
       (InvalidRealm ''opaque addresses, fragments, and empty query markers are not supported'')) (\<lambda>_.
     and_then (case url_host url of
                 None \<Rightarrow> Inl (InvalidRealm ''rendezvous host is required'')
               | Some host \<Rightarrow> if host = [] then Inl (InvalidRealm ''rendezvous host is required'') else Inr host) (\<lambda>host.
     and_then (decoded_userinfo percent_decode url) (\<lambda>token.
     and_then (decoded_realm_id percent_decode url) (\<lambda>realm_id.
       let port = unwrap_or default_port (fu_port url);
           params = foldl (\<lambda>params (name, v). hm_insert name (unwrap_or [] (hm_get params name) @ [v]) params) [] (fu_query_pairs url) in
       and_then (case hm_get params ''lport'' of
                   None \<Rightarrow> Inr None
                 | Some [v] \<Rightarrow>
                     and_then (ok_or (InvalidRealm ''lport must be an integer in 1-65535'') (parse_u16 v)) (\<lambda>p. Inr (Some p))
                 | Some _ \<Rightarrow> Inl (InvalidRealm ''lport must be specified at most once'')) (\<lambda>local_port.
       and_then (ensure (local_port \<noteq> Some 0) (InvalidRealm ''lport must be an integer in 1-65535'')) (\<lambda>_.
       Inr \<lparr>rz_scheme = url_scheme url, rz_rendezvous_scheme = rendezvous_scheme, rz_token = token, rz_host = host,
            rz_port = port, rz_realm_id = realm_id, rz_local_port = local_port, rz_params = params\<rparr>))))))))"

section \<open>Parsed addresses\<close>

lemma realm_addr_parse_ok:
  assumes "realm_addr_parse parse_url percent_decode input = Inr a"
  shows "rz_token a \<noteq> []" and "rz_host a \<noteq> []" and "rz_realm_id a \<noteq> []" and "CHR ''/'' \<notin> set (rz_realm_id a)"
    and "rz_local_port a \<noteq> Some 0" and "rz_rendezvous_scheme a = (if rz_scheme a = ''realm'' then ''https'' else ''http'')"
  using assms
  by (auto simp: realm_addr_parse_def decoded_userinfo_def decoded_realm_id_def and_then_eq_Inr ensure_def Let_def
      of_bytes_def split: if_splits option.splits)

text \<open>The parameters of an address are the values of each name in the order of the query.\<close>

lemma realm_params:
  "hm_get (foldl (\<lambda>params (name, v). hm_insert name (unwrap_or [] (hm_get params name) @ [v]) params) [] pairs) name =
     (case map snd (filter (\<lambda>p. fst p = name) pairs) of [] \<Rightarrow> None | vs \<Rightarrow> Some vs)"
proof (induction pairs rule: rev_induct)
  case (snoc p pairs)
  then show ?case by (cases p) (auto simp: hm.get_insert unwrap_or_def split: list.splits)
qed simp

end
