(* ===== verification/Sniff.thy ===== *)
theory Sniff
  imports Tcp_Proxy Config_Types Varint "HOL-Library.Multiset"
begin

text \<open>
  Protocol sniffing of the server (\<open>hysteria/src/sniff.rs\<close>): the host name in the first bytes of a proxied
  connection, from an HTTP request, a TLS client hello or a QUIC initial packet, replaces the host of the
  requested address. The TLS and AEAD operations behind QUIC's initial keys are parameters; what the vendored
  \<open>quinn-proto\<close> does around them with lengths and offsets is modelled, panics included.
\<close>

section \<open>Text and bytes\<close>

abbreviation (input) MAX_HTTP_HEADER :: usize where "MAX_HTTP_HEADER \<equiv> 256 * 1024"

abbreviation (input) DEFAULT_TIMEOUT :: nat where "DEFAULT_TIMEOUT \<equiv> 4 * 1000000000"

text \<open>\<open>usize::checked_add\<close> on a machine of 64 bits, \<open>trim_matches\<close> with two characters, and \<open>Iterator::find_map\<close>.\<close>

definition checked_add :: "usize \<Rightarrow> usize \<Rightarrow> usize option" where
  "checked_add a b = (if a + b < 2 ^ 64 then Some (a + b) else None)"

definition trim_matches :: "char set \<Rightarrow> string \<Rightarrow> string" where
  "trim_matches cs s = rev (dropWhile (\<lambda>c. c \<in> cs) (rev (dropWhile (\<lambda>c. c \<in> cs) s)))"

fun find_map :: "('a \<Rightarrow> 'b option) \<Rightarrow> 'a list \<Rightarrow> 'b option" where
  "find_map f [] = None"
| "find_map f (x # xs) = (case f x of Some y \<Rightarrow> Some y | None \<Rightarrow> find_map f xs)"

definition read_u16_at :: "bytes \<Rightarrow> usize \<Rightarrow> usize option" where
  "read_u16_at data position =
     Option.bind (get_at data position) (\<lambda>a. Option.bind (get_at data (position + 1)) (\<lambda>b.
     Some (unat (from_be_bytes [a, b] :: u16))))"

definition skip_u8_vector :: "bytes \<Rightarrow> usize \<Rightarrow> usize option" where
  "skip_u8_vector data position = Option.bind (get_at data position) (\<lambda>n. checked_add position (1 + unat n))"

definition skip_u16_vector :: "bytes \<Rightarrow> usize \<Rightarrow> usize option" where
  "skip_u16_vector data position = Option.bind (read_u16_at data position) (\<lambda>n. checked_add position (2 + n))"

definition split_address :: "string \<Rightarrow> (string \<times> u16) option" where
  "split_address address =
     Option.bind (rsplit_once address (CHR '':'')) (\<lambda>(host, port).
     map_option (Pair (trim_matches {CHR ''['', CHR '']''} host)) (parse_u16 port))"

definition rewrite_host :: "string \<Rightarrow> string \<Rightarrow> transport_error + string" where
  "rewrite_host address host =
     and_then (ok_or (Protocol ''invalid sniff request address'') (split_address address)) (\<lambda>(_, port).
     Inr (if whole (read_ipv6 host) \<noteq> None then ''['' @ host @ '']:'' @ uint_string port
          else host @ '':'' @ uint_string port))"

definition strip_host_port :: "string \<Rightarrow> string" where
  "strip_host_port host =
     (if starts_with host ''['' then
        unwrap_or host (Option.bind (strip_prefix host ''['') (\<lambda>h. map_option fst (split_once h (CHR '']''))))
      else
        (case rsplit_once host (CHR '':'') of
           Some (h, port) \<Rightarrow> if parse_u16 port \<noteq> None then h else host
         | None \<Rightarrow> host))"

definition parse_optional_ports :: "string \<Rightarrow> string \<Rightarrow> cli_error + (u16 \<times> u16) list option" where
  "parse_optional_ports v field =
     (if trim v = [] then Inr None
      else
        and_then (try_map (\<lambda>entry.
            let (start, stop) = unwrap_or (entry, entry) (split_once entry (CHR ''-'')) in
            and_then (ok_or (CliError ''invalid {} port union'' [field]) (parse_u16 start)) (\<lambda>start.
            and_then (ok_or (CliError ''invalid {} port union'' [field]) (parse_u16 stop)) (\<lambda>stop.
            Inr (if start > stop then (stop, start) else (start, stop)))))
          (split_char (CHR '','') v)) (\<lambda>ranges. Inr (Some ranges)))"

section \<open>The client hello\<close>

text \<open>
  The loops over server names and over extensions. A result \<open>Some r\<close> is a return of the function with \<open>r\<close>,
  and \<open>None\<close> the end of the loop.
\<close>

function sni_names :: "bytes \<Rightarrow> usize \<Rightarrow> usize \<Rightarrow> 'e fault + string option option" where
  "sni_names data list_end name =
     (if name + 3 \<le> list_end then
        and_then (index_at data name) (\<lambda>name_kind.
        (case read_u16_at data (name + 1) of
           None \<Rightarrow> Inr (Some None)
         | Some name_length \<Rightarrow>
             (case checked_add (name + 3) name_length of
                None \<Rightarrow> Inr (Some None)
              | Some name_end \<Rightarrow>
                  if list_end < name_end then Inr (Some None)
                  else if name_kind = 0 then
                    and_then (slice_range data (name + 3) name_end) (\<lambda>bs.
                    Inr (Some (if utf8_valid bs then Some (of_bytes bs) else None)))
                  else sni_names data list_end name_end)))
      else Inr None)"
  by pat_completeness auto
termination
  by (relation "measure (\<lambda>(data, list_end, name). list_end - name)") (auto simp: checked_add_def split: if_splits)

declare sni_names.simps [simp del]

definition server_name_extension :: "bytes \<Rightarrow> usize \<Rightarrow> usize \<Rightarrow> 'e fault + string option option" where
  "server_name_extension data position extension_end =
     (case read_u16_at data position of
        None \<Rightarrow> Inr (Some None)
      | Some list_length \<Rightarrow>
          (case checked_add (position + 2) list_length of
             None \<Rightarrow> Inr (Some None)
           | Some list_end \<Rightarrow> sni_names data (min list_end extension_end) (position + 2)))"

function sni_extensions :: "bytes \<Rightarrow> usize \<Rightarrow> usize \<Rightarrow> 'e fault + string option" where
  "sni_extensions data end_pos position =
     (if position + 4 \<le> end_pos then
        (case read_u16_at data position of
           None \<Rightarrow> Inr None
         | Some kind \<Rightarrow>
             (case read_u16_at data (position + 2) of
                None \<Rightarrow> Inr None
              | Some len \<Rightarrow>
                  (case checked_add (position + 4) len of
                     None \<Rightarrow> Inr None
                   | Some extension_end \<Rightarrow>
                       if end_pos < extension_end then Inr None
                       else
                         (case (if kind = 0 \<and> 5 \<le> len
                                then server_name_extension data (position + 4) extension_end else Inr None) of
                            Inl e \<Rightarrow> Inl e
                          | Inr (Some r) \<Rightarrow> Inr r
                          | Inr None \<Rightarrow> sni_extensions data end_pos extension_end))))
      else Inr None)"
  by pat_completeness auto
termination
  by (relation "measure (\<lambda>(data, end_pos, position). end_pos - position)") (auto simp: checked_add_def split: if_splits)

declare sni_extensions.simps [simp del]

definition parse_client_hello_sni :: "bytes \<Rightarrow> 'e fault + string option" where
  "parse_client_hello_sni data =
     (if get_at data 0 \<noteq> Some 1 \<or> length data < 42 then Inr None
      else
        (case Option.bind (skip_u8_vector data (4 + 2 + 32)) (\<lambda>p. Option.bind (skip_u16_vector data p) (skip_u8_vector data)) of
           None \<Rightarrow> Inr None
         | Some position \<Rightarrow>
             (case read_u16_at data position of
                None \<Rightarrow> Inr None
              | Some extensions_length \<Rightarrow>
                  (case checked_add (position + 2) extensions_length of
                     None \<Rightarrow> Inr None
                   | Some end_pos \<Rightarrow> sni_extensions data (min end_pos (length data)) (position + 2)))))"

section \<open>Connections\<close>

text \<open>
  The receiving half of a stream up to the deadline: the bytes that arrive before it and how they end. How
  the bytes are cut into reads does not matter, since every loop reads on until it has enough.
\<close>

datatype recv_ending = StreamEnd | DeadlineReached | RecvFailed string

definition read_up_to ::
  "recv_ending \<Rightarrow> usize \<Rightarrow> bytes \<Rightarrow> bytes \<Rightarrow> (transport_error + bool) \<times> bytes \<times> bytes" where
  "read_up_to ending len captured input =
     (let n = len - length captured in
      if n \<le> length input then (Inr True, captured @ take n input, drop n input)
      else
        (case ending of
           RecvFailed e \<Rightarrow> (Inl (Io e), captured @ input, [])
         | _ \<Rightarrow> (Inr False, captured @ input, [])))"

function http_header ::
  "recv_ending \<Rightarrow> bytes \<Rightarrow> bytes \<Rightarrow> (transport_error + unit) \<times> bytes \<times> bytes" where
  "http_header ending captured input =
     (if \<not> (drop (length captured - 4) captured = as_bytes [CHR 0x0D, CHR 0x0A, CHR 0x0D, CHR 0x0A]) \<and>
         length captured < MAX_HTTP_HEADER then
        (case read_up_to ending (length captured + 1) captured input of
           (Inl e, captured, input) \<Rightarrow> (Inl e, captured, input)
         | (Inr False, captured, input) \<Rightarrow> (Inr (), captured, input)
         | (Inr True, captured, input) \<Rightarrow> http_header ending captured input)
      else (Inr (), captured, input))"
  by pat_completeness auto
termination
  by (relation "measure (\<lambda>(ending, captured, input). length input)")
    (auto simp: read_up_to_def Let_def split: if_splits recv_ending.splits)

declare http_header.simps [simp del]

definition http_host :: "bytes \<Rightarrow> string option" where
  "http_host captured =
     find_map (\<lambda>line. Option.bind (split_once line (CHR '':'')) (\<lambda>(name, v).
         if eq_ignore_ascii_case name ''host'' then Some (strip_host_port (trim v)) else None))
       (str_lines (from_utf8_lossy captured))"

definition read_http_host ::
  "recv_ending \<Rightarrow> bytes \<Rightarrow> bytes \<Rightarrow> (transport_error fault + string option) \<times> bytes \<times> bytes" where
  "read_http_host ending captured input =
     (case http_header ending captured input of
        (Inl e, captured, input) \<Rightarrow> (Inl (Err e), captured, input)
      | (Inr _, captured, input) \<Rightarrow> (Inr (http_host captured), captured, input))"

definition read_tls_sni ::
  "recv_ending \<Rightarrow> bytes \<Rightarrow> bytes \<Rightarrow> (transport_error fault + string option) \<times> bytes \<times> bytes" where
  "read_tls_sni ending captured input =
     (case read_up_to ending 5 captured input of
        (Inl e, captured, input) \<Rightarrow> (Inl (Err e), captured, input)
      | (Inr False, captured, input) \<Rightarrow> (Inr None, captured, input)
      | (Inr True, captured, input) \<Rightarrow>
          (let len = unat (from_be_bytes [captured ! 3, captured ! 4] :: u16) in
           case read_up_to ending (5 + len) captured input of
             (Inl e, captured, input) \<Rightarrow> (Inl (Err e), captured, input)
           | (Inr False, captured, input) \<Rightarrow> (Inr None, captured, input)
           | (Inr True, captured, input) \<Rightarrow> (parse_client_hello_sni (drop 5 captured), captured, input)))"

abbreviation (input) is_tls :: "bytes \<Rightarrow> bool" where
  "is_tls bs \<equiv> (get_at bs 0 = Some 0x16 \<or> get_at bs 0 = Some 0x17) \<and> get_at bs 1 = Some 3 \<and> bs ! 2 \<le> 9"

text \<open>
  The hook on a TCP stream: what it took off the stream, what is left of it, and the address. When it
  fails, the address is as it was.
\<close>

definition sniff_tcp ::
  "recv_ending \<Rightarrow> bytes \<Rightarrow> string \<Rightarrow> (transport_error fault + bytes) \<times> bytes \<times> string" where
  "sniff_tcp ending input address =
     (case read_up_to ending 3 [] input of
        (Inl e, _, input) \<Rightarrow> (Inl (Err e), input, address)
      | (Inr False, captured, input) \<Rightarrow> (Inr captured, input, address)
      | (Inr True, captured, input) \<Rightarrow>
          (case (if list_all (\<lambda>b. is_ascii_alphabetic (char_of_byte b)) (take 3 captured)
                 then read_http_host ending captured input
                 else if is_tls captured then read_tls_sni ending captured input
                 else (Inr None, captured, input)) of
             (Inl e, _, input) \<Rightarrow> (Inl e, input, address)
           | (Inr None, captured, input) \<Rightarrow> (Inr captured, input, address)
           | (Inr (Some host), captured, input) \<Rightarrow>
               (case rewrite_host address host of
                  Inl e \<Rightarrow> (Inl (Err e), input, address)
                | Inr address \<Rightarrow> (Inr captured, input, address))))"

section \<open>QUIC initial packets\<close>

definition read_quic_varint :: "bytes \<Rightarrow> (u64 \<times> usize) option" where
  "read_quic_varint bs =
     (case bs of
        [] \<Rightarrow> None
      | first # _ \<Rightarrow>
          (let len = push_bit (unat (drop_bit 6 first)) (1 :: nat) in
           if length bs < len then None
           else Some (foldl be_step 0 ((first AND 0x3f) # take (len - 1) (tl bs)) :: u64, len)))"

definition decode_packet_number :: "u64 \<Rightarrow> u64 \<Rightarrow> usize \<Rightarrow> u64" where
  "decode_packet_number largest truncated len =
     (let expected = largest + 1;
          window = push_bit (len * 8) 1;
          half_window = window div 2;
          mask = window - 1;
          candidate = (expected AND NOT mask) OR truncated in
      if candidate + half_window \<le> expected \<and> candidate < push_bit 62 1 - window then candidate + window
      else if candidate > expected + half_window \<and> candidate \<ge> window then candidate - window
      else candidate)"

text \<open>A \<open>BTreeMap\<close> as the list of its entries, sorted by key.\<close>

fun btree_insert :: "'k::linorder \<Rightarrow> 'v \<Rightarrow> ('k \<times> 'v) list \<Rightarrow> ('k \<times> 'v) list" where
  "btree_insert k v [] = [(k, v)]"
| "btree_insert k v ((k', v') # m) =
     (if k < k' then (k, v) # (k', v') # m
      else if k = k' then (k, v) # m
      else (k', v') # btree_insert k v m)"

lemma read_quic_varint_length: "read_quic_varint bs = Some (v, n) \<Longrightarrow> 0 < n \<and> n \<le> length bs"
  by (auto simp: read_quic_varint_def Let_def push_bit_eq_mult split: list.splits if_splits)

function crypto_frames :: "(u64 \<times> bytes) list \<Rightarrow> bytes \<Rightarrow> (u64 \<times> bytes) list option" where
  "crypto_frames frames payload =
     (if payload = [] then Some frames
      else
        (case read_quic_varint payload of
           None \<Rightarrow> None
         | Some (kind, kind_length) \<Rightarrow>
             if kind = 0 \<or> kind = 1 then crypto_frames frames (drop kind_length payload)
             else if kind \<noteq> 6 then None
             else
               (let payload = drop kind_length payload in
                case read_quic_varint payload of
                  None \<Rightarrow> None
                | Some (offset, offset_length) \<Rightarrow>
                    (let payload = drop offset_length payload in
                     case read_quic_varint payload of
                       None \<Rightarrow> None
                     | Some (len, length_bytes) \<Rightarrow>
                         (let payload = drop length_bytes payload; len = unat len in
                          if 256 * 1024 < len \<or> length payload < len then None
                          else crypto_frames (btree_insert offset (take len payload) frames) (drop len payload))))))"
  by pat_completeness auto
termination
  by (relation "measure (\<lambda>(frames, payload). length payload)") (auto dest!: read_quic_varint_length)

declare crypto_frames.simps [simp del]

fun join_frames :: "bytes \<Rightarrow> (u64 \<times> bytes) list \<Rightarrow> bytes option" where
  "join_frames result [] = (if result = [] then None else Some result)"
| "join_frames result ((offset, frame) # frames) =
     (if unat offset \<noteq> length result \<or> 256 * 1024 < length result + length frame then None
      else join_frames (result @ frame) frames)"

definition extract_crypto_frames :: "bytes \<Rightarrow> bytes option" where
  "extract_crypto_frames payload = Option.bind (crypto_frames [] payload) (join_frames [])"

text \<open>
  What \<open>quinn-proto\<close> does: a connection id has room for twenty bytes; only the versions 1 and the drafts 29 to
  34 have initial keys; removing header protection takes a sample four bytes behind the packet number and
  panics where the packet is too short for it.
\<close>

abbreviation (input) MAX_CID_SIZE :: usize where "MAX_CID_SIZE \<equiv> 20"

definition connection_id_new :: "bytes \<Rightarrow> 'e fault + bytes" where
  "connection_id_new bs = (if MAX_CID_SIZE < length bs then Inl Panic else Inr bs)"

datatype quic_version = V1Draft | V1

definition interpret_version :: "u32 \<Rightarrow> quic_version option" where
  "interpret_version version =
     (if 0xff00001d \<le> version \<and> version \<le> 0xff000020 then Some V1Draft
      else if version = 1 \<or> 0xff000021 \<le> version \<and> version \<le> 0xff000022 then Some V1
      else None)"

text \<open>
  The parameters: whether the TLS library gives a configuration, the keys of a version and connection id, the
  size of the sample, the removal of header protection from the first byte and the packet number (which may
  refuse), and opening a packet.
\<close>

record 'k quic_crypto =
  qy_available :: bool
  qy_keys :: "quic_version \<Rightarrow> bytes \<Rightarrow> 'k"
  qy_sample_size :: "'k \<Rightarrow> nat"
  qy_unmask :: "'k \<Rightarrow> bytes \<Rightarrow> u8 \<Rightarrow> bytes \<Rightarrow> (u8 \<times> bytes) option"
  qy_open :: "'k \<Rightarrow> u64 \<Rightarrow> bytes \<Rightarrow> bytes \<Rightarrow> bytes option"

definition header_key_decrypt :: "'k quic_crypto \<Rightarrow> 'k \<Rightarrow> usize \<Rightarrow> bytes \<Rightarrow> 'e fault + bytes" where
  "header_key_decrypt crypto key pn_offset packet =
     and_then (slice_range packet 0 (pn_offset + 4)) (\<lambda>header.
     let after = drop (pn_offset + 4) packet in
     and_then (slice_range header 0 1) (\<lambda>first.
     let rest = drop 1 header; pn_end = min (pn_offset + 3) (length rest) in
     and_then (slice_range after 0 (qy_sample_size crypto key)) (\<lambda>sample.
     and_then (slice_range rest (pn_offset - 1) pn_end) (\<lambda>pn.
     and_then (ok_or Panic (qy_unmask crypto key sample (first ! 0) pn)) (\<lambda>(first', pn').
     Inr (first' # take (pn_offset - 1) rest @ pn' @ drop pn_end rest @ after))))))"

text \<open>The header of the packet: the connection id, where the packet number is, and where the packet ends.\<close>

definition quic_initial_header :: "bytes \<Rightarrow> (u32 \<times> bytes \<times> usize \<times> usize) option" where
  "quic_initial_header packet =
     (if length packet < 7 \<or> packet ! 0 AND 0xc0 \<noteq> 0xc0 then None
      else
        (let version = from_be_bytes (take 4 (drop 1 packet)) :: u32 in
         if version \<noteq> 1 \<and> version \<noteq> 0x6b3343cf then None
         else if drop_bit 4 (packet ! 0) AND 3 \<noteq> (if version \<noteq> 1 then 1 else 0) then None
         else
           Option.bind (get_at packet 5) (\<lambda>destination_length.
           Option.bind (checked_add 6 (unat destination_length)) (\<lambda>destination_end.
           Option.bind (get_range packet 6 destination_end) (\<lambda>destination.
           Option.bind (get_at packet destination_end) (\<lambda>source_length.
           Option.bind (checked_add destination_end (1 + unat source_length)) (\<lambda>position.
           Option.bind (get_range packet position (length packet)) (\<lambda>rest.
           Option.bind (read_quic_varint rest) (\<lambda>(token_length, token_bytes).
           Option.bind (checked_add position (token_bytes + unat token_length)) (\<lambda>position.
           Option.bind (get_range packet position (length packet)) (\<lambda>rest.
           Option.bind (read_quic_varint rest) (\<lambda>(protected_length, length_bytes).
           Option.bind (checked_add (position + length_bytes) (unat protected_length)) (\<lambda>packet_end.
           if length packet < packet_end then None
           else Some (version, destination, position + length_bytes, packet_end))))))))))))))"

definition quic_payload :: "'k quic_crypto \<Rightarrow> 'k \<Rightarrow> usize \<Rightarrow> usize \<Rightarrow> bytes \<Rightarrow> bytes option" where
  "quic_payload crypto key position packet_end packet =
     (let packet_number_length = unat (packet ! 0 AND 3) + 1 in
      Option.bind (checked_add position packet_number_length) (\<lambda>header_end.
      Option.bind (get_range packet position header_end) (\<lambda>number.
      let truncated = foldl be_step 0 number;
          packet_number = decode_packet_number 2 truncated packet_number_length in
      Option.bind (get_range packet header_end packet_end) (\<lambda>payload.
      qy_open crypto key packet_number (take header_end packet) payload))))"

definition quic_sni :: "'k quic_crypto \<Rightarrow> bytes \<Rightarrow> 'e fault + string option" where
  "quic_sni crypto packet =
     (case quic_initial_header packet of
        None \<Rightarrow> Inr None
      | Some (version, destination, position, packet_end) \<Rightarrow>
          if \<not> qy_available crypto then Inr None
          else
            and_then (connection_id_new destination) (\<lambda>cid.
            (case interpret_version version of
               None \<Rightarrow> Inr None
             | Some v \<Rightarrow>
                 (let key = qy_keys crypto v cid in
                  and_then (header_key_decrypt crypto key position (take packet_end packet)) (\<lambda>unmasked.
                  (case Option.bind (quic_payload crypto key position packet_end (unmasked @ drop packet_end packet))
                          extract_crypto_frames of
                     None \<Rightarrow> Inr None
                   | Some hello \<Rightarrow> parse_client_hello_sni hello))))))"

section \<open>The sniffer\<close>

record sniffer =
  sf_timeout :: nat
  sf_rewrite_domain :: bool
  sf_tcp_ports :: "(u16 \<times> u16) list option"
  sf_udp_ports :: "(u16 \<times> u16) list option"

definition sniffer_build :: "(string \<Rightarrow> nat option) \<Rightarrow> sniff_config \<Rightarrow> cli_error + sniffer" where
  "sniffer_build parse_duration config =
     and_then (if trim (sn_timeout config) = [] then Inr DEFAULT_TIMEOUT
               else ok_or (cli_error ''invalid sniff.timeout: {}'') (parse_duration (sn_timeout config))) (\<lambda>timeout.
     and_then (ensure (timeout \<noteq> 0) (cli_error ''sniff.timeout must be greater than zero'')) (\<lambda>_.
     and_then (parse_optional_ports (sn_tcp_ports config) ''sniff.tcpPorts'') (\<lambda>tcp.
     and_then (parse_optional_ports (sn_udp_ports config) ''sniff.udpPorts'') (\<lambda>udp.
     Inr \<lparr>sf_timeout = timeout, sf_rewrite_domain = sn_rewrite_domain config, sf_tcp_ports = tcp, sf_udp_ports = udp\<rparr>))))"

definition sniffer_check :: "sniffer \<Rightarrow> bool \<Rightarrow> string \<Rightarrow> bool" where
  "sniffer_check s udp address =
     (if starts_with address ''@'' then False
      else
        (case split_address address of
           None \<Rightarrow> False
         | Some (host, port) \<Rightarrow>
             if \<not> sf_rewrite_domain s \<and> parse_ip host = None then False
             else
               (case (if udp then sf_udp_ports s else sf_tcp_ports s) of
                  None \<Rightarrow> True
                | Some ranges \<Rightarrow> list_ex (\<lambda>(start, stop). start \<le> port \<and> port \<le> stop) ranges)))"

definition sniffer_udp :: "'k quic_crypto \<Rightarrow> bytes \<Rightarrow> string \<Rightarrow> transport_error fault + string" where
  "sniffer_udp crypto data address =
     and_then (quic_sni crypto data) (\<lambda>host.
     (case host of None \<Rightarrow> Inr address | Some host \<Rightarrow> map_err Err (rewrite_host address host)))"

section \<open>Sniffing a stream\<close>

lemma sni_names_total: "list_end \<le> length data \<Longrightarrow> \<exists>r. sni_names data list_end name = Inr r"
proof (induction data list_end name rule: sni_names.induct)
  case (1 data list_end name)
  show ?case
  proof (cases "name + 3 \<le> list_end")
    case True
    then have "index_at data name = Inr (data ! name)" using "1.prems" by simp
    then show ?thesis
      using "1.IH" [OF True] "1.prems" True
      by (subst sni_names.simps) (auto simp: checked_add_def slice_range_def split: option.split)
  qed (simp add: sni_names.simps)
qed

lemma server_name_extension_total:
  "stop \<le> length data \<Longrightarrow> \<exists>r. server_name_extension data position stop = Inr r"
  by (auto simp: server_name_extension_def intro!: sni_names_total split: option.split)

lemma sni_extensions_total: "end_pos \<le> length data \<Longrightarrow> \<exists>r. sni_extensions data end_pos position = (Inr r :: 'e fault + _)"
proof (induction "end_pos - position" arbitrary: position rule: less_induct)
  case less
  show ?case
  proof (cases "\<exists>kind len stop. position + 4 \<le> end_pos \<and> read_u16_at data position = Some kind \<and>
      read_u16_at data (position + 2) = Some len \<and> checked_add (position + 4) len = Some stop \<and> stop \<le> end_pos")
    case False
    then show ?thesis by (subst sni_extensions.simps) (auto split: option.split)
  next
    case True
    then obtain kind len stop where s: "position + 4 \<le> end_pos" "read_u16_at data position = Some kind"
      "read_u16_at data (position + 2) = Some len" "checked_add (position + 4) len = Some stop" "stop \<le> end_pos" by blast
    have "end_pos - stop < end_pos - position" using s(1,4) by (auto simp: checked_add_def split: if_splits)
    with less obtain r where ih: "sni_extensions data end_pos stop = (Inr r :: 'e fault + _)" by blast
    obtain x where "(if kind = 0 \<and> 5 \<le> len then server_name_extension data (position + 4) stop else Inr None) =
        (Inr x :: 'e fault + _)"
      using server_name_extension_total [where ?'a = 'e, of stop data "position + 4"] s(5) less.prems
      by (cases "kind = 0 \<and> 5 \<le> len") auto
    then show ?thesis using s ih by (subst sni_extensions.simps) (cases x, simp_all)
  qed
qed

lemma parse_client_hello_sni_total: "\<exists>r. parse_client_hello_sni data = Inr r"
  by (auto simp: parse_client_hello_sni_def intro!: sni_extensions_total split: option.split)

lemma read_up_to_lossless: "read_up_to ending len captured input = (r, c, i) \<Longrightarrow> c @ i = captured @ input"
  by (auto simp: read_up_to_def Let_def split: if_splits recv_ending.splits)

lemma http_header_lossless: "http_header ending captured input = (r, c, i) \<Longrightarrow> c @ i = captured @ input"
proof (induction "length input" arbitrary: captured input rule: less_induct)
  case less
  obtain x c1 i1 where step: "read_up_to ending (length captured + 1) captured input = (x, c1, i1)" using prod_cases3 by blast
  note keep = read_up_to_lossless [OF step]
  show ?case
  proof (cases "drop (length captured - 4) captured \<noteq> as_bytes [CHR 0x0D, CHR 0x0A, CHR 0x0D, CHR 0x0A] \<and>
      length captured < MAX_HTTP_HEADER")
    case False
    then have "(c, i) = (captured, input)" using less.prems unfolding http_header.simps [of ending captured input] by auto
    then show ?thesis by simp
  next
    case True
    show ?thesis
    proof (cases "x = Inr True")
      case more: True
      then have "http_header ending c1 i1 = (r, c, i)"
        using less.prems True step unfolding http_header.simps [of ending captured input] by simp
      moreover have "length i1 < length input"
        using step more by (auto simp: read_up_to_def Let_def split: if_splits recv_ending.splits)
      ultimately show ?thesis using less.hyps keep by metis
    next
      case False
      then have "(c, i) = (c1, i1)"
        using less.prems True step unfolding http_header.simps [of ending captured input]
        by (cases x) (auto split: bool.splits)
      then show ?thesis using keep by simp
    qed
  qed
qed

lemma digit_char_colon: "d < 10 \<Longrightarrow> CHR '':'' \<noteq> digit_char d"
  by (auto simp: digit_char_def dest: arg_cong [where f = "of_char :: char \<Rightarrow> nat"])

lemma colon_nat_string: "CHR '':'' \<notin> set (nat_string n)"
proof (induction n rule: nat_string.induct)
  case (1 n)
  then show ?case
    using digit_char_colon [of n] digit_char_colon [of "n mod 10"] by (simp add: nat_string.simps [of n])
qed

lemma rewrite_host_port:
  assumes "rewrite_host address host = Inr address'"
  shows "map_option snd (split_address address') = map_option snd (split_address address)"
proof -
  obtain h p where p: "split_address address = Some (h, p)"
    and a: "address' = (if whole (read_ipv6 host) \<noteq> None then ''['' @ host @ '']:'' @ uint_string p else host @ '':'' @ uint_string p)"
    using assms by (auto simp: rewrite_host_def result_iffs)
  have c: "CHR '':'' \<notin> set (uint_string p)" by (simp add: uint_string_def colon_nat_string)
  define h' where "h' = (if whole (read_ipv6 host) \<noteq> None then ''['' @ host @ '']'' else host)"
  have "address' = h' @ CHR '':'' # uint_string p" by (simp add: a h'_def)
  then have "rsplit_once address' (CHR '':'') = Some (h', uint_string p)" using rsplit_once_append [OF c] by simp
  then have "split_address address' = Some (trim_matches {CHR ''['', CHR '']''} h', p)" by (simp add: split_address_def)
  then show ?thesis by (simp add: p)
qed

lemma sniffed_host_lossless:
  assumes "(if b then read_http_host ending captured input else if b' then read_tls_sni ending captured input
      else (Inr None, captured, input)) = (r, c, i)"
  shows "r \<noteq> Inl Panic \<and> c @ i = captured @ input"
proof -
  consider "read_http_host ending captured input = (r, c, i)" | "read_tls_sni ending captured input = (r, c, i)"
    | "r = Inr None" "c = captured" "i = input"
    using assms by (cases b; cases b'; simp)
  then show ?thesis
  proof cases
    case 1
    obtain x c1 i1 where s: "http_header ending captured input = (x, c1, i1)" using prod_cases3 by blast
    show ?thesis using 1 s http_header_lossless [OF s] by (cases x) (auto simp: read_http_host_def)
  next
    case 2
    obtain x c1 i1 where s1: "read_up_to ending 5 captured input = (x, c1, i1)" using prod_cases3 by blast
    obtain y c2 i2 where s2: "read_up_to ending (5 + unat (from_be_bytes [c1 ! 3, c1 ! 4] :: u16)) c1 i1 = (y, c2, i2)"
      using prod_cases3 by blast
    obtain h where "parse_client_hello_sni (drop 5 c2) = (Inr h :: transport_error fault + _)"
      using parse_client_hello_sni_total by blast
    then show ?thesis
      using 2 read_up_to_lossless [OF s1] read_up_to_lossless [OF s2] unfolding read_tls_sni_def s1
      by (cases x; cases y; cases "projr x"; cases "projr y") (auto simp: Let_def s2)
  qed simp
qed

text \<open>
  Sniffing loses nothing: it never panics, and when it succeeds what it took off the stream followed by
  what is left is the stream. The address it gives has the port of the requested one; when it fails, or
  finds no host, the address is unchanged.
\<close>

lemma sniff_tcp_lossless:
  assumes "sniff_tcp ending input address = (res, rest, address')"
  shows "res \<noteq> Inl Panic \<and> (\<forall>captured. res = Inr captured \<longrightarrow> captured @ rest = input) \<and>
    (\<forall>e. res = Inl e \<longrightarrow> address' = address) \<and>
    map_option snd (split_address address') = map_option snd (split_address address)"
proof -
  obtain x c i where s1: "read_up_to ending 3 [] input = (x, c, i)" using prod_cases3 by blast
  obtain y c2 i2 where s2: "(if list_all (\<lambda>b. is_ascii_alphabetic (char_of_byte b)) (take 3 c)
      then read_http_host ending c i else if is_tls c then read_tls_sni ending c i else (Inr None, c, i)) = (y, c2, i2)"
    using prod_cases3 by blast
  have keep: "c @ i = input" "y \<noteq> Inl Panic" "c2 @ i2 = input"
    using read_up_to_lossless [OF s1] sniffed_host_lossless [OF s2] by simp_all
  consider e where "x = Inl e" | "x = Inr False" | e where "x = Inr True" "y = Inl e" | "x = Inr True" "y = Inr None"
    | host where "x = Inr True" "y = Inr (Some host)"
    by (cases x; cases y; cases "projr x"; cases "projr y") auto
  then show ?thesis
  proof cases
    case (5 host)
    then show ?thesis
      using assms keep rewrite_host_port [of address host] unfolding sniff_tcp_def s1
      by (cases "rewrite_host address host") (auto simp: s2)
  qed (use assms keep in \<open>auto simp: sniff_tcp_def s1 s2\<close>)
qed

lemma run_hook_sniffed:
  assumes "cx_request_hook cx = Some hook"
    and "\<forall>bs a. sniff_tcp ending bs a = (map_err Err (fst (rh_tcp hook bs a)), snd (rh_tcp hook bs a))"
    and "run_hook cx address s = (Inr (putback, address'), s')"
  shows "putback @ bs_in s' = bs_in s" and "ts_target s' = ts_target s"
    and "map_option snd (split_address address') = map_option snd (split_address address)"
proof -
  obtain r rest a where tcp: "rh_tcp hook (bs_in s) address = (r, rest, a)" using prod_cases3 by blast
  have "sniff_tcp ending (bs_in s) address = (map_err Err r, rest, a)" using assms(2) tcp by simp
  note sniffed = sniff_tcp_lossless [OF this]
  show "putback @ bs_in s' = bs_in s" "ts_target s' = ts_target s"
    "map_option snd (split_address address') = map_option snd (split_address address)"
    using assms(1,3) tcp sniffed
    by (auto simp: run_hook_def with_stats_def Let_def split: if_splits sum.splits)
qed

text \<open>
  C13: A stream that a server opens with the sniffer in place reaches its target complete: what has been
  written to the target and what is still on the stream are together what followed the request.
\<close>

theorem sniffed_stream_complete:
  assumes "cx_request_hook cx = Some hook"
    and "\<forall>bs a. sniff_tcp ending bs a = (map_err Err (fst (rh_tcp hook bs a)), snd (rh_tcp hook bs a))"
    and "read_tcp_request s = (Inr request, s1)"
    and "open_tcp_stream fill cx now write_ok s = (Some target, s')"
  shows "ts_target s' @ bs_in s' = ts_target s1 @ bs_in s1 \<and>
    (\<exists>address. ob_tcp (cx_outbound cx) address = Inr target \<and>
       map_option snd (split_address address) = map_option snd (split_address (req_address request)))"
proof -
  let ?s1 = "with_stats (\<lambda>st. set_state Connecting (set_request_address (req_address request) st)) s1"
  obtain y s2 where hook: "run_hook cx (req_address request) ?s1 = (y, s2)" by fastforce
  obtain putback address where y: "y = Inr (putback, address)"
    using assms(3,4) hook by (cases y) (auto simp: open_tcp_stream_def)
  let ?s2 = "with_stats (\<lambda>st. set_state Connecting
      (if should_hook cx (req_address request) then set_hooked_request_address address st else st)) s2"
  note sniffed = run_hook_sniffed [OF assms(1,2) hook [unfolded y]]
  have ob: "ob_tcp (cx_outbound cx) address = Inr target"
    using assms(3,4) hook y by (auto simp: open_tcp_stream_def Let_def split: sum.splits prod.splits bool.splits)
  obtain z s3 where resp: "write_tcp_response fill True ''Connected'' ?s2 = (z, s3)" by fastforce
  obtain r out where s3: "s3 = ?s2\<lparr>io_random := r, bs_out := out\<rparr>"
    using only_writes_tcp_response [unfolded only_writes_def, rule_format, of fill True "''Connected''" ?s2] resp by force
  have pre: "write_hooked_prefix cx now write_ok putback (with_stats (set_state Established) s3) = (True, s')"
    using assms(3,4) hook y ob resp by (auto simp: open_tcp_stream_def Let_def split: sum.splits prod.splits bool.splits)
  have "ts_target s' = ts_target s3 @ putback \<and> bs_in s' = bs_in s3"
    using pre by (auto simp: write_hooked_prefix_def with_stats_def dest!: log_allowed_keeps split: if_splits prod.splits bool.splits)
  then show ?thesis using sniffed ob s3 by (auto simp: with_stats_def)
qed

definition sniff_hook :: request_hook where
  "sniff_hook = \<lparr>rh_check = sniffer_check \<lparr>sf_timeout = 1, sf_rewrite_domain = True, sf_tcp_ports = None, sf_udp_ports = None\<rparr>,
     rh_tcp = (\<lambda>bs a. case sniff_tcp StreamEnd bs a of
        (Inl (Err e), rest) \<Rightarrow> (Inl e, rest) | (Inl Panic, rest) \<Rightarrow> (Inl SessionClosed, rest) | (Inr c, rest) \<Rightarrow> (Inr c, rest)),
     rh_udp = (\<lambda>_ a. Inr a)\<rparr>"

lemma sniff_hook_tcp:
  "\<forall>bs a. sniff_tcp StreamEnd bs a = (map_err Err (fst (rh_tcp sniff_hook bs a)), snd (rh_tcp sniff_hook bs a))"
proof (intro allI)
  fix bs a
  obtain r rest a' where s: "sniff_tcp StreamEnd bs a = (r, rest, a')" using prod_cases3 by blast
  have "r \<noteq> Inl Panic" using sniff_tcp_lossless [OF s] by simp
  then show "sniff_tcp StreamEnd bs a = (map_err Err (fst (rh_tcp sniff_hook bs a)), snd (rh_tcp sniff_hook bs a))"
    using s by (auto simp: sniff_hook_def split: sum.splits fault.splits)
qed

definition sniffed_context :: "(unit, unit, unit) tcp_server_context" where
  "sniffed_context = sample_context\<lparr>cx_request_hook := Some sniff_hook\<rparr>"

lemma sniffed_sample:
  "read_tcp_request (sample_server [0x44, 1, 3, 97, 58, 49, 0, 7]) = (Inr \<lparr>req_address = ''a:1''\<rparr>, sample_server [7])"
  "fst (open_tcp_stream zero_random sniffed_context 0 True (sample_server [0x44, 1, 3, 97, 58, 49, 0, 7])) = Some ()"
  by code_simp+

theorem sniffed_stream_complete_witness:
  "let s = snd (open_tcp_stream zero_random sniffed_context 0 True (sample_server [0x44, 1, 3, 97, 58, 49, 0, 7])) in
   ts_target s @ bs_in s = [7]"
proof -
  obtain s where s: "open_tcp_stream zero_random sniffed_context 0 True (sample_server [0x44, 1, 3, 97, 58, 49, 0, 7]) = (Some (), s)"
    using sniffed_sample(2) by (metis prod.collapse)
  have hook: "cx_request_hook sniffed_context = Some sniff_hook" by (simp add: sniffed_context_def)
  from sniffed_stream_complete [OF hook sniff_hook_tcp sniffed_sample(1) s] s show ?thesis
    by (simp add: sample_server_def)
qed

section \<open>QUIC\<close>

text \<open>
  The variable-length integers are those of the protocol, so the reader agrees with the decoder of the
  protocol crate.
\<close>

lemma read_quic_varint_decode:
  "read_quic_varint bs =
     (case decode_varint bs of Inl _ \<Rightarrow> None | Inr (v, rest) \<Rightarrow> Some (v, length bs - length rest))"
  by (cases bs) (simp_all add: read_quic_varint_def decode_varint_def Let_def be_step_def)

lemma read_quic_varint_append:
  assumes "encode_varint v [] = Inr bs"
  shows "read_quic_varint (bs @ rest) = Some (v, length bs)"
proof -
  have "v \<le> MAX_VARINT" using assms by (auto simp: encode_varint_def split: if_splits)
  then show ?thesis
  proof (rule varint_roundtrip_append)
    fix bs'
    assume enc: "\<And>out. encode_varint v out = Inr (out @ bs')" and dec: "\<And>rest. decode_varint (bs' @ rest) = Inr (v, rest)"
    have "bs' = bs" using enc [of "[]"] assms by simp
    then show ?thesis using dec [of rest] by (simp add: read_quic_varint_decode)
  qed
qed

lemma interpret_version_values: "interpret_version 1 = Some V1" "interpret_version 0x6b3343cf = None"
  by code_simp+

text \<open>
  C30: A datagram that looks like a QUIC initial packet makes the hook panic in two ways, whatever the keys:
  with a connection id of more than twenty bytes, and with a protected part that is too short for the
  sample of header protection. Packets of QUIC version 2, which the sniffer admits, are never read.
\<close>

theorem quic_sni_panics:
  assumes "qy_available crypto" and "quic_initial_header packet = Some (version, destination, position, packet_end)"
  shows "(MAX_CID_SIZE < length destination \<longrightarrow> sniffer_udp crypto packet address = Inl Panic) \<and>
    (length destination \<le> MAX_CID_SIZE \<and> version = 1 \<and>
       packet_end < position + 4 + qy_sample_size crypto (qy_keys crypto V1 destination) \<longrightarrow>
       sniffer_udp crypto packet address = Inl Panic) \<and>
    (length destination \<le> MAX_CID_SIZE \<and> version = 0x6b3343cf \<longrightarrow> sniffer_udp crypto packet address = Inr address)"
proof -
  have len: "packet_end \<le> length packet"
    using assms(2) by (auto simp: quic_initial_header_def Let_def bind_eq_Some_conv split: if_splits)
  have "header_key_decrypt crypto key position (take packet_end packet) = (Inl Panic :: transport_error fault + bytes)"
    if "packet_end < position + 4 + qy_sample_size crypto key" for key
    using that len by (auto simp: header_key_decrypt_def slice_range_def Let_def)
  then show ?thesis
    using assms by (simp add: sniffer_udp_def quic_sni_def connection_id_new_def interpret_version_values Let_def)
qed

definition null_crypto :: "unit quic_crypto" where
  "null_crypto = \<lparr>qy_available = True, qy_keys = (\<lambda>_ _. ()), qy_sample_size = (\<lambda>_. 16),
     qy_unmask = (\<lambda>_ _ first pn. Some (first, pn)), qy_open = (\<lambda>_ _ _ payload. Some payload)\<rparr>"

theorem quic_sni_panics_witness:
  "sniffer_udp null_crypto ([0xc0, 0, 0, 0, 1, 21] @ replicate 21 0 @ [0, 0, 0]) ''a:1'' = Inl Panic \<and>
   sniffer_udp null_crypto [0xc0, 0, 0, 0, 1, 0, 0, 0, 0] ''a:1'' = Inl Panic"
proof
  have "quic_initial_header ([0xc0, 0, 0, 0, 1, 21] @ replicate 21 0 @ [0, 0, 0]) = Some (1, replicate 21 0, 30, 30)"
    by code_simp
  from quic_sni_panics [OF _ this, of null_crypto "''a:1''"]
  show "sniffer_udp null_crypto ([0xc0, 0, 0, 0, 1, 21] @ replicate 21 0 @ [0, 0, 0]) ''a:1'' = Inl Panic"
    by (simp add: null_crypto_def)
  have "quic_initial_header [0xc0, 0, 0, 0, 1, 0, 0, 0, 0] = Some (1, [], 9, 9)" by code_simp
  from quic_sni_panics [OF _ this, of null_crypto "''a:1''"]
  show "sniffer_udp null_crypto [0xc0, 0, 0, 0, 1, 0, 0, 0, 0] ''a:1'' = Inl Panic"
    by (simp add: null_crypto_def)
qed

section \<open>Reading back a client hello\<close>

definition u16_bytes :: "nat \<Rightarrow> bytes" where
  "u16_bytes n = be_bytes 2 (word_of_nat n :: u16)"

text \<open>
  The client hello of RFC 8446 with its vectors, and the list of server names of RFC 6066, as lists of names
  with their kinds.
\<close>

definition name_entry :: "u8 \<times> bytes \<Rightarrow> bytes" where
  "name_entry n = fst n # u16_bytes (length (snd n)) @ snd n"

definition extension_entry :: "nat \<times> bytes \<Rightarrow> bytes" where
  "extension_entry x = u16_bytes (fst x) @ u16_bytes (length (snd x)) @ snd x"

definition server_names :: "(u8 \<times> bytes) list \<Rightarrow> bytes" where
  "server_names ns = (let l = concat (map name_entry ns) in u16_bytes (length l) @ l)"

definition client_hello :: "bytes \<Rightarrow> bytes \<Rightarrow> bytes \<Rightarrow> bytes \<Rightarrow> bytes \<Rightarrow> (nat \<times> bytes) list \<Rightarrow> bytes" where
  "client_hello len24 random session ciphers compression xs =
     (let e = concat (map extension_entry xs) in
      1 # len24 @ [3, 3] @ random @ word_of_nat (length session) # session @ u16_bytes (length ciphers) @ ciphers @
      word_of_nat (length compression) # compression @ u16_bytes (length e) @ e)"

lemma length_u16_bytes [simp]: "length (u16_bytes n) = 2"
  by (simp add: u16_bytes_def)

lemma read_u16_at_append:
  assumes "n < 65536" and "length a = p"
  shows "read_u16_at (a @ u16_bytes n @ b) p = Some n"
proof -
  obtain x y where xy: "u16_bytes n = [x, y]" by (simp add: u16_bytes_def be_bytes_2)
  have "from_be_bytes [x, y] = (word_of_nat n :: u16)" unfolding xy [symmetric] by (simp add: u16_bytes_def)
  then show ?thesis using assms xy by (simp add: read_u16_at_def get_at_def nth_append unat_of_nat)
qed

lemma skip_u8_vector_at:
  assumes "get_at data p = Some (word_of_nat n)" and "n < 256" and "p + 1 + n < 2 ^ 64"
  shows "skip_u8_vector data p = Some (p + 1 + n)"
  unfolding skip_u8_vector_def assms(1) using assms(2,3) by (simp add: checked_add_def unat_of_nat)

lemma sni_names_skip:
  assumes "data = a @ name_entry n @ b" and "length a = p" and "fst n \<noteq> 0" and "length (snd n) < 65536"
    and "p + length (name_entry n) \<le> stop" and "stop \<le> length data" and "length data < 2 ^ 64"
  shows "sni_names data stop p = sni_names data stop (p + length (name_entry n))"
proof -
  have "read_u16_at data (p + 1) = Some (length (snd n))"
    using read_u16_at_append [OF assms(4), of "a @ [fst n]" "p + 1" "snd n @ b"] assms(1,2) by (simp add: name_entry_def)
  moreover have "index_at data p = Inr (fst n)" using assms(1,2) by (simp add: index_at_def name_entry_def nth_append)
  ultimately show ?thesis
    using assms(3,5-7) by (subst sni_names.simps) (simp add: name_entry_def checked_add_def numeral_3_eq_3)
qed

lemma sni_names_found:
  assumes "data = a @ name_entry (0, host) @ b" and "length a = p" and "utf8_valid host" and "length host < 65536"
    and "p + length (name_entry (0, host)) \<le> stop" and "stop \<le> length data" and "length data < 2 ^ 64"
  shows "sni_names data stop p = Inr (Some (Some (of_bytes host)))"
proof -
  have "read_u16_at data (p + 1) = Some (length host)"
    using read_u16_at_append [OF assms(4), of "a @ [0]" "p + 1" "host @ b"] assms(1,2) by (simp add: name_entry_def)
  moreover have "index_at data p = Inr 0" using assms(1,2) by (simp add: index_at_def name_entry_def nth_append)
  moreover have "slice_range data (p + 3) (p + 3 + length host) = Inr host"
    using assms(1,2) by (simp add: slice_range_def name_entry_def)
  ultimately show ?thesis
    using assms(3,5-7) by (subst sni_names.simps) (simp add: name_entry_def checked_add_def add.commute add.left_commute)
qed

lemma sni_names_list:
  "data = a @ concat (map name_entry pre) @ name_entry (0, host) @ b \<Longrightarrow> length a = p \<Longrightarrow>
   list_all (\<lambda>n. fst n \<noteq> 0 \<and> length (snd n) < 65536) pre \<Longrightarrow> utf8_valid host \<Longrightarrow> length host < 65536 \<Longrightarrow>
   p + length (concat (map name_entry pre) @ name_entry (0, host)) \<le> stop \<Longrightarrow> stop \<le> length data \<Longrightarrow> length data < 2 ^ 64 \<Longrightarrow>
   sni_names data stop p = (Inr (Some (Some (of_bytes host))) :: 'e fault + _)"
proof (induction pre arbitrary: a p)
  case Nil
  then show ?case by (intro sni_names_found [of data a host b]) simp_all
next
  case (Cons n pre)
  have "(sni_names data stop p :: 'e fault + _) = sni_names data stop (p + length (name_entry n))"
    by (rule sni_names_skip [of data a n "concat (map name_entry pre) @ name_entry (0, host) @ b"]) (use Cons.prems in simp_all)
  also have "\<dots> = Inr (Some (Some (of_bytes host)))"
    by (rule Cons.IH [of "a @ name_entry n"]) (use Cons.prems in simp_all)
  finally show ?case .
qed

lemma extension_step:
  assumes "data = a @ extension_entry x @ b" and "length a = p" and "fst x < 65536" and "length (snd x) < 65536"
    and "p + length (extension_entry x) \<le> stop" and "stop \<le> length data" and "length data < 2 ^ 64"
  shows "sni_extensions data stop p =
    (case (if fst x = 0 \<and> 5 \<le> length (snd x)
           then server_name_extension data (p + 4) (p + length (extension_entry x)) else Inr None) of
       Inl e \<Rightarrow> Inl e | Inr (Some r) \<Rightarrow> Inr r
     | Inr None \<Rightarrow> sni_extensions data stop (p + length (extension_entry x)))"
proof -
  have "read_u16_at data p = Some (fst x)"
    using read_u16_at_append [OF assms(3,2)] assms(1) by (simp add: extension_entry_def)
  moreover have "read_u16_at data (p + 2) = Some (length (snd x))"
    using read_u16_at_append [OF assms(4), of "a @ u16_bytes (fst x)" "p + 2"] assms(1,2) by (simp add: extension_entry_def)
  moreover have len: "length (extension_entry x) = 4 + length (snd x)" by (simp add: extension_entry_def)
  ultimately show ?thesis
    using assms(5-7) unfolding len sni_extensions.simps [of data stop p] by (simp add: checked_add_def add.assoc)
qed

lemma sni_extensions_list:
  "data = a @ concat (map extension_entry pre) @ extension_entry (0, server_names (others @ (0, host) # later)) @ b \<Longrightarrow>
   length a = p \<Longrightarrow> list_all (\<lambda>x. 0 < fst x \<and> fst x < 65536 \<and> length (snd x) < 65536) pre \<Longrightarrow>
   list_all (\<lambda>n. fst n \<noteq> 0) others \<Longrightarrow> utf8_valid host \<Longrightarrow>
   length (server_names (others @ (0, host) # later)) < 65536 \<Longrightarrow>
   p + length (concat (map extension_entry pre) @ extension_entry (0, server_names (others @ (0, host) # later))) \<le> stop \<Longrightarrow>
   stop \<le> length data \<Longrightarrow> length data < 2 ^ 64 \<Longrightarrow>
   sni_extensions data stop p = (Inr (Some (of_bytes host)) :: 'e fault + _)"
proof (induction pre arbitrary: a p)
  case (Cons x pre)
  let ?tail = "concat (map extension_entry pre) @ extension_entry (0, server_names (others @ (0, host) # later)) @ b"
  have "(sni_extensions data stop p :: 'e fault + _) = sni_extensions data stop (p + length (extension_entry x))"
    by (subst extension_step [of data a x ?tail]) (use Cons.prems in simp_all)
  also have "\<dots> = Inr (Some (of_bytes host))"
    by (rule Cons.IH [of "a @ extension_entry x"]) (use Cons.prems in simp_all)
  finally show ?case .
next
  case Nil
  let ?names = "others @ (0, host) # later"
  let ?l = "concat (map name_entry ?names)"
  let ?x = "(0 :: nat, server_names ?names)"
  have len: "length (server_names ?names) = 2 + length ?l" "length (extension_entry ?x) = 6 + length ?l"
    by (simp_all add: server_names_def extension_entry_def Let_def)
  have small: "length ?l < 65536" using Nil.prems(6) len(1) by simp
  have one: "length (name_entry n) \<le> length ?l" if "n \<in> set ?names" for n
    using that by (simp only: length_concat map_map comp_def) (rule member_le_sum_list, auto)
  have others: "list_all (\<lambda>n. fst n \<noteq> 0 \<and> length (snd n) < 65536) others"
    using Nil.prems(4) one small by (fastforce simp: list_all_iff name_entry_def)
  have host: "length host < 65536" using one [of "(0, host)"] small by (simp add: name_entry_def)
  have read: "read_u16_at data (p + 4) = Some (length ?l)"
    using read_u16_at_append [OF small, of "a @ u16_bytes 0 @ u16_bytes (length (server_names ?names))" "p + 4"] Nil.prems(1,2)
    by (simp add: extension_entry_def server_names_def Let_def)
  have "sni_names data (6 + p + length ?l) (6 + p) = (Inr (Some (Some (of_bytes host))) :: 'e fault + _)"
    by (rule sni_names_list [of data "a @ u16_bytes 0 @ u16_bytes (length (server_names ?names)) @ u16_bytes (length ?l)" others host
          "concat (map name_entry later) @ b"])
      (use Nil.prems len others host in \<open>simp_all add: extension_entry_def server_names_def Let_def\<close>)
  then have "server_name_extension data (p + 4) (p + length (extension_entry ?x)) =
      (Inr (Some (Some (of_bytes host))) :: 'e fault + _)"
    using read len Nil.prems(7-9) by (simp add: server_name_extension_def checked_add_def)
  moreover have "5 \<le> length (server_names ?names)" using len(1) one [of "(0, host)"] by (simp add: name_entry_def)
  ultimately show ?case
    by (subst extension_step [of data a ?x b]) (use Nil.prems in simp_all)
qed

text \<open>
  C28: The parser finds the host name of every well-formed client hello: whatever the session id, cipher suites
  and compression methods, wherever the server names stand among the extensions, and wherever the host
  name stands among the names.
\<close>

theorem client_hello_sni:
  assumes "length len24 = 3" and "length random = 32" and "length session < 256" and "length ciphers < 65536"
    and "length compression < 256" and "valid_string host"
    and "list_all (\<lambda>x. 0 < fst x \<and> fst x < 65536 \<and> length (snd x) < 65536) pre" and "list_all (\<lambda>n. fst n \<noteq> 0) others"
    and "length (concat (map extension_entry (pre @ (0, server_names (others @ (0, as_bytes host) # later)) # post))) < 65536"
  shows "parse_client_hello_sni (client_hello len24 random session ciphers compression
      (pre @ (0, server_names (others @ (0, as_bytes host) # later)) # post)) = Inr (Some host)"
proof -
  define sn where "sn = server_names (others @ (0, as_bytes host) # later)"
  define e where "e = concat (map extension_entry (pre @ (0, sn) # post))"
  define h where "h = 1 # len24 @ [3, 3] @ random"
  define a where "a = h @ word_of_nat (length session) # session @ u16_bytes (length ciphers) @ ciphers @
      word_of_nat (length compression) # compression"
  define data where "data = a @ u16_bytes (length e) @ e"
  have hello: "client_hello len24 random session ciphers compression (pre @ (0, sn) # post) = data"
    by (simp add: client_hello_def data_def a_def h_def e_def Let_def)
  have h: "length h = 38" using assms(1,2) by (simp add: h_def)
  have e: "length e < 65536" using assms(9) by (simp add: e_def sn_def)
  have la: "length a = 42 + length session + length ciphers + length compression" by (simp add: a_def h)
  have ld: "length data = length a + 2 + length e" "length data < 2 ^ 64" using la e assms(3-5) by (simp_all add: data_def)
  have first: "get_at data 0 = Some 1" by (simp add: data_def a_def h_def get_at_def)
  have "get_at data 38 = Some (word_of_nat (length session))" using h by (simp add: data_def a_def get_at_def nth_append)
  then have p1: "skip_u8_vector data 38 = Some (39 + length session)"
    using skip_u8_vector_at [of data 38] assms(3) by simp
  have "read_u16_at data (39 + length session) = Some (length ciphers)"
    using read_u16_at_append [OF assms(4), of "h @ word_of_nat (length session) # session"] h by (simp add: data_def a_def)
  then have p2: "skip_u16_vector data (39 + length session) = Some (41 + length session + length ciphers)"
    using assms(3,4) by (simp add: skip_u16_vector_def checked_add_def)
  have "get_at data (41 + length session + length ciphers) = Some (word_of_nat (length compression))"
    using h by (simp add: data_def a_def get_at_def nth_append)
  from skip_u8_vector_at [OF this assms(5)] have p3: "skip_u8_vector data (41 + length session + length ciphers) = Some (length a)"
    using assms(3-5) la by simp
  have len: "read_u16_at data (length a) = Some (length e)" using read_u16_at_append [OF e refl] by (simp add: data_def)
  have "sni_extensions data (length data) (length a + 2) = Inr (Some (of_bytes (as_bytes host)))"
  proof (rule sni_extensions_list [of data "a @ u16_bytes (length e)" pre others "as_bytes host" later
        "concat (map extension_entry post)"])
    show "length (server_names (others @ (0, as_bytes host) # later)) < 65536"
      using e by (simp add: e_def sn_def extension_entry_def)
  qed (use assms(6-8) ld in \<open>simp_all add: data_def e_def sn_def valid_string_def\<close>)
  then show ?thesis
    using first p1 p2 p3 len la ld hello
    by (simp add: parse_client_hello_sni_def checked_add_def sn_def [symmetric])
qed

theorem client_hello_sni_witness:
  "parse_client_hello_sni (client_hello [0, 0, 0] (replicate 32 7) [] [0x13, 1] [0]
     ([(43, [2, 3, 4])] @ (0, server_names ([] @ (0, as_bytes ''a.b'') # [])) # [])) = Inr (Some ''a.b'')"
proof -
  have "valid_string ''a.b''" by code_simp
  then show ?thesis
    by (intro client_hello_sni) (simp_all add: extension_entry_def server_names_def name_entry_def as_bytes_def Let_def)
qed

section \<open>Reassembly of CRYPTO frames\<close>

datatype quic_frame = PaddingFrame | PingFrame | CryptoFrame nat bytes

text \<open>The frames of RFC 9000, with the shortest form of each number.\<close>

definition quic_varint_bytes :: "nat \<Rightarrow> bytes" where
  "quic_varint_bytes n = (case encode_varint (word_of_nat n) [] of Inr bs \<Rightarrow> bs | Inl _ \<Rightarrow> [])"

fun frame_bytes :: "quic_frame \<Rightarrow> bytes" where
  "frame_bytes PaddingFrame = quic_varint_bytes 0"
| "frame_bytes PingFrame = quic_varint_bytes 1"
| "frame_bytes (CryptoFrame offset data) = quic_varint_bytes 6 @ quic_varint_bytes offset @ quic_varint_bytes (length data) @ data"

fun crypto_part :: "quic_frame \<Rightarrow> (nat \<times> bytes) list" where
  "crypto_part (CryptoFrame offset data) = [(offset, data)]"
| "crypto_part _ = []"

fun pieces_from :: "nat \<Rightarrow> bytes list \<Rightarrow> (nat \<times> bytes) list" where
  "pieces_from n [] = []"
| "pieces_from n (p # ps) = (n, p) # pieces_from (n + length p) ps"

lemma read_varint_bytes:
  assumes "n < 2 ^ 62"
  shows "read_quic_varint (quic_varint_bytes n @ rest) = Some (word_of_nat n, length (quic_varint_bytes n))"
proof -
  have "(word_of_nat n :: u64) \<le> MAX_VARINT"
    using assms by (simp add: word_le_nat_alt unat_MAX_VARINT unat_of_nat)
  then obtain bs where "encode_varint (word_of_nat n) [] = Inr bs"
    by (rule varint_roundtrip_append) (use that in force)
  then show ?thesis using read_quic_varint_append by (simp add: quic_varint_bytes_def)
qed

lemma varint_bytes_Nil: "n < 2 ^ 62 \<Longrightarrow> quic_varint_bytes n \<noteq> []"
  using read_varint_bytes [of n "[]"] by (auto simp: read_quic_varint_def)

lemma crypto_frames_bytes:
  "list_all (\<lambda>f. \<forall>(o', d) \<in> set (crypto_part f). o' < 2 ^ 62 \<and> length d \<le> 256 * 1024) fs \<Longrightarrow>
   crypto_frames m (concat (map frame_bytes fs)) =
     Some (foldl (\<lambda>m (o', d). btree_insert (word_of_nat o') d m) m (concat (map crypto_part fs)))"
proof (induction fs arbitrary: m)
  case Nil
  then show ?case by (simp add: crypto_frames.simps)
next
  case (Cons f fs)
  have ih: "crypto_frames m (concat (map frame_bytes fs)) =
      Some (foldl (\<lambda>m (o', d). btree_insert (word_of_nat o') d m) m (concat (map crypto_part fs)))" for m
    using Cons by simp
  show ?case
  proof (cases f)
    case PaddingFrame
    then show ?thesis
      using read_varint_bytes [of 0 "concat (map frame_bytes fs)"] varint_bytes_Nil [of 0]
      by (subst crypto_frames.simps) (simp add: ih)
  next
    case PingFrame
    then show ?thesis
      using read_varint_bytes [of 1 "concat (map frame_bytes fs)"] varint_bytes_Nil [of 1]
      by (subst crypto_frames.simps) (simp add: ih)
  next
    case (CryptoFrame off data)
    let ?rest = "concat (map frame_bytes fs)"
    have small: "off < 2 ^ 62" "length data \<le> 256 * 1024" using Cons.prems CryptoFrame by simp_all
    then have big: "length data < 2 ^ 62" by simp
    have v: "read_quic_varint (quic_varint_bytes 6 @ quic_varint_bytes off @ quic_varint_bytes (length data) @ data @ ?rest) = Some (6, length (quic_varint_bytes 6))"
      "read_quic_varint (quic_varint_bytes off @ quic_varint_bytes (length data) @ data @ ?rest) = Some (word_of_nat off, length (quic_varint_bytes off))"
      "read_quic_varint (quic_varint_bytes (length data) @ data @ ?rest) = Some (word_of_nat (length data), length (quic_varint_bytes (length data)))"
      using read_varint_bytes [of 6] read_varint_bytes [OF small(1)] read_varint_bytes [OF big] by simp_all
    have u: "unat (word_of_nat (length data) :: u64) = length data" using big by (simp add: unat_of_nat)
    show ?thesis
      using CryptoFrame v varint_bytes_Nil [of 6] small(2) ih
      by (subst crypto_frames.simps) (simp add: Let_def u)
  qed
qed

lemma btree_insert_insort:
  "k \<notin> fst ` set m \<Longrightarrow> btree_insert k v m = insort_key fst (k, v) m"
  by (induction k v m rule: btree_insert.induct) (auto simp: le_less)

lemma btree_insert_keys: "fst ` set (btree_insert k v m) = insert k (fst ` set m)"
  by (induction k v m rule: btree_insert.induct) auto

lemma fold_btree_insert:
  "distinct (map fst fs) \<Longrightarrow> set (map fst fs) \<inter> fst ` set m = {} \<Longrightarrow>
   foldl (\<lambda>m (k, v). btree_insert k v m) m fs = foldl (\<lambda>m x. insort_key fst x m) m fs"
proof (induction fs arbitrary: m)
  case (Cons x fs)
  have "fst x \<notin> fst ` set m" using Cons.prems(2) by auto
  then have "btree_insert (fst x) (snd x) m = insort_key fst x m" using btree_insert_insort [of "fst x" m "snd x"] by simp
  moreover have "set (map fst fs) \<inter> fst ` set (insort_key fst x m) = {}"
    using Cons.prems by (auto simp: set_insort_key)
  ultimately show ?case using Cons by (simp add: split_beta)
qed simp

lemma foldl_insort_sorted:
  "sorted (map fst m) \<Longrightarrow> sorted (map fst (foldl (\<lambda>m x. insort_key fst x m) m fs))"
  by (induction fs arbitrary: m) (simp_all add: sorted_insort_key)

lemma foldl_insort_set: "mset (foldl (\<lambda>m x. insort_key fst x m) m fs) = mset m + mset fs"
  by (induction fs arbitrary: m) simp_all

lemma join_pieces:
  "length (acc @ concat ps) \<le> 256 * 1024 \<Longrightarrow> acc @ concat ps \<noteq> [] \<Longrightarrow>
   join_frames acc (map (\<lambda>(o', d). (word_of_nat o', d)) (pieces_from (length acc) ps)) = Some (acc @ concat ps)"
proof (induction ps arbitrary: acc)
  case (Cons p ps)
  have "unat (word_of_nat (length acc) :: u64) = length acc" using Cons.prems(1) by (simp add: unat_of_nat)
  then show ?case using Cons.IH [of "acc @ p"] Cons.prems by simp
qed simp

lemma pieces_from_offsets: "x \<in> set (pieces_from n ps) \<Longrightarrow> n \<le> fst x \<and> fst x + length (snd x) \<le> n + length (concat ps)"
  by (induction ps arbitrary: n) fastforce+

lemma pieces_from_sorted:
  "[] \<notin> set ps \<Longrightarrow> sorted (map fst (pieces_from n ps)) \<and> distinct (map fst (pieces_from n ps))"
proof (induction ps arbitrary: n)
  case (Cons p ps)
  have "n < fst x" if "x \<in> set (pieces_from (n + length p) ps)" for x
    using pieces_from_offsets [OF that] Cons.prems by (cases p) auto
  then show ?case using Cons by fastforce
qed simp

lemma word_offsets_sorted:
  "\<forall>x \<in> set xs. fst x < 2 ^ 64 \<Longrightarrow> sorted (map fst xs) \<Longrightarrow> distinct (map fst xs) \<Longrightarrow>
   sorted (map fst (map (\<lambda>(o', d). (word_of_nat o' :: u64, d)) xs)) \<and>
   distinct (map fst (map (\<lambda>(o', d). (word_of_nat o' :: u64, d)) xs))"
proof (induction xs)
  case (Cons x xs)
  have "(word_of_nat (fst x) :: u64) < word_of_nat (fst y)" if "y \<in> set xs" for y
  proof -
    have "fst x \<le> fst y" "fst x \<noteq> fst y" "fst x < 2 ^ 64" "fst y < 2 ^ 64" using Cons.prems that by auto
    then show ?thesis by (simp add: word_less_nat_alt unat_of_nat)
  qed
  then have less: "\<forall>y \<in> set xs. (word_of_nat (fst x) :: u64) < word_of_nat (fst y)" by blast
  then have "\<forall>y \<in> set xs. (word_of_nat (fst x) :: u64) \<le> word_of_nat (fst y) \<and> (word_of_nat (fst x) :: u64) \<noteq> word_of_nat (fst y)"
    by (auto simp: less_le)
  then show ?case using Cons by (auto simp: split_beta)
qed simp

lemma mset_fst_eq: "mset xs = mset ys \<Longrightarrow> mset (map fst xs) = mset (map fst ys)"
  by (simp only: mset_map)

text \<open>
  C29: The client hello of an initial packet may come in several CRYPTO frames: in whatever order they stand, and
  whatever padding and pings stand between them, what is extracted is the stream of which they are pieces.
\<close>

theorem crypto_frames_any_order:
  assumes "mset (concat (map crypto_part fs)) = mset (pieces_from 0 ps)" and "[] \<notin> set ps" and "ps \<noteq> []"
    and "length (concat ps) \<le> 256 * 1024"
  shows "extract_crypto_frames (concat (map frame_bytes fs)) = Some (concat ps)"
proof -
  let ?w = "\<lambda>(o', d). (word_of_nat o' :: u64, d :: bytes)"
  define cs where "cs = concat (map crypto_part fs)"
  have range: "fst x + length (snd x) \<le> 256 * 1024" if "x \<in> set (pieces_from 0 ps)" for x
    using pieces_from_offsets [OF that] assms(4) by simp
  have mset: "mset cs = mset (pieces_from 0 ps)" unfolding cs_def by (rule assms(1))
  have set: "set cs = set (pieces_from 0 ps)" using mset by (rule mset_eq_setD)
  have ms: "mset (map ?w cs) = mset (map ?w (pieces_from 0 ps))" unfolding mset_map mset by (rule refl)
  have "crypto_frames [] (concat (map frame_bytes fs)) = Some (foldl (\<lambda>m (o', d). btree_insert (word_of_nat o') d m) [] cs)"
    unfolding cs_def
  proof (rule crypto_frames_bytes, unfold list_all_iff, intro ballI)
    fix f x
    assume "f \<in> set fs" "x \<in> set (crypto_part f)"
    then have "x \<in> set cs" by (auto simp: cs_def)
    then show "case x of (o', d) \<Rightarrow> o' < 2 ^ 62 \<and> length d \<le> 256 * 1024" using range [of x] set by auto
  qed
  moreover have "foldl (\<lambda>m (o', d). btree_insert (word_of_nat o') d m) m xs =
      foldl (\<lambda>m (k, v). btree_insert k v m) m (map ?w xs)" for m :: "(u64 \<times> bytes) list" and xs
    by (induction xs arbitrary: m) (simp_all add: split_beta)
  moreover have small: "\<forall>x \<in> set (pieces_from 0 ps). fst x < 2 ^ 64" using range by fastforce
  have sorted: "sorted (map fst (map ?w (pieces_from 0 ps)))" "distinct (map fst (map ?w (pieces_from 0 ps)))"
    using word_offsets_sorted [OF small] pieces_from_sorted [OF assms(2), of 0] by blast+
  moreover have dist: "distinct (map fst (map ?w cs))"
    using sorted(2) mset_fst_eq [OF ms] mset_eq_imp_distinct_iff by blast
  moreover have "foldl (\<lambda>m x. insort_key fst x m) [] (map ?w cs) = map ?w (pieces_from 0 ps)"
  proof (rule map_sorted_distinct_set_unique [where f = fst])
    let ?r = "foldl (\<lambda>m x. insort_key fst x m) [] (map ?w cs)"
    have r: "mset ?r = mset (map ?w (pieces_from 0 ps))" using foldl_insort_set [of "[]" "map ?w cs"] ms by simp
    then show "set ?r = set (map ?w (pieces_from 0 ps))" by (rule mset_eq_setD)
    then show "inj_on fst (set ?r \<union> set (map ?w (pieces_from 0 ps)))" using sorted(2) unfolding distinct_map [of fst] by simp
    show "sorted (map fst ?r)" by (rule foldl_insort_sorted) simp
    show "distinct (map fst ?r)" using sorted(2) mset_fst_eq [OF r] mset_eq_imp_distinct_iff by blast
  qed (use sorted in simp_all)
  ultimately show ?thesis
    using fold_btree_insert [of "map ?w cs" "[]"] join_pieces [of "[]" ps] assms(2-4)
    by (cases ps) (auto simp: extract_crypto_frames_def)
qed

theorem crypto_frames_any_order_witness:
  "extract_crypto_frames (concat (map frame_bytes [CryptoFrame 2 [3], PaddingFrame, CryptoFrame 0 [1, 2]])) =
     Some (concat [[1, 2], [3]])"
  by (rule crypto_frames_any_order) simp_all

end
