(* ===== verification/Config_Validate.thy ===== *)
theory Config_Validate
  imports Realm_Addr Obfs_Socket Outbound Sniff Congestion
begin

text \<open>
  Validation of the client and server configuration (\<open>hysteria/src/config.rs\<close>), with the values that are read from
  its strings: intervals, bandwidths, certificate pins, ECH configuration lists (\<open>tls.rs\<close>), prefixes, realm addresses,
  masquerade targets and ACME providers. Durations are numbers of nanoseconds; the duration, URL and base64 parsers, the file
  system and the platform are parameters.
\<close>

section \<open>Parameters\<close>

datatype base64_engine = Standard64 | StandardNoPad64 | UrlSafe64 | UrlSafeNoPad64

record config_env = outbound_env +
  ce_url :: url_parser
  ce_percent_decode :: "string \<Rightarrow> bytes"
  ce_base64 :: "base64_engine \<Rightarrow> string \<Rightarrow> bytes option"
  ce_read :: "string \<Rightarrow> bytes option"
  ce_linux :: bool
  ce_unix :: bool
  ce_file_path :: "full_url \<Rightarrow> string option"
  ce_header_name :: "string \<Rightarrow> bool"
  ce_header_value :: "string \<Rightarrow> bool"

abbreviation (input) secs :: "nat \<Rightarrow> nat" where
  "secs n \<equiv> n * 1000000000"

abbreviation (input) config_duration :: "'a config_env_scheme \<Rightarrow> string \<Rightarrow> string \<Rightarrow> cli_error + nat" where
  "config_duration env v field \<equiv> ok_or (CliError ''invalid {field} {value:?}: {error}'' [field, v]) (re_duration env v)"

abbreviation (input) kind_of :: "string \<Rightarrow> string" where
  "kind_of s \<equiv> to_ascii_lowercase (trim s)"

text \<open>\<open>split_once\<close> with a string.\<close>

fun split_once_str :: "string \<Rightarrow> string \<Rightarrow> (string \<times> string) option" where
  "split_once_str s p =
     (if starts_with s p then Some ([], drop (length p) s)
      else case s of [] \<Rightarrow> None | c # r \<Rightarrow> map_option (\<lambda>(a, b). (c # a, b)) (split_once_str r p))"

declare split_once_str.simps [simp del]

section \<open>Values\<close>

definition hop_intervals :: "'a config_env_scheme \<Rightarrow> client_transport_config \<Rightarrow> cli_error + (nat \<times> nat)" where
  "hop_intervals env config =
     and_then (ensure (kind_of (ct_kind config) \<in> {'''', ''udp''}) (CliError ''unsupported transport.type {:?}'' [ct_kind config])) (\<lambda>_.
     let fixed = trim (cu_hop_interval (ct_udp config));
         minimum = trim (cu_min_hop_interval (ct_udp config));
         maximum = trim (cu_max_hop_interval (ct_udp config)) in
     and_then (ensure (\<not> (fixed \<noteq> [] \<and> (minimum \<noteq> [] \<or> maximum \<noteq> [])))
       (cli_error ''transport.udp.hopInterval cannot be used with minHopInterval or maxHopInterval'')) (\<lambda>_.
     and_then
       (if fixed \<noteq> [] then
          and_then (config_duration env fixed ''transport.udp.hopInterval'') (\<lambda>interval. Inr (interval, interval))
        else if minimum = [] \<and> maximum = [] then Inr (secs 30, secs 30)
        else if minimum = [] \<or> maximum = []
        then Inl (cli_error ''transport.udp.minHopInterval and maxHopInterval must both be set'')
        else
          and_then (config_duration env minimum ''transport.udp.minHopInterval'') (\<lambda>low.
          and_then (config_duration env maximum ''transport.udp.maxHopInterval'') (\<lambda>high. Inr (low, high)))) (\<lambda>(low, high).
     and_then (ensure (\<not> (low < secs 5 \<or> high < low))
       (cli_error ''transport.udp hop interval must be at least 5s and minHopInterval must not exceed maxHopInterval'')) (\<lambda>_.
     Inr (low, high)))))"

definition parse_bandwidth :: "bandwidth_value option \<Rightarrow> cli_error + u64" where
  "parse_bandwidth v =
     (case v of
        None \<Rightarrow> Inr 0
      | Some (BandwidthInteger n) \<Rightarrow> Inr n
      | Some (BandwidthText text) \<Rightarrow>
          let text = to_ascii_lowercase (trim text); digits = takeWhile is_ascii_digit text; split = length digits in
          if split = length text then Inl (CliError ''bandwidth {text:?} has no unit'' [text])
          else if split = 0 then Inl (CliError ''invalid bandwidth {text:?}'' [text])
          else
            and_then (ok_or (cli_error ''{error}'') (parse_u64 digits)) (\<lambda>n.
            let unit = trim (drop split text) in
            and_then
              (if unit \<in> {''b'', ''bps''} then Inr (1 :: u64)
               else if unit \<in> {''k'', ''kb'', ''kbps''} then Inr 1000
               else if unit \<in> {''m'', ''mb'', ''mbps''} then Inr 1000000
               else if unit \<in> {''g'', ''gb'', ''gbps''} then Inr 1000000000
               else if unit \<in> {''t'', ''tb'', ''tbps''} then Inr 1000000000000
               else Inl (CliError ''unsupported bandwidth unit {unit:?}'' [unit])) (\<lambda>multiplier.
            if unat n * unat multiplier < 2 ^ 64 then Inr (n * multiplier div 8)
            else Inl (cli_error ''bandwidth value overflow''))))"

abbreviation (input) bandwidth_values :: "bandwidth \<Rightarrow> cli_error + (u64 \<times> u64)" where
  "bandwidth_values b \<equiv>
     and_then (parse_bandwidth (bw_up b)) (\<lambda>up. and_then (parse_bandwidth (bw_down b)) (\<lambda>down. Inr (up, down)))"

definition validate_obfuscation :: "obfuscation_config \<Rightarrow> cli_error + unit" where
  "validate_obfuscation config =
     (let password = (case config of ObfsSalamander p \<Rightarrow> p | ObfsGecko p _ _ \<Rightarrow> p) in
      if length password < 4 then Inl (cli_error ''obfuscation password must be at least 4 bytes'')
      else
        (case config of
           ObfsGecko _ min_size max_size \<Rightarrow>
             let minimum = (if min_size = 0 then 512 else min_size); maximum = (if max_size = 0 then 1200 else max_size) in
             if maximum < minimum \<or> 2048 < maximum
             then Inl (cli_error ''obfs.gecko packet sizes must satisfy 0 < minPacketSize <= maxPacketSize <= 2048'')
             else Inr ()
         | _ \<Rightarrow> Inr ()))"

definition obfs_transport_config :: "obfs_config \<Rightarrow> cli_error + obfuscation_config option" where
  "obfs_transport_config config =
     (let kind = kind_of (obc_kind config) in
      if kind \<in> {'''', ''plain''} then Inr None
      else
        and_then
          (if kind = ''salamander'' then Inr (ObfsSalamander (as_bytes (os_password (obc_salamander config))))
           else if kind = ''gecko''
           then Inr (ObfsGecko (as_bytes (og_password (obc_gecko config))) (og_min_packet_size (obc_gecko config))
             (og_max_packet_size (obc_gecko config)))
           else Inl (CliError ''unsupported obfs.type {kind:?}; supported types: plain, salamander, gecko'' [kind])) (\<lambda>transport.
        and_then (validate_obfuscation transport) (\<lambda>_. Inr (Some transport))))"

definition congestion_config_settings :: "congestion_config \<Rightarrow> bool \<Rightarrow> cli_error + congestion_settings" where
  "congestion_config_settings config disable_loss_compensation =
     (let kind = kind_of (cg_kind config) in
      and_then
        (if kind \<in> {'''', ''bbr''} then
           (let profile = kind_of (cg_bbr_profile config) in
            if profile \<in> {'''', ''standard''} then Inr (Bbr Standard)
            else if profile = ''conservative'' then Inr (Bbr Conservative)
            else if profile = ''aggressive'' then Inr (Bbr Aggressive)
            else Inl (CliError ''unsupported congestion.bbrProfile {profile:?}'' [profile]))
         else if kind = ''reno'' then Inr Reno
         else Inl (CliError ''unsupported congestion.type {kind:?}; supported types: bbr, reno'' [kind])) (\<lambda>algorithm.
      Inr \<lparr>cs_algorithm = algorithm, cs_disable_loss_compensation = disable_loss_compensation\<rparr>))"

text \<open>The bytes of a certificate pin: slices of the string, which would panic inside a character.\<close>

definition normalize_certificate_pin :: "string \<Rightarrow> cli_error fault + bytes" where
  "normalize_certificate_pin v =
     (let normalized = to_ascii_lowercase (filter (\<lambda>c. c \<notin> {CHR '':'', CHR ''-''}) v) in
      if length normalized \<noteq> 64 \<or> \<not> list_all is_ascii_hexdigit normalized
      then Inl (Err (cli_error ''tls.pinSHA256 must contain exactly 64 hexadecimal digits''))
      else
        try_map (\<lambda>index.
          and_then (str_slice normalized (index * 2) (index * 2 + 2)) (\<lambda>digits.
          ok_or (Err (cli_error ''{error}'')) (map_option word_of_nat (parse_uint 16 255 digits)))) [0..<32])"

definition parse_ip_prefix :: "string \<Rightarrow> string \<Rightarrow> bool \<Rightarrow> cli_error + (ip_addr \<times> u8)" where
  "parse_ip_prefix v field ipv4 =
     (let (address, prefix) = (case rsplit_once v (CHR ''/'') of None \<Rightarrow> (v, None) | Some (a, p) \<Rightarrow> (a, Some p)) in
      and_then (ok_or (CliError ''invalid {field} {value:?}: {error}'' [field, v]) (parse_ip address)) (\<lambda>ip.
      and_then (ensure (is_ipv4 ip = ipv4)
        (CliError ''invalid {field} {value:?}: wrong address family'' [field, v])) (\<lambda>_.
      let maximum = (if ipv4 then 32 else 128) in
      and_then (case prefix of
                  None \<Rightarrow> Inr maximum
                | Some p \<Rightarrow> ok_or (CliError ''invalid {field} {value:?}: {error}'' [field, v]) (parse_u8 p)) (\<lambda>prefix.
      and_then (ensure (prefix \<le> maximum) (CliError ''invalid {field} {value:?}: prefix exceeds {maximum}'' [field, v, uint_string maximum])) (\<lambda>_.
      Inr (ip, prefix))))))"

section \<open>ECH configuration lists\<close>

function ech_configs :: "bytes \<Rightarrow> usize \<Rightarrow> cli_error fault + unit" where
  "ech_configs list position =
     (if position < length list then
        (if length list - position < 4 then Inl (Err (cli_error ''malformed tls.ech config header''))
         else
           (case (index_at list (position + 2) :: cli_error fault + u8) of
              Inl e \<Rightarrow> Inl e
            | Inr high \<Rightarrow>
                (case (index_at list (position + 3) :: cli_error fault + u8) of
                   Inl e \<Rightarrow> Inl e
                 | Inr low \<Rightarrow>
                     let len = unat (from_be_bytes [high, low] :: u16) in
                     (case checked_add position (4 + len) of
                        None \<Rightarrow> Inl (Err (cli_error ''malformed tls.ech config length''))
                      | Some next \<Rightarrow>
                          if length list < next then Inl (Err (cli_error ''malformed tls.ech config length''))
                          else ech_configs list next))))
      else Inr ())"
  by pat_completeness auto
termination
  by (relation "measure (\<lambda>(list, position). length list - position)") (auto simp: checked_add_def split: if_splits)

declare ech_configs.simps [simp del]

definition validate_ech_config_list :: "bytes \<Rightarrow> cli_error fault + unit" where
  "validate_ech_config_list list =
     (if length list < 2 then Inl (Err (cli_error ''malformed tls.ech config list: truncated length''))
      else
        and_then (index_at list 0) (\<lambda>high.
        and_then (index_at list 1) (\<lambda>low.
        let body_length = unat (from_be_bytes [high, low] :: u16) in
        if body_length = 0 \<or> body_length \<noteq> length list - 2 then Inl (Err (cli_error ''malformed tls.ech config list length''))
        else ech_configs list 2)))"

definition decode_ech_config_list :: "'a config_env_scheme \<Rightarrow> string \<Rightarrow> cli_error fault + bytes option" where
  "decode_ech_config_list env v =
     (let v = trim v in
      foldl (\<lambda>found engine.
        and_then found (\<lambda>found.
        case found of
          Some decoded \<Rightarrow> Inr (Some decoded)
        | None \<Rightarrow>
            (case ce_base64 env engine v of
               None \<Rightarrow> Inr None
             | Some decoded \<Rightarrow>
                 (case validate_ech_config_list decoded of
                    Inl Panic \<Rightarrow> Inl Panic
                  | Inl (Err _) \<Rightarrow> Inr None
                  | Inr _ \<Rightarrow> Inr (Some decoded)))))
        (Inr None) [Standard64, StandardNoPad64, UrlSafe64, UrlSafeNoPad64])"

definition decode_ech_pem :: "'a config_env_scheme \<Rightarrow> bytes \<Rightarrow> cli_error + bytes option" where
  "decode_ech_pem env data =
     (if \<not> utf8_valid data then Inl (cli_error ''tls.ech file is not valid UTF-8'')
      else
        (case split_once_str (of_bytes data) ''-----BEGIN ECH CONFIGS-----'' of
           None \<Rightarrow> Inr None
         | Some (_, remainder) \<Rightarrow>
             (case split_once_str remainder ''-----END ECH CONFIGS-----'' of
                None \<Rightarrow> Inl (cli_error ''tls.ech ECH CONFIGS PEM block has no end marker'')
              | Some (encoded, _) \<Rightarrow>
                  and_then (ok_or (cli_error ''invalid tls.ech ECH CONFIGS PEM: {error}'')
                    (ce_base64 env Standard64 (concat (split_whitespace encoded)))) (\<lambda>contents. Inr (Some contents)))))"

definition parse_ech_config_list :: "'a config_env_scheme \<Rightarrow> string \<Rightarrow> cli_error fault + bytes" where
  "parse_ech_config_list env v =
     (let v = trim v in
      if v = [] then Inl (Err (cli_error ''empty tls.ech config list''))
      else
        and_then (decode_ech_config_list env v) (\<lambda>decoded.
        case decoded of
          Some list \<Rightarrow> Inr list
        | None \<Rightarrow>
            and_then (ok_or (Err (cli_error ''tls.ech is neither a valid base64 config list nor a readable file: {error}''))
              (ce_read env v)) (\<lambda>data.
            and_then (map_err Err (decode_ech_pem env data)) (\<lambda>pem.
            case pem of
              Some contents \<Rightarrow> and_then (validate_ech_config_list contents) (\<lambda>_. Inr contents)
            | None \<Rightarrow>
                if \<not> utf8_valid data
                then Inl (Err (cli_error ''tls.ech file does not contain UTF-8 base64 or ECH CONFIGS PEM''))
                else
                  and_then (decode_ech_config_list env (of_bytes data)) (\<lambda>decoded.
                  ok_or (Err (cli_error ''tls.ech file does not contain a valid ECH config list'')) decoded)))))"

section \<open>The client\<close>

definition validate_realm_config ::
  "'a config_env_scheme \<Rightarrow> string \<Rightarrow> string \<Rightarrow> string \<Rightarrow> string option \<Rightarrow> realm_port_mapping_config \<Rightarrow> cli_error + unit" where
  "validate_realm_config env ip_mode stun_timeout punch_timeout heartbeat_interval port_mapping =
     and_then (ensure (kind_of ip_mode \<in> {'''', ''dual'', ''v4'', ''v6''}) (cli_error ''realm.ipMode must be dual, v4, or v6'')) (\<lambda>_.
     try_for_each (\<lambda>(field, v).
       if trim v = [] then Inr ()
       else
         and_then (ok_or (CliError ''invalid {field}: {error}'' [field]) (re_duration env v)) (\<lambda>duration.
         ensure (duration \<noteq> 0) (CliError ''{field} must be greater than zero'' [field])))
       [(''realm.stunTimeout'', stun_timeout), (''realm.punchTimeout'', punch_timeout),
        (''realm.heartbeatInterval'', unwrap_or [] heartbeat_interval),
        (''realm.portMapping.timeout'', pm_timeout port_mapping), (''realm.portMapping.lifetime'', pm_lifetime port_mapping)])"

abbreviation (input) is_realm :: "string \<Rightarrow> bool" where
  "is_realm address \<equiv> starts_with address ''realm:'' \<or> starts_with address ''realm+http:''"

definition validate_connection :: "'a config_env_scheme \<Rightarrow> client_config \<Rightarrow> cli_error fault + unit" where
  "validate_connection env config =
     and_then (map_err Err (ensure (cc_server config \<noteq> []) (cli_error ''client server is required''))) (\<lambda>_.
     and_then (map_err Err (ensure (cc_auth config \<noteq> []) (cli_error ''client auth is required''))) (\<lambda>_.
     and_then (map_err Err (ensure ((cl_client_certificate (cc_tls config) = []) = (cl_client_key (cc_tls config) = []))
       (cli_error ''tls.clientCertificate and tls.clientKey must be configured together''))) (\<lambda>_.
     and_then (if cl_pin_sha256 (cc_tls config) \<noteq> []
               then and_then (normalize_certificate_pin (cl_pin_sha256 (cc_tls config))) (\<lambda>_. Inr ()) else Inr ()) (\<lambda>_.
     and_then (if cl_ech (cc_tls config) \<noteq> []
               then and_then (parse_ech_config_list env (cl_ech (cc_tls config))) (\<lambda>_. Inr ()) else Inr ()) (\<lambda>_.
     and_then (if is_realm (cc_server config)
               then
                 and_then (map_err (\<lambda>_. Err (cli_error ''invalid client server: {error}''))
                   (realm_addr_parse (ce_url env) (ce_percent_decode env) (cc_server config))) (\<lambda>_.
                 map_err Err (validate_realm_config env (cr_ip_mode (cc_realm config)) (cr_stun_timeout (cc_realm config))
                   (cr_punch_timeout (cc_realm config)) None (cr_port_mapping (cc_realm config))))
               else Inr ()) (\<lambda>_.
     and_then (map_err Err (ensure (ce_linux env \<or> co_fd_control_unix_socket (cq_sockopts (cc_quic config)) = [])
       (cli_error ''quic.sockopts.fdControlUnixSocket is only supported on Linux''))) (\<lambda>_.
     and_then (map_err Err (ensure (ce_linux env \<or> co_bind_interface (cq_sockopts (cc_quic config)) = [] \<and>
         co_firewall_mark (cq_sockopts (cc_quic config)) = None)
       (cli_error ''quic.sockopts.bindInterface and fwmark are only supported on Linux''))) (\<lambda>_.
     and_then (map_err Err (bandwidth_values (cc_bandwidth config))) (\<lambda>_.
     and_then (map_err Err (congestion_config_settings (cc_congestion config) (bw_disable_loss_compensation (cc_bandwidth config)))) (\<lambda>_.
     and_then (map_err Err (obfs_transport_config (cc_obfs config))) (\<lambda>_.
     and_then (map_err Err (hop_intervals env (cc_transport config))) (\<lambda>_. Inr ()))))))))))))"

abbreviation (input) tun_ipv4_address :: "tun_config \<Rightarrow> string" where
  "tun_ipv4_address tun \<equiv> (if ta_ipv4 (tc_address tun) = [] then ''100.100.100.101/30'' else ta_ipv4 (tc_address tun))"

abbreviation (input) tun_ipv6_address :: "tun_config \<Rightarrow> string" where
  "tun_ipv6_address tun \<equiv> (if ta_ipv6 (tc_address tun) = [] then ''2001::ffff:ffff:ffff:fff1/126'' else ta_ipv6 (tc_address tun))"

definition tun_validate :: "'a config_env_scheme \<Rightarrow> tun_config \<Rightarrow> cli_error + unit" where
  "tun_validate env tun =
     and_then (ensure (tc_name tun \<noteq> []) (cli_error ''tun.name is required'')) (\<lambda>_.
     and_then (config_duration env (tc_timeout tun) ''tun.timeout'') (\<lambda>_.
     and_then (try_for_each (\<lambda>(field, address, ipv4).
         and_then (ensure (CHR ''/'' \<in> set address) (CliError ''{field} must include a prefix length'' [field])) (\<lambda>_.
         and_then (parse_ip_prefix address field ipv4) (\<lambda>_. Inr ())))
       [(''tun.address.ipv4'', tun_ipv4_address tun, True), (''tun.address.ipv6'', tun_ipv6_address tun, False)]) (\<lambda>_.
     case tc_route tun of
       None \<Rightarrow> Inr ()
     | Some route \<Rightarrow>
         try_for_each (\<lambda>(field, entries, ipv4).
             try_for_each (\<lambda>entry. and_then (parse_ip_prefix entry field ipv4) (\<lambda>_. Inr ())) entries)
           [(''tun.route.ipv4'', tr_ipv4 route, True), (''tun.route.ipv6'', tr_ipv6 route, False),
            (''tun.route.ipv4Exclude'', tr_ipv4_exclude route, True), (''tun.route.ipv6Exclude'', tr_ipv6_exclude route, False)])))"

abbreviation (input) tun_parsed_addresses :: "tun_config \<Rightarrow> cli_error + (ip_addr \<times> u8) \<times> (ip_addr \<times> u8)" where
  "tun_parsed_addresses tun \<equiv> and_then (parse_ip_prefix (tun_ipv4_address tun) ''tun.address.ipv4'' True) (\<lambda>v4.
     and_then (parse_ip_prefix (tun_ipv6_address tun) ''tun.address.ipv6'' False) (\<lambda>v6. Inr (v4, v6)))"

definition tun_route_parsed :: "tun_route_config \<Rightarrow> cli_error + parsed_tun_routes" where
  "tun_route_parsed route =
     (let parse_all = (\<lambda>entries field ipv4. try_map (\<lambda>entry. parse_ip_prefix entry field ipv4) entries) in
      and_then (parse_all (tr_ipv4 route) ''tun.route.ipv4'' True) (\<lambda>v4.
      and_then (parse_all (tr_ipv6 route) ''tun.route.ipv6'' False) (\<lambda>v6.
      and_then (parse_all (tr_ipv4_exclude route) ''tun.route.ipv4Exclude'' True) (\<lambda>x4.
      and_then (parse_all (tr_ipv6_exclude route) ''tun.route.ipv6Exclude'' False) (\<lambda>x6.
      Inr \<lparr>pr_ipv4 = v4, pr_ipv6 = v6, pr_ipv4_exclude = x4, pr_ipv6_exclude = x6\<rparr>)))))"

definition client_validate :: "'a config_env_scheme \<Rightarrow> client_config \<Rightarrow> cli_error fault + unit" where
  "client_validate env config =
     and_then (validate_connection env config) (\<lambda>_.
     map_err Err (
     and_then (ensure (\<not> (cc_tcp_forwarding config = [] \<and> cc_udp_forwarding config = [] \<and> cc_socks5 config = None \<and>
         cc_http config = None \<and> cc_tcp_redirect config = None \<and> cc_tcp_tproxy config = None \<and>
         cc_udp_tproxy config = None \<and> cc_tun config = None))
       (cli_error ''configure socks5, http, tcpForwarding, udpForwarding, tcpRedirect, tcpTProxy, udpTProxy, or tun'')) (\<lambda>_.
     and_then (try_for_each (\<lambda>(name, username, password).
         ensure ((username = []) = (password = []))
           (CliError ''{name}.username and {name}.password must be configured together'' [name]))
       ((case cc_socks5 config of None \<Rightarrow> [] | Some proxy \<Rightarrow> [(''socks5'', s5_username proxy, s5_password proxy)]) @
        (case cc_http config of None \<Rightarrow> [] | Some proxy \<Rightarrow> [(''http'', hp_username proxy, hp_password proxy)]))) (\<lambda>_.
     and_then (try_for_each (\<lambda>forwarding.
         and_then (config_duration env (uf_timeout forwarding) ''udpForwarding.timeout'') (\<lambda>_. Inr ())) (cc_udp_forwarding config)) (\<lambda>_.
     and_then (case cc_udp_tproxy config of
                 None \<Rightarrow> Inr ()
               | Some proxy \<Rightarrow> and_then (config_duration env (tu_timeout proxy) ''udpTProxy.timeout'') (\<lambda>_. Inr ())) (\<lambda>_.
     case cc_tun config of None \<Rightarrow> Inr () | Some tun \<Rightarrow> tun_validate env tun))))))"

section \<open>The server\<close>

definition namecheap_new :: "'a config_env_scheme \<Rightarrow> (string, string) hmap \<Rightarrow> cli_error + unit" where
  "namecheap_new env config =
     (let get = (\<lambda>key. unwrap_or [] (hm_get config key));
          endpoint = (if get ''namecheap_api_endpoint'' = [] then ''https://api.namecheap.com/xml.response''
                      else get ''namecheap_api_endpoint'') in
      and_then (ok_or (cli_error ''invalid Namecheap API endpoint'') (ce_url env endpoint)) (\<lambda>url.
      and_then (ensure (\<not> (url_scheme url \<noteq> ''https'' \<or> url_host url = None \<or> url_username url \<noteq> [] \<or>
          url_password url \<noteq> None \<or> fu_query url \<noteq> None \<or> fu_fragment url \<noteq> None))
        (cli_error ''Namecheap API endpoint must be an HTTPS URL without credentials, query or fragment'')) (\<lambda>_.
      ensure (parse_ipv4 (get ''namecheap_client_ip'') \<noteq> None)
        (cli_error ''namecheap_client_ip must be a whitelisted IPv4 address''))))"

abbreviation (input) acme_dns_required :: "string \<Rightarrow> cli_error + string list" where
  "acme_dns_required provider \<equiv> (if provider = ''namecheap'' then Inr [''namecheap_api_key'', ''namecheap_api_user'', ''namecheap_client_ip'']
      else if provider = ''njalla'' then Inr [''njalla_api_token'']
      else if provider = ''porkbun'' then Inr [''porkbun_api_key'', ''porkbun_api_secret_key'']
      else if provider = ''cloudflare'' then Inr [''cloudflare_api_token'']
      else if provider = ''duckdns'' then Inr [''duckdns_api_token'']
      else if provider = ''gandi'' then Inr [''gandi_api_token'']
      else if provider = ''godaddy'' then Inr [''godaddy_api_token'']
      else if provider = ''namedotcom'' then Inr [''namedotcom_token'', ''namedotcom_user'']
      else if provider = ''vultr'' then Inr [''vultr_api_token'']
      else if provider = [] then Inl (cli_error ''acme.dns.name is required'')
      else Inl (cli_error ''unsupported acme.dns.name''))"

definition acme_dns_validate :: "'a config_env_scheme \<Rightarrow> server_acme_dns \<Rightarrow> cli_error + unit" where
  "acme_dns_validate env dns =
     (let provider = kind_of (ad_name dns) in
      and_then (acme_dns_required provider) (\<lambda>required.
      and_then (try_for_each (\<lambda>key.
          ensure (case hm_get (ad_config dns) key of None \<Rightarrow> False | Some v \<Rightarrow> trim v \<noteq> [])
            (CliError ''acme.dns.config.{key} is required'' [key])) required) (\<lambda>_.
      and_then (if provider = ''namecheap'' then namecheap_new env (ad_config dns) else Inr ()) (\<lambda>_.
      case hm_get (ad_config dns) ''namedotcom_server'' of
        None \<Rightarrow> Inr ()
      | Some server \<Rightarrow>
          ensure (server = [] \<or> starts_with server ''https://'') (cli_error ''acme.dns.config.namedotcom_server must use https://'')))))"

definition acme_validate :: "'a config_env_scheme \<Rightarrow> server_acme \<Rightarrow> cli_error + unit" where
  "acme_validate env acme =
     and_then (ensure (\<not> (sa_domains acme = [] \<or> list_ex (\<lambda>domain. trim domain = []) (sa_domains acme)))
       (cli_error ''acme.domains must contain at least one domain'')) (\<lambda>_.
     let ca = kind_of (sa_ca acme) in
     and_then (ensure (ca \<in> {'''', ''letsencrypt'', ''le'', ''zerossl'', ''zero''}) (cli_error ''unsupported acme.ca'')) (\<lambda>_.
     and_then (ensure (\<not> (ca \<in> {''zerossl'', ''zero''} \<and> trim (sa_email acme) = []))
       (cli_error ''acme.email is required for ZeroSSL'')) (\<lambda>_.
     let kind = kind_of (sa_kind acme) in
     if kind \<in> {''http'', ''tls''} then Inr ()
     else if kind = [] then
       ensure (\<not> sa_disable_tls_alpn acme \<or> \<not> sa_disable_http acme)
         (cli_error ''acme disables both HTTP-01 and TLS-ALPN-01 challenges'')
     else if kind = ''dns'' then acme_dns_validate env (sa_dns acme)
     else Inl (cli_error ''unsupported acme.type; expected http, tls, or dns''))))"

definition server_quic_validate :: "'a config_env_scheme \<Rightarrow> server_quic_config \<Rightarrow> cli_error + unit" where
  "server_quic_validate env quic =
     and_then (try_for_each (\<lambda>(field, v). ensure (\<not> (v \<noteq> 0 \<and> v < 16384)) (CliError ''{field} must be at least 16384'' [field]))
       [(''quic.initStreamReceiveWindow'', sq_init_stream_receive_window quic),
        (''quic.maxStreamReceiveWindow'', sq_max_stream_receive_window quic),
        (''quic.initConnReceiveWindow'', sq_init_connection_receive_window quic),
        (''quic.maxConnReceiveWindow'', sq_max_connection_receive_window quic)]) (\<lambda>_.
     and_then (if sq_max_idle_timeout quic = [] then Inr ()
               else
                 and_then (config_duration env (sq_max_idle_timeout quic) ''quic.maxIdleTimeout'') (\<lambda>timeout.
                 ensure (secs 4 \<le> timeout \<and> timeout \<le> secs 120) (cli_error ''quic.maxIdleTimeout must be between 4s and 120s''))) (\<lambda>_.
     ensure (\<not> (sq_max_incoming_streams quic \<noteq> 0 \<and> sq_max_incoming_streams quic < 8))
       (cli_error ''quic.maxIncomingStreams must be at least 8'')))"

text \<open>The target of the reverse proxy: a URL, or the path of a Unix socket.\<close>

definition proxy_target :: "'a config_env_scheme \<Rightarrow> string \<Rightarrow> cli_error + (full_url option \<times> string option)" where
  "proxy_target env v =
     and_then (ok_or (cli_error ''invalid masquerade proxy URL: {error}'')
       (ce_url env (if starts_with v ''/'' then ''unix://'' @ v else v))) (\<lambda>url.
     if url_scheme url \<in> {''http'', ''https''} then Inr (Some url, None)
     else if url_scheme url = ''unix'' then
       and_then (ensure (ce_unix env) (cli_error ''Unix socket masquerade requires a Unix platform'')) (\<lambda>_.
       and_then (ensure (\<not> (url_host url \<noteq> None \<or> url_username url \<noteq> [] \<or> url_password url \<noteq> None \<or>
           fu_query url \<noteq> None \<or> fu_fragment url \<noteq> None \<or> \<not> starts_with (url_path url) ''/''))
         (cli_error ''invalid Unix socket URL: expected an absolute path without host, credentials, query or fragment'')) (\<lambda>_.
       and_then (ok_or (cli_error ''{error}'') (ce_url env (''file://'' @ url_path url))) (\<lambda>file_url.
       and_then (ok_or (cli_error ''invalid Unix socket path'') (ce_file_path env file_url)) (\<lambda>path.
       Inr (ce_url env ''http://localhost'', Some path)))))
     else Inl (CliError ''unsupported masquerade proxy scheme {scheme:?}'' [url_scheme url]))"

definition masquerade_validate :: "'a config_env_scheme \<Rightarrow> masquerade_config \<Rightarrow> cli_error + unit" where
  "masquerade_validate env config =
     and_then (ensure (\<not> (mc_listen_http config \<noteq> [] \<and> mc_listen_https config = []))
       (cli_error ''masquerade.listenHTTP requires masquerade.listenHTTPS'')) (\<lambda>_.
     let kind = kind_of (mc_kind config) in
     if kind = ''file'' \<and> mf_dir (mc_file config) = [] then Inl (cli_error ''file masquerade requires masquerade.file.dir'')
     else if kind \<in> {'''', ''404'', ''file''} then Inr ()
     else if kind = ''proxy'' then
       (if mp_url (mc_proxy config) = [] then Inl (cli_error ''proxy masquerade requires masquerade.proxy.url'')
        else and_then (proxy_target env (mp_url (mc_proxy config))) (\<lambda>_. Inr ()))
     else if kind = ''string'' then
       (if ms_content (mc_string config) = [] then Inl (cli_error ''string masquerade requires masquerade.string.content'')
        else
          let status = ms_status_code (mc_string config) in
          and_then (ensure (\<not> (status \<noteq> 0 \<and> (\<not> (200 \<le> status \<and> status \<le> 599) \<or> status = 233)))
            (cli_error ''masquerade.string.statusCode must be 200-599 except 233'')) (\<lambda>_.
          try_for_each (\<lambda>(name, v).
            and_then (ensure (ce_header_name env name) (CliError ''invalid masquerade string header {name:?}: {error}'' [name])) (\<lambda>_.
            ensure (ce_header_value env v) (CliError ''invalid masquerade string header value for {name:?}: {error}'' [name])))
            (ms_headers (mc_string config))))
     else Inl (CliError ''unsupported masquerade type {kind:?}'' [kind]))"

definition validate_auth :: "server_auth \<Rightarrow> cli_error + unit" where
  "validate_auth auth =
     (let kind = kind_of (su_kind auth) in
      if kind = ''password'' \<and> su_password auth = [] then Inl (cli_error ''password authentication requires auth.password'')
      else if kind = ''userpass'' \<and> su_userpass auth = [] then Inl (cli_error ''userpass authentication requires auth.userpass'')
      else if kind \<in> {''http'', ''https''} \<and> uh_url (su_http auth) = [] then Inl (cli_error ''HTTP authentication requires auth.http.url'')
      else if kind \<in> {''command'', ''cmd''} \<and> su_command auth = [] then Inl (cli_error ''command authentication requires auth.command'')
      else if kind \<in> {''password'', ''userpass'', ''http'', ''https'', ''command'', ''cmd''} then Inr ()
      else Inl (CliError ''unsupported server auth type {other:?}; supported types: password, userpass, http, command'' [kind]))"

definition server_validate :: "'a config_env_scheme \<Rightarrow> server_config \<Rightarrow> cli_error fault + unit" where
  "server_validate env config =
     (let has_tls = st_cert (sc_tls config) \<noteq> [] \<or> st_key (sc_tls config) \<noteq> [] in
     and_then (map_err Err (
       and_then (ensure (\<not> (has_tls \<and> sc_acme config \<noteq> None)) (cli_error ''server cannot configure both tls and acme'')) (\<lambda>_.
       and_then (ensure (\<not> (\<not> has_tls \<and> sc_acme config = None)) (cli_error ''server must configure either tls or acme'')) (\<lambda>_.
       and_then (ensure (\<not> (has_tls \<and> (st_cert (sc_tls config) = [] \<or> st_key (sc_tls config) = [])))
         (cli_error ''server tls.cert and tls.key are required together'')) (\<lambda>_.
       and_then (case sc_acme config of None \<Rightarrow> Inr () | Some acme \<Rightarrow> acme_validate env acme) (\<lambda>_.
       and_then (ensure (case sc_ech config of None \<Rightarrow> True | Some ech \<Rightarrow> trim (se_key_path ech) \<noteq> [])
         (cli_error ''ech.keyPath must not be empty'')) (\<lambda>_.
       and_then (if is_realm (sc_listen config)
                 then
                   and_then (map_err (\<lambda>_. cli_error ''invalid server listen address: {error}'')
                     (realm_addr_parse (ce_url env) (ce_percent_decode env) (sc_listen config))) (\<lambda>_.
                   validate_realm_config env (sr_ip_mode (sc_realm config)) (sr_stun_timeout (sc_realm config))
                     (sr_punch_timeout (sc_realm config)) (Some (sr_heartbeat_interval (sc_realm config)))
                     (sr_port_mapping (sc_realm config)))
                 else Inr ()) (\<lambda>_.
       and_then (ensure (kind_of (st_sni_guard (sc_tls config)) \<in> {'''', ''dns-san'', ''strict'', ''disable''})
         (cli_error ''unsupported tls.sniGuard; expected dns-san, strict, or disable'')) (\<lambda>_.
       and_then (validate_auth (sc_auth config)) (\<lambda>_.
       and_then (config_duration env (sc_udp_idle_timeout config) ''udpIdleTimeout'') (\<lambda>_.
       and_then (server_quic_validate env (sc_quic config)) (\<lambda>_.
       and_then (bandwidth_values (sc_bandwidth config)) (\<lambda>_.
       and_then (congestion_config_settings (sc_congestion config) (bw_disable_loss_compensation (sc_bandwidth config))) (\<lambda>_.
       and_then (obfs_transport_config (sc_obfs config)) (\<lambda>_.
       masquerade_validate env (sc_masquerade config)))))))))))))))) (\<lambda>_.
     and_then (outbound_validate env (sc_outbounds config) (sc_acl config) (sc_resolver config)) (\<lambda>_.
     if sn_enable (sc_sniff config)
     then map_err Err (and_then (sniffer_build (re_duration env) (sc_sniff config)) (\<lambda>_. Inr ())) else Inr ())))"

section \<open>Agreement with the codec\<close>

lemma validate_obfuscation_iff: "validate_obfuscation c = Inr () \<longleftrightarrow> (\<exists>codec. wire_codec_new c = Inr codec)"
  by (cases c) (auto simp: validate_obfuscation_def salamander_new_def gecko_new_def Let_def)

lemma obfs_transport_config_codec:
  "obfs_transport_config c = Inr (Some transport) \<Longrightarrow> \<exists>codec. wire_codec_new transport = Inr codec"
  by (auto simp: obfs_transport_config_def Let_def and_then_eq_Inr validate_obfuscation_iff [symmetric] split: if_splits)

lemma hop_intervals_range: "hop_intervals env t = Inr (low, high) \<Longrightarrow> 5 * 1000000000 \<le> low \<and> low \<le> high"
  by (auto simp: hop_intervals_def Let_def and_then_eq_Inr ensure_def split: if_splits)

section \<open>ECH configuration lists\<close>

lemma u16_bytes_unat [simp]: "u16_bytes (unat (from_be_bytes [h, l] :: u16)) = [h, l]"
  by (simp add: u16_bytes_def be_bytes_from_be_bytes)

lemma unat_u16_bytes: "u16_bytes n = [h, l] \<Longrightarrow> n < 65536 \<Longrightarrow> unat (from_be_bytes [h, l] :: u16) = n"
proof -
  assume "u16_bytes n = [h, l]" "n < 65536"
  then have "from_be_bytes [h, l] = (word_of_nat n :: u16)" by (metis from_be_bytes_id(1) u16_bytes_def)
  then show ?thesis using \<open>n < 65536\<close> by (simp add: unat_of_nat)
qed

definition ech_configs_ok :: "(nat \<times> bytes) list \<Rightarrow> bool" where
  "ech_configs_ok cs = list_all (\<lambda>c. fst c < 65536 \<and> length (snd c) < 65536) cs"

lemma ech_configs_step:
  fixes h l :: u8
  defines "len \<equiv> unat (from_be_bytes [h, l] :: u16)"
  assumes "length (pre @ a # b # h # l # rest) \<le> 65537"
  shows "ech_configs (pre @ a # b # h # l # rest) (length pre) =
    (if length rest < len then Inl (Err (cli_error ''malformed tls.ech config length''))
     else ech_configs ((pre @ a # b # h # l # take len rest) @ drop len rest) (length (pre @ a # b # h # l # take len rest)))"
proof -
  have "len < 65536" unfolding len_def using unsigned_less [of "from_be_bytes [h, l] :: u16", where 'a = nat] by simp
  then have "checked_add (length pre) (4 + len) = Some (length pre + 4 + len)"
    using assms(2) by (simp add: checked_add_def)
  moreover have "(pre @ a # b # h # l # take len rest) @ drop len rest = pre @ a # b # h # l # rest" by simp
  moreover have "length (pre @ a # b # h # l # take len rest) = length pre + 4 + len" if "\<not> length rest < len"
    using that by simp
  ultimately show ?thesis
    by (subst ech_configs.simps) (simp add: index_at_def nth_append Let_def len_def eval_nat_numeral)
qed

lemma ech_configs_iff:
  assumes "length (pre @ r) \<le> 65537"
  shows "ech_configs (pre @ r) (length pre) \<noteq> Inl Panic \<and>
    (ech_configs (pre @ r) (length pre) = Inr () \<longleftrightarrow> (\<exists>cs. ech_configs_ok cs \<and> r = concat (map extension_entry cs)))"
  using assms
proof (induction "length r" arbitrary: pre r rule: less_induct)
  case less
  have short: "length r < 4 \<Longrightarrow> cs = []" if "r = concat (map extension_entry cs)" for cs
    using that by (cases cs) (auto simp: extension_entry_def)
  show ?case
  proof (cases "length r < 4")
    case True
    show ?thesis
    proof (cases "r = []")
      case True
      then show ?thesis by (subst (1 2) ech_configs.simps) (auto simp: ech_configs_ok_def intro: exI [of _ "[]"])
    next
      case False
      then have "ech_configs (pre @ r) (length pre) = Inl (Err (cli_error ''malformed tls.ech config header''))"
        using True by (subst ech_configs.simps) auto
      then show ?thesis using short [OF _ True] False by fastforce
    qed
  next
    case False
    then obtain a b h l rest where r: "r = a # b # h # l # rest"
      by (cases r; cases "tl r"; cases "tl (tl r)"; cases "tl (tl (tl r))") auto
    define len where "len = unat (from_be_bytes [h, l] :: u16)"
    have first: "\<exists>v d cs'. cs = (v, d) # cs' \<and> length d = len \<and> rest = d @ concat (map extension_entry cs')"
      if "ech_configs_ok cs" "r = concat (map extension_entry cs)" for cs
    proof (cases cs)
      case Nil
      then show ?thesis using that r by simp
    next
      case (Cons c cs')
      obtain x y p q where xy: "u16_bytes (fst c) = [x, y]" "u16_bytes (length (snd c)) = [p, q]"
        by (simp add: u16_bytes_def be_bytes_2)
      then have "rest = snd c @ concat (map extension_entry cs')" "[h, l] = [p, q]"
        using that(2) Cons r by (simp_all add: extension_entry_def)
      moreover have "length (snd c) = len"
        using unat_u16_bytes [OF xy(2)] that(1) Cons calculation(2) by (simp add: len_def ech_configs_ok_def)
      ultimately show ?thesis using Cons by (cases c) auto
    qed
    show ?thesis
    proof (cases "length rest < len")
      case True
      then show ?thesis using first ech_configs_step [of pre a b h l rest] less.prems by (fastforce simp: r len_def)
    next
      case False
      define pre' where "pre' = pre @ a # b # h # l # take len rest"
      have step: "ech_configs (pre @ r) (length pre) = ech_configs (pre' @ drop len rest) (length pre')"
        using False ech_configs_step [of pre a b h l rest] less.prems by (simp add: r len_def pre'_def)
      have IH: "ech_configs (pre' @ drop len rest) (length pre') \<noteq> Inl Panic \<and>
          (ech_configs (pre' @ drop len rest) (length pre') = Inr () \<longleftrightarrow>
            (\<exists>cs. ech_configs_ok cs \<and> drop len rest = concat (map extension_entry cs)))"
        using less.prems False by (intro less.hyps) (simp_all add: r pre'_def)
      have "(\<exists>cs. ech_configs_ok cs \<and> drop len rest = concat (map extension_entry cs)) \<longleftrightarrow>
          (\<exists>cs. ech_configs_ok cs \<and> r = concat (map extension_entry cs))"
      proof safe
        fix cs
        assume cs: "ech_configs_ok cs" "drop len rest = concat (map extension_entry cs)"
        let ?c = "(unat (from_be_bytes [a, b] :: u16), take len rest)"
        have "unat (w :: u16) < 65536" for w using unsigned_less [of w, where 'a = nat] by simp
        then have "ech_configs_ok (?c # cs)" using cs(1) False by (simp add: ech_configs_ok_def len_def)
        moreover have "extension_entry ?c = [a, b, h, l] @ take len rest"
          using False by (simp add: extension_entry_def len_def)
        then have "r = concat (map extension_entry (?c # cs))" unfolding r using cs(2) by (metis append_Cons append_Nil append_assoc append_take_drop_id concat.simps(2) list.map(2))
        ultimately show "\<exists>cs. ech_configs_ok cs \<and> r = concat (map extension_entry cs)" by blast
      next
        fix cs
        assume cs: "ech_configs_ok cs" "r = concat (map extension_entry cs)"
        from first [OF this] show "\<exists>cs. ech_configs_ok cs \<and> drop len rest = concat (map extension_entry cs)"
          using cs(1) by (auto simp: ech_configs_ok_def)
      qed
      then show ?thesis using IH step by simp
    qed
  qed
qed

lemma validate_ech_config_list_iff:
  "validate_ech_config_list list = Inr () \<longleftrightarrow>
     (\<exists>cs. cs \<noteq> [] \<and> ech_configs_ok cs \<and> length (concat (map extension_entry cs)) < 65536 \<and>
        list = u16_bytes (length (concat (map extension_entry cs))) @ concat (map extension_entry cs))"
  and validate_ech_config_list_no_panic: "validate_ech_config_list list \<noteq> Inl Panic"
proof -
  have main: "validate_ech_config_list list \<noteq> Inl Panic \<and> (validate_ech_config_list list = Inr () \<longleftrightarrow>
     (\<exists>cs. cs \<noteq> [] \<and> ech_configs_ok cs \<and> length (concat (map extension_entry cs)) < 65536 \<and>
        list = u16_bytes (length (concat (map extension_entry cs))) @ concat (map extension_entry cs)))"
  proof (cases "length list < 2")
    case True
    then show ?thesis by (auto simp: validate_ech_config_list_def dest: arg_cong [of _ _ length])
  next
    case False
    then obtain h l body where list: "list = [h, l] @ body" by (cases list; cases "tl list") auto
    define n where "n = unat (from_be_bytes [h, l] :: u16)"
    have n: "n < 65536" unfolding n_def using unsigned_less [of "from_be_bytes [h, l] :: u16", where 'a = nat] by simp
    have code: "validate_ech_config_list list =
        (if n = 0 \<or> n \<noteq> length body then Inl (Err (cli_error ''malformed tls.ech config list length''))
         else ech_configs ([h, l] @ body) (length [h, l]))"
      by (auto simp: validate_ech_config_list_def list n_def Let_def numeral_2_eq_2)
    have eq: "length body = n \<and> body = concat (map extension_entry cs)"
      if "list = u16_bytes (length (concat (map extension_entry cs))) @ concat (map extension_entry cs)"
        "length (concat (map extension_entry cs)) < 65536" for cs
    proof -
      obtain p q where pq: "u16_bytes (length (concat (map extension_entry cs))) = [p, q]" by (simp add: u16_bytes_def be_bytes_2)
      then show ?thesis using that list unat_u16_bytes [OF pq that(2)] by (auto simp: n_def)
    qed
    show ?thesis
    proof (cases "n = 0 \<or> n \<noteq> length body")
      case True
      have "cs = []" if "ech_configs_ok cs" "concat (map extension_entry cs) = []" for cs
        using that by (cases cs) (auto simp: extension_entry_def u16_bytes_def be_bytes_2)
      then show ?thesis using True eq code by fastforce
    next
      case False
      then have "length ([h, l] @ body) \<le> 65537" using n by simp
      note iff = ech_configs_iff [OF this]
      have "u16_bytes (length body) = [h, l]" using False u16_bytes_unat [of h l] by (simp add: n_def del: u16_bytes_unat)
      moreover have "cs \<noteq> []" if "body = concat (map extension_entry cs)" for cs using that False by auto
      ultimately show ?thesis using iff code False eq n list by (metis (no_types, lifting))
    qed
  qed
  then show "validate_ech_config_list list = Inr () \<longleftrightarrow>
     (\<exists>cs. cs \<noteq> [] \<and> ech_configs_ok cs \<and> length (concat (map extension_entry cs)) < 65536 \<and>
        list = u16_bytes (length (concat (map extension_entry cs))) @ concat (map extension_entry cs))" by simp
  from main show "validate_ech_config_list list \<noteq> Inl Panic" by simp
qed

section \<open>Certificate pins\<close>

lemma hexdigit_lower: "is_ascii_hexdigit (ascii_lower c) \<Longrightarrow> \<exists>d<16. ascii_lower c = hex_char d"
proof -
  have "\<forall>c. is_ascii_hexdigit (ascii_lower c) \<longrightarrow> list_ex (\<lambda>d. ascii_lower c = hex_char d) [0..<16]" by code_simp
  then show "is_ascii_hexdigit (ascii_lower c) \<Longrightarrow> \<exists>d<16. ascii_lower c = hex_char d"
    by (simp add: list_ex_iff) (metis atLeastLessThan_iff)
qed

lemma hex_text_bytes:
  "length s = 2 * n \<Longrightarrow> list_all (\<lambda>c. \<exists>d<16. c = hex_char d) s \<Longrightarrow> \<exists>bs. s = encode_hex bs \<and> length bs = n"
proof (induction n arbitrary: s)
  case (Suc n)
  then obtain x y r where s: "s = x # y # r" by (cases s; cases "tl s") auto
  then obtain a b where ab: "a < 16" "x = hex_char a" "b < 16" "y = hex_char b" using Suc.prems by auto
  obtain bs where bs: "r = encode_hex bs" "length bs = n" using Suc s by auto
  have "a * 16 + b < 256" using ab by simp
  then have "unat (word_of_nat (a * 16 + b) :: u8) = a * 16 + b" unfolding unat_of_nat by simp
  then obtain w :: u8 where "unat w = a * 16 + b" by blast
  then have "s = encode_hex (w # bs)" using s ab bs by (simp add: encode_hex_def)
  then show ?case using bs by (intro exI [of _ "w # bs"]) simp
qed (simp add: encode_hex_def)

lemma hex_char_is_hexdigit: "d < 16 \<Longrightarrow> is_ascii_hexdigit (hex_char d)"
  by (simp add: is_ascii_hexdigit_def to_digit_hex_char)

lemma pin_bytes:
  assumes "length bs = 32"
  shows "try_map (\<lambda>index.
      and_then (str_slice (encode_hex bs) (index * 2) (index * 2 + 2)) (\<lambda>digits.
      ok_or (Err (cli_error ''{error}'')) (map_option word_of_nat (parse_uint 16 255 digits)))) [0..<32] = Inr bs"
proof -
  have "list_all2 (\<lambda>i b. and_then (str_slice (encode_hex bs) (i * 2) (i * 2 + 2)) (\<lambda>digits.
      ok_or (Err (cli_error ''{error}'')) (map_option word_of_nat (parse_uint 16 255 digits))) = Inr b) [0..<32] bs"
  proof (rule list_all2_all_nthI)
    fix i
    assume "i < length [0..<32]"
    then show "and_then (str_slice (encode_hex bs) ([0..<32] ! i * 2) ([0..<32] ! i * 2 + 2)) (\<lambda>digits.
        ok_or (Err (cli_error ''{error}'')) (map_option word_of_nat (parse_uint 16 255 digits))) = Inr (bs ! i)"
      using assms parse_hex_pair [of "unat (bs ! i) div 16" "unat (bs ! i) mod 16"] unat_less_word [of "bs ! i"]
      by (simp add: encode_hex_slice [simplified])
  qed (simp add: assms)
  then show ?thesis unfolding try_map_ok .
qed

lemma normalize_certificate_pin_iff:
  "normalize_certificate_pin v = Inr bs \<longleftrightarrow>
     length bs = 32 \<and> to_ascii_lowercase (filter (\<lambda>c. c \<notin> {CHR '':'', CHR ''-''}) v) = encode_hex bs"
  and normalize_certificate_pin_no_panic: "normalize_certificate_pin v \<noteq> Inl Panic"
proof -
  define s where "s = to_ascii_lowercase (filter (\<lambda>c. c \<notin> {CHR '':'', CHR ''-''}) v)"
  have hex: "list_all is_ascii_hexdigit (encode_hex bs)" for bs
  proof (induction bs)
    case (Cons b bs)
    have "unat b div 16 < 16" "unat b mod 16 < 16" using unat_less_word [of b] by simp_all
    then show ?case using Cons by (simp add: encode_hex_def hex_char_is_hexdigit)
  qed (simp add: encode_hex_def)
  have main: "normalize_certificate_pin v \<noteq> Inl Panic \<and> (normalize_certificate_pin v = Inr bs \<longleftrightarrow> length bs = 32 \<and> s = encode_hex bs)"
  proof (cases "length s = 64 \<and> list_all is_ascii_hexdigit s")
    case True
    then have "list_all (\<lambda>c. \<exists>d<16. c = hex_char d) s"
      using hexdigit_lower by (auto simp: s_def to_ascii_lowercase_def list_all_iff)
    then obtain b where b: "s = encode_hex b" "length b = 32" using hex_text_bytes [of s 32] True by auto
    then have "normalize_certificate_pin v = Inr b"
      using True pin_bytes [OF b(2)] by (simp add: normalize_certificate_pin_def Let_def s_def)
    moreover have "encode_hex b = encode_hex bs \<and> length bs = 32 \<Longrightarrow> b = bs" using pin_bytes [of b] pin_bytes [of bs] b(2) by simp
    ultimately show ?thesis using b by auto
  next
    case False
    then have "normalize_certificate_pin v = Inl (Err (cli_error ''tls.pinSHA256 must contain exactly 64 hexadecimal digits''))"
      by (auto simp: normalize_certificate_pin_def Let_def s_def)
    then show ?thesis using False hex by auto
  qed
  from main show "normalize_certificate_pin v = Inr bs \<longleftrightarrow>
     length bs = 32 \<and> to_ascii_lowercase (filter (\<lambda>c. c \<notin> {CHR '':'', CHR ''-''}) v) = encode_hex bs" unfolding s_def by blast
  from main show "normalize_certificate_pin v \<noteq> Inl Panic" by blast
qed

section \<open>Bandwidths\<close>

definition bandwidth_units :: "(string \<times> u64) list" where
  "bandwidth_units =
     [(''b'', 1), (''bps'', 1), (''k'', 1000), (''kb'', 1000), (''kbps'', 1000), (''m'', 1000000), (''mb'', 1000000),
      (''mbps'', 1000000), (''g'', 1000000000), (''gb'', 1000000000), (''gbps'', 1000000000), (''t'', 1000000000000),
      (''tb'', 1000000000000), (''tbps'', 1000000000000)]"

lemma unit_text: "(name, m) \<in> set bandwidth_units \<Longrightarrow> name \<noteq> [] \<and> \<not> is_ascii_digit (hd name) \<and> trim name = name"
proof -
  have "list_all (\<lambda>(name, m). name \<noteq> [] \<and> \<not> is_ascii_digit (hd name) \<and> trim name = name) bandwidth_units" by code_simp
  then show "(name, m) \<in> set bandwidth_units \<Longrightarrow> name \<noteq> [] \<and> \<not> is_ascii_digit (hd name) \<and> trim name = name"
    by (auto simp: list_all_iff)
qed

lemma unit_factor:
  "(name, m) \<in> set bandwidth_units \<Longrightarrow>
     (if name \<in> {''b'', ''bps''} then Inr (1 :: u64)
         else if name \<in> {''k'', ''kb'', ''kbps''} then Inr 1000
         else if name \<in> {''m'', ''mb'', ''mbps''} then Inr 1000000
         else if name \<in> {''g'', ''gb'', ''gbps''} then Inr 1000000000
         else if name \<in> {''t'', ''tb'', ''tbps''} then Inr 1000000000000
         else Inl (CliError ''unsupported bandwidth unit {unit:?}'' [name])) = Inr m"
proof -
  have "list_all (\<lambda>(name, m). (if name \<in> {''b'', ''bps''} then Inr (1 :: u64)
         else if name \<in> {''k'', ''kb'', ''kbps''} then Inr 1000
         else if name \<in> {''m'', ''mb'', ''mbps''} then Inr 1000000
         else if name \<in> {''g'', ''gb'', ''gbps''} then Inr 1000000000
         else if name \<in> {''t'', ''tb'', ''tbps''} then Inr 1000000000000
         else Inl (CliError ''unsupported bandwidth unit {unit:?}'' [name])) = Inr m) bandwidth_units"
    by code_simp
  then show "(name, m) \<in> set bandwidth_units \<Longrightarrow> (if name \<in> {''b'', ''bps''} then Inr (1 :: u64)
         else if name \<in> {''k'', ''kb'', ''kbps''} then Inr 1000
         else if name \<in> {''m'', ''mb'', ''mbps''} then Inr 1000000
         else if name \<in> {''g'', ''gb'', ''gbps''} then Inr 1000000000
         else if name \<in> {''t'', ''tb'', ''tbps''} then Inr 1000000000000
         else Inl (CliError ''unsupported bandwidth unit {unit:?}'' [name])) = Inr m"
    unfolding list_all_iff by (drule_tac bspec) (assumption, simp only: prod.case)
qed

lemma trim_spaces: "trim (replicate k (CHR '' '') @ s) = trim s"
  by (induction k) (simp_all add: trim_space)

lemma parse_bandwidth_text:
  fixes n :: u64
  assumes "(name, m) \<in> set bandwidth_units" and "to_ascii_lowercase (trim s) = uint_string n @ replicate k (CHR '' '') @ name"
  shows "parse_bandwidth (Some (BandwidthText s)) =
    (if unat n * unat m < 2 ^ 64 then Inr (n * m div 8) else Inl (cli_error ''bandwidth value overflow''))"
proof -
  have "\<not> is_ascii_digit (hd (replicate k (CHR '' '') @ name)) \<and> replicate k (CHR '' '') @ name \<noteq> []"
    using unit_text [OF assms(1)] by (cases k) (auto simp: is_ascii_digit_def)
  then have digits: "takeWhile is_ascii_digit (uint_string n @ replicate k (CHR '' '') @ name) = uint_string n"
    using uint_string_digits [of n]
    by (cases "replicate k (CHR '' '') @ name") (auto simp: list_all_iff takeWhile_append)
  have rest: "trim (replicate k (CHR '' '') @ name) = name" using unit_text [OF assms(1)] by (simp add: trim_spaces)
  have "uint_string n \<noteq> []" "name \<noteq> []" using unit_text [OF assms(1)] by (simp_all add: uint_string_def)
  then have "parse_bandwidth (Some (BandwidthText s)) =
      and_then
        (if name \<in> {''b'', ''bps''} then Inr (1 :: u64)
         else if name \<in> {''k'', ''kb'', ''kbps''} then Inr 1000
         else if name \<in> {''m'', ''mb'', ''mbps''} then Inr 1000000
         else if name \<in> {''g'', ''gb'', ''gbps''} then Inr 1000000000
         else if name \<in> {''t'', ''tb'', ''tbps''} then Inr 1000000000000
         else Inl (CliError ''unsupported bandwidth unit {unit:?}'' [name])) (\<lambda>multiplier.
      if unat n * unat multiplier < 2 ^ 64 then Inr (n * multiplier div 8)
      else Inl (cli_error ''bandwidth value overflow''))"
    by (simp add: parse_bandwidth_def assms(2) digits rest Let_def)
  also have "\<dots> = (if unat n * unat m < 2 ^ 64 then Inr (n * m div 8) else Inl (cli_error ''bandwidth value overflow''))"
    unfolding unit_factor [OF assms(1)] by simp
  finally show ?thesis .
qed

section \<open>Validation and use\<close>

lemma tun_validate_parses:
  assumes "tun_validate env tun = Inr ()"
  shows "\<exists>v4 v6. tun_parsed_addresses tun = Inr (v4, v6) \<and> is_ipv4 (fst v4) \<and> \<not> is_ipv4 (fst v6)"
    and "tc_route tun = Some route \<Longrightarrow> \<exists>routes. tun_route_parsed route = Inr routes"
proof -
  have family: "is_ipv4 (fst p) = ipv4" if "parse_ip_prefix v field ipv4 = Inr p" for v field ipv4 p
    using that by (auto simp: parse_ip_prefix_def Let_def and_then_eq_Inr ensure_def split: if_splits prod.splits)
  obtain v4 v6 where "parse_ip_prefix (tun_ipv4_address tun) ''tun.address.ipv4'' True = Inr v4"
    "parse_ip_prefix (tun_ipv6_address tun) ''tun.address.ipv6'' False = Inr v6"
    using assms by (auto simp: tun_validate_def and_then_eq_Inr try_for_each_ok)
  then show "\<exists>v4 v6. tun_parsed_addresses tun = Inr (v4, v6) \<and> is_ipv4 (fst v4) \<and> \<not> is_ipv4 (fst v6)"
    using family by auto
  assume route: "tc_route tun = Some route"
  have all: "\<exists>ps. try_map (\<lambda>entry. parse_ip_prefix entry field ipv4) entries = Inr ps"
    if "try_for_each (\<lambda>entry. and_then (parse_ip_prefix entry field ipv4) (\<lambda>_. Inr ())) entries = Inr ()" for field ipv4 entries
    using that by (induction entries) (auto simp: and_then_eq_Inr)
  show "\<exists>routes. tun_route_parsed route = Inr routes"
    using assms route all [of "''tun.route.ipv4''" True "tr_ipv4 route"] all [of "''tun.route.ipv6''" False "tr_ipv6 route"]
      all [of "''tun.route.ipv4Exclude''" True "tr_ipv4_exclude route"] all [of "''tun.route.ipv6Exclude''" False "tr_ipv6_exclude route"]
    by (auto simp: tun_validate_def tun_route_parsed_def and_then_eq_Inr Let_def)
qed

section \<open>Validation ends without a panic\<close>

lemma decode_ech_config_list_no_panic: "decode_ech_config_list env v \<noteq> Inl Panic"
proof -
  have step: "foldl (\<lambda>found engine.
        and_then found (\<lambda>found.
        case found of
          Some decoded \<Rightarrow> Inr (Some decoded)
        | None \<Rightarrow>
            (case ce_base64 env engine (trim v) of
               None \<Rightarrow> Inr None
             | Some decoded \<Rightarrow>
                 (case validate_ech_config_list decoded of
                    Inl Panic \<Rightarrow> Inl Panic
                  | Inl (Err _) \<Rightarrow> Inr None
                  | Inr _ \<Rightarrow> Inr (Some decoded))))) found engines \<noteq> (Inl Panic :: cli_error fault + bytes option)"
    if "found \<noteq> Inl Panic" for engines found
    using that
  proof (induction engines arbitrary: found)
    case (Cons engine engines)
    show ?case
      unfolding foldl.simps
      by (rule Cons.IH) (use Cons.prems validate_ech_config_list_no_panic in
        \<open>auto simp: and_then_eq_Inl split: option.splits sum.splits fault.splits\<close>)
  qed simp
  show ?thesis unfolding decode_ech_config_list_def Let_def by (rule step) simp
qed

lemma parse_ech_config_list_no_panic: "parse_ech_config_list env v \<noteq> Inl Panic"
  using decode_ech_config_list_no_panic validate_ech_config_list_no_panic
  by (auto simp: parse_ech_config_list_def Let_def and_then_eq_Inl ok_or_def split: option.splits)

lemma validate_connection_no_panic: "validate_connection env config \<noteq> Inl Panic"
  using parse_ech_config_list_no_panic normalize_certificate_pin_no_panic
  by (auto simp: validate_connection_def and_then_eq_Inl map_err_eq_Inl split: if_splits)


text \<open>
  C26: A list of ECH configurations is accepted exactly if it is the length-prefixed concatenation of at least one
  configuration, each a version and a length-prefixed body; checking it never reads outside the list.
\<close>

theorem ech_config_list_exact:
  "validate_ech_config_list list \<noteq> Inl Panic \<and>
   (validate_ech_config_list list = Inr () \<longleftrightarrow>
     (\<exists>cs. cs \<noteq> [] \<and> ech_configs_ok cs \<and> length (concat (map extension_entry cs)) < 65536 \<and>
        list = u16_bytes (length (concat (map extension_entry cs))) @ concat (map extension_entry cs)))"
  using validate_ech_config_list_no_panic validate_ech_config_list_iff by blast

text \<open>
  C27: A bandwidth is read with its unit whatever the case of the letters and the white space around and inside it: a number of
  bits per second becomes that number divided by eight, and a product that does not fit 64 bits is an error.
\<close>

theorem bandwidth_text_exact:
  fixes n :: u64
  assumes "(name, m) \<in> set bandwidth_units" and "to_ascii_lowercase (trim s) = uint_string n @ replicate k (CHR '' '') @ name"
  shows "parse_bandwidth (Some (BandwidthText s)) =
    (if unat n * unat m < 2 ^ 64 then Inr (n * m div 8) else Inl (cli_error ''bandwidth value overflow''))"
  by (rule parse_bandwidth_text [OF assms])

theorem bandwidth_text_exact_witness:
  "parse_bandwidth (Some (BandwidthText '' 100 Mbps'')) = Inr 12500000"
proof -
  have m: "(''mbps'', 1000000) \<in> set bandwidth_units" by (simp add: bandwidth_units_def)
  have "to_ascii_lowercase (trim '' 100 Mbps'') = uint_string (100 :: u64) @ replicate 1 (CHR '' '') @ ''mbps''" by code_simp
  from bandwidth_text_exact [OF m this] show ?thesis by simp
qed

end
