(* ===== verification/Startup.thy ===== *)
theory Startup
  imports Config_Validate Socks5 Handshake
begin

text \<open>
  What the program makes of a validated configuration before it talks to the network: the addresses and ports of the
  server a client connects to (\<open>hysteria/src/runtime.rs\<close>) and the authenticator of a server (\<open>hysteria/src/auth.rs\<close>).
  The resolver of the system, the HTTP client and processes are parameters.
\<close>

section \<open>Addresses of the server\<close>

definition split_server_address :: "string \<Rightarrow> cli_error + (string \<times> string)" where
  "split_server_address address =
     (case parse_socket_addr address of
        Some (SocketAddr ip port) \<Rightarrow> Inr (ip_display ip, uint_string port)
      | None \<Rightarrow>
          let brackets = {CHR ''['', CHR '']''};
              unbracketed = trim_matches brackets address;
              bare = (if unbracketed = [] then Inl (cli_error ''server address is empty'') else Inr (unbracketed, ''443''));
              unnamed = (case rsplit_once address (CHR '':'') of
                           None \<Rightarrow> bare
                         | Some (host, port) \<Rightarrow> if port \<noteq> [] \<and> host \<noteq> [] then Inr (trim_matches brackets host, port) else bare) in
          if (case parse_ip unbracketed of Some (V6 _) \<Rightarrow> True | _ \<Rightarrow> False) then Inr (unbracketed, ''443'')
          else
            (case Option.bind (strip_prefix address ''['') (\<lambda>rest. split_once_str rest '']:'') of
               None \<Rightarrow> unnamed
             | Some (host, port) \<Rightarrow> if host \<noteq> [] \<and> port \<noteq> [] then Inr (host, port) else unnamed))"

text \<open>\<open>sort_unstable\<close> and \<open>dedup\<close> on ports leave the list of the distinct ports in order.\<close>

definition parse_port_entry :: "string \<Rightarrow> cli_error + u16 list" where
  "parse_port_entry entry =
     (case split_once entry (CHR ''-'') of
        Some (low, high) \<Rightarrow>
          and_then (ok_or (CliError ''invalid server port range {entry:?}'' [entry]) (parse_u16 low)) (\<lambda>low.
          and_then (ok_or (CliError ''invalid server port range {entry:?}'' [entry]) (parse_u16 high)) (\<lambda>high.
          let (low, high) = (if high < low then (high, low) else (low, high)) in
          Inr (map word_of_nat [unat low..<Suc (unat high)])))
      | None \<Rightarrow>
          and_then (ok_or (CliError ''invalid server port {entry:?}'' [entry]) (parse_u16 entry)) (\<lambda>port. Inr [port]))"

definition parse_port_union :: "string \<Rightarrow> cli_error + u16 list" where
  "parse_port_union v =
     and_then (try_map parse_port_entry (split_char (CHR '','') v)) (\<lambda>parts.
     let ports = remdups_adj (sort (concat parts)) in
     if 0 \<in> set ports then Inl (cli_error ''server port 0 is not supported'') else Inr ports)"

definition resolve_server_addresses ::
  "(string \<Rightarrow> cli_error + socket_addr) \<Rightarrow> string \<Rightarrow> cli_error + (string \<times> socket_addr list \<times> bool)" where
  "resolve_server_addresses resolve_one address =
     and_then (split_server_address address) (\<lambda>(host, ports).
     let hopping = list_ex (\<lambda>c. c \<in> {CHR '','', CHR ''-''}) ports in
     and_then (parse_port_union ports) (\<lambda>ports.
     case ports of
       [] \<Rightarrow> Inl (cli_error ''server port list is empty'')
     | first # _ \<Rightarrow>
         and_then (resolve_one (format_host_port host first)) (\<lambda>resolved.
         Inr (host, map (SocketAddr (sa_ip resolved)) ports, hopping))))"

section \<open>Authenticators\<close>

datatype authenticator =
    PasswordAuthenticator string
  | UserpassAuthenticator "(string, string) hmap"
  | HttpAuthenticator string bool
  | CommandAuthenticator string

text \<open>
  What the authenticators call: building an HTTP client, posting a request (the status and the parsed answer, if it
  has the right form), and running a command (success and standard output).
\<close>

record auth_env =
  ae_client :: "bool \<Rightarrow> bool"
  ae_post :: "bool \<Rightarrow> string \<Rightarrow> string \<times> string \<times> u64 \<Rightarrow> (u16 \<times> (bool \<times> string) option) option"
  ae_command :: "string \<Rightarrow> string list \<Rightarrow> (bool \<times> bytes) option"

definition auth_build :: "auth_env \<Rightarrow> server_auth \<Rightarrow> cli_error + authenticator" where
  "auth_build env config =
     (let kind = kind_of (su_kind config) in
      if kind = ''password'' then Inr (PasswordAuthenticator (su_password config))
      else if kind = ''userpass''
      then Inr (UserpassAuthenticator (foldl (\<lambda>users (u, p). hm_insert (to_ascii_lowercase u) p users) [] (su_userpass config)))
      else if kind \<in> {''http'', ''https''}
      then
        and_then (ensure (ae_client env (uh_insecure (su_http config))) (cli_error ''invalid HTTP authenticator: {error}'')) (\<lambda>_.
        Inr (HttpAuthenticator (uh_url (su_http config)) (uh_insecure (su_http config))))
      else if kind \<in> {''command'', ''cmd''} then Inr (CommandAuthenticator (su_command config))
      else Inl (CliError ''unsupported server auth type {kind:?}'' [kind]))"

fun authenticate :: "auth_env \<Rightarrow> authenticator \<Rightarrow> socket_addr \<Rightarrow> auth_request \<Rightarrow> string option" where
  "authenticate env (PasswordAuthenticator expected) remote request =
     (if auth_secret request = expected then Some ''password'' else None)"
| "authenticate env (UserpassAuthenticator users) remote request =
     Option.bind (split_once (auth_secret request) (CHR '':'')) (\<lambda>(username, given).
       let username = to_ascii_lowercase username in
       if hm_get users username = Some given then Some username else None)"
| "authenticate env (HttpAuthenticator url insecure) remote request =
     (case ae_post env insecure url (socket_addr_display remote, auth_secret request, auth_rx request) of
        None \<Rightarrow> None
      | Some (status, response) \<Rightarrow>
          if status \<noteq> 200 then None
          else (case response of None \<Rightarrow> None | Some (accepted, i) \<Rightarrow> if accepted then Some i else None))"
| "authenticate env (CommandAuthenticator command) remote request =
     (case ae_command env command [socket_addr_display remote, auth_secret request, uint_string (auth_rx request)] of
        None \<Rightarrow> None
      | Some (success, stdout) \<Rightarrow> if success then Some (trim (from_utf8_lossy stdout)) else None)"

section \<open>Ports\<close>

definition port_range :: "u16 \<times> u16 \<Rightarrow> u16 set" where
  "port_range = (\<lambda>(a, b). {min a b..max a b})"

definition port_text :: "u16 \<times> u16 \<Rightarrow> string" where
  "port_text = (\<lambda>(a, b). if a = b then uint_string a else uint_string a @ ''-'' @ uint_string b)"

lemma port_list: "a \<le> b \<Longrightarrow> set (map word_of_nat [unat a..<Suc (unat b)]) = {a..b :: u16}"
proof -
  assume "a \<le> b"
  have "w \<in> word_of_nat ` {unat a..<Suc (unat b)}" if "a \<le> w" "w \<le> b" for w
    using that by (intro image_eqI [of _ _ "unat w"]) (auto simp: word_le_nat_alt)
  moreover have "a \<le> word_of_nat n \<and> (word_of_nat n :: u16) \<le> b" if "unat a \<le> n" "n \<le> unat b" for n
  proof -
    have "unat (word_of_nat n :: u16) = n" using that unat_less_word [of b] by (simp add: unat_of_nat)
    then show ?thesis using that by (simp add: word_le_nat_alt)
  qed
  ultimately show ?thesis unfolding set_map set_upt by (fastforce simp: less_Suc_eq_le)
qed

lemma digits_no: "\<not> is_ascii_digit c \<Longrightarrow> c \<notin> set (uint_string w)"
  using uint_string_digits [of w] by (auto simp: list_all_iff)

lemma parse_port_text: "\<exists>ps. parse_port_entry (port_text r) = Inr ps \<and> set ps = port_range r"
proof -
  obtain a b where r: "r = (a, b)" by fastforce
  have dash: "CHR ''-'' \<notin> set (uint_string w)" for w :: u16 by (rule digits_no) (simp add: is_ascii_digit_def)
  show ?thesis
  proof (cases "a = b")
    case True
    have "split_once (uint_string a) (CHR ''-'') = None" using dash by (simp add: split_once_def)
    then show ?thesis using True by (simp add: r port_text_def parse_port_entry_def port_range_def)
  next
    case False
    have "split_once (port_text r) (CHR ''-'') = Some (uint_string a, uint_string b)"
      using False split_once_append [OF dash, of a "uint_string b"] by (simp add: r port_text_def)
    then show ?thesis
      using port_list [of a b] port_list [of b a] by (auto simp: r parse_port_entry_def port_range_def Let_def not_less)
  qed
qed

lemma parse_port_texts: "\<exists>ps. try_map parse_port_entry (map port_text rs) = Inr ps \<and> set (concat ps) = (\<Union>r \<in> set rs. port_range r)"
proof (induction rs)
  case (Cons r rs)
  then show ?case using parse_port_text [of r] by auto
qed simp

lemma sorted_ports: "sorted (remdups_adj (sort ps)) \<and> distinct (remdups_adj (sort (ps :: u16 list)))"
proof -
  have "sorted xs \<Longrightarrow> distinct (remdups_adj xs)" for xs :: "u16 list"
    by (induction xs rule: remdups_adj.induct) auto
  then show ?thesis by (simp add: sorted_remdups_adj)
qed

lemma parse_port_union_text:
  assumes "rs \<noteq> []" and "S = (\<Union>r \<in> set rs. port_range r)"
  shows "parse_port_union (join_with '','' (map port_text rs)) =
    (if 0 \<in> S then Inl (cli_error ''server port 0 is not supported'') else Inr (sorted_list_of_set S))"
proof -
  obtain ps where ps: "try_map parse_port_entry (map port_text rs) = Inr ps" "set (concat ps) = S"
    using parse_port_texts assms(2) by blast
  have "CHR '','' \<notin> set (port_text r)" for r
    by (cases r) (auto simp: port_text_def intro!: digits_no, auto simp: is_ascii_digit_def dest!: bspec [OF uint_string_digits [unfolded list_all_iff]])
  then have "split_char (CHR '','') (join_with '','' (map port_text rs)) = map port_text rs"
    using assms(1) by (intro split_char_join) auto
  moreover have "remdups_adj (sort (concat ps)) = sorted_list_of_set S"
    using sorted_ports [of "concat ps"] ps(2) by (intro sorted_distinct_set_unique) (auto simp del: set_concat)
  ultimately show ?thesis using ps by (simp add: parse_port_union_def Let_def del: set_concat)
qed

lemma parse_port_union_ok:
  assumes "parse_port_union v = Inr ports"
  shows "ports \<noteq> []" and "distinct ports" and "0 \<notin> set ports"
proof -
  obtain parts where parts: "try_map parse_port_entry (split_char (CHR '','') v) = Inr parts"
    and p: "ports = remdups_adj (sort (concat parts))" "0 \<notin> set ports"
    using assms by (auto simp: parse_port_union_def and_then_eq_Inr Let_def split: if_splits)
  then show "0 \<notin> set ports" "distinct ports" using sorted_ports by auto
  have "parts \<noteq> []" using parts by (cases "split_char (CHR '','') v") (auto simp: and_then_eq_Inr)
  moreover have "x \<noteq> []" if "parse_port_entry e = Inr x" for e x
    using that by (auto simp: parse_port_entry_def and_then_eq_Inr Let_def word_le_nat_alt word_less_nat_alt split: option.splits if_splits prod.splits)
  then have "\<forall>x \<in> set parts. x \<noteq> []" using try_map_ok_mem [OF parts] by blast
  ultimately have "set (concat parts) \<noteq> {}" by (cases parts) auto
  moreover have "set ports = set (concat parts)" using p(1) by simp
  ultimately show "ports \<noteq> []" by auto
qed

section \<open>From a configuration to its sockets\<close>

lemma resolve_server_addresses_ok:
  assumes "resolve_server_addresses resolve_one address = Inr (host, addresses, hopping)"
  shows "addresses \<noteq> []" and "distinct addresses" and "\<exists>ip. \<forall>a \<in> set addresses. sa_ip a = ip \<and> sa_port a \<noteq> 0"
proof -
  obtain h v where split: "split_server_address address = Inr (h, v)"
    using assms by (auto simp: resolve_server_addresses_def and_then_eq_Inr)
  obtain ports where ports: "parse_port_union v = Inr ports"
    using assms split by (auto simp: resolve_server_addresses_def and_then_eq_Inr Let_def)
  obtain resolved where a: "addresses = map (SocketAddr (sa_ip resolved)) ports"
    using assms split ports by (cases ports) (auto simp: resolve_server_addresses_def and_then_eq_Inr Let_def)
  note ok = parse_port_union_ok [OF ports]
  show "addresses \<noteq> []" "distinct addresses" using ok by (auto simp: a distinct_map inj_on_def)
  show "\<exists>ip. \<forall>a \<in> set addresses. sa_ip a = ip \<and> sa_port a \<noteq> 0" using ok(3) by (auto simp: a)
qed

lemma validate_connection_values:
  assumes "validate_connection env config = Inr ()"
  shows "\<exists>low high. hop_intervals env (cc_transport config) = Inr (low, high)"
    and "\<exists>transport. obfs_transport_config (cc_obfs config) = Inr transport"
  using assms unfolding validate_connection_def by (auto simp: and_then_eq_Inr map_err_eq_Inr)

text \<open>
  C19: A client whose configuration is valid can hop: from the address of its server it gets at least one address, all of one host and
  with different ports that are not 0; the hop intervals and the addresses pass the checks of the socket, and the obfuscation
  of the configuration has a codec. The worker of the socket then starts at one of the addresses.
\<close>

theorem client_validated_hops:
  assumes "validate_connection env config = Inr ()"
    and "resolve_server_addresses resolve_one (cc_server config) = Inr (host, addresses, hopping)"
  shows "distinct addresses \<and> (\<exists>ip. \<forall>a \<in> set addresses. sa_ip a = ip \<and> sa_port a \<noteq> 0) \<and>
    (\<exists>low high transport. hop_intervals env (cc_transport config) = Inr (low, high) \<and>
       hop_settings_check addresses low high = Inr () \<and>
       obfs_transport_config (cc_obfs config) = Inr transport \<and>
       (transport = None \<or> (\<exists>codec. wire_codec_new (the transport) = Inr codec))) \<and>
    (\<exists>h. fst (hop_new fill ne addresses k r) = Inr h \<and> hs_remote_index h < length addresses)"
proof -
  obtain low high where hop: "hop_intervals env (cc_transport config) = Inr (low, high)"
    using validate_connection_values(1) [OF assms(1)] by blast
  obtain transport where obfs: "obfs_transport_config (cc_obfs config) = Inr transport"
    using validate_connection_values(2) [OF assms(1)] by blast
  have check: "hop_settings_check addresses low high = Inr ()"
    using hop_intervals_range [OF hop] resolve_server_addresses_ok(1) [OF assms(2)] by (simp add: hop_settings_check_def)
  have "transport = None \<or> (\<exists>codec. wire_codec_new (the transport) = Inr codec)"
    using obfs obfs_transport_config_codec by (cases transport) auto
  then have "\<exists>low high transport. hop_intervals env (cc_transport config) = Inr (low, high) \<and>
       hop_settings_check addresses low high = Inr () \<and> obfs_transport_config (cc_obfs config) = Inr transport \<and>
       (transport = None \<or> (\<exists>codec. wire_codec_new (the transport) = Inr codec))"
    using hop obfs check by blast
  then show ?thesis
    by (intro conjI resolve_server_addresses_ok(2,3) [OF assms(2)] conjunct1 [OF hop_stays_in_range [OF check]])
qed

section \<open>Authenticators\<close>

lemma validate_auth_builds:
  assumes "validate_auth config = Inr ()" and "ae_client env (uh_insecure (su_http config))"
  shows "\<exists>a. auth_build env config = Inr a"
  using assms by (auto simp: validate_auth_def auth_build_def Let_def ensure_def split: if_splits)

lemma users_lookup:
  "distinct (map (\<lambda>u. to_ascii_lowercase (fst u)) us) \<Longrightarrow>
     hm_get (foldl (\<lambda>users (u, p). hm_insert (to_ascii_lowercase u) p users) [] us) name = Some p \<longleftrightarrow>
     (\<exists>user. (user, p) \<in> set us \<and> to_ascii_lowercase user = name)"
proof (induction us rule: rev_induct)
  case (snoc u us)
  obtain n q where u: "u = (n, q)" by fastforce
  have IH: "hm_get (foldl (\<lambda>users (u, p). hm_insert (to_ascii_lowercase u) p users) [] us) name = Some p \<longleftrightarrow>
      (\<exists>user. (user, p) \<in> set us \<and> to_ascii_lowercase user = name)"
    using snoc by simp
  have new: "to_ascii_lowercase user \<noteq> to_ascii_lowercase n" if "(user, p) \<in> set us" for user
    using snoc.prems that by (force simp: u)
  show ?case
  proof (cases "name = to_ascii_lowercase n")
    case True
    then show ?thesis using new by (auto simp: u hm.get_insert)
  next
    case False
    then show ?thesis using IH by (auto simp: u hm.get_insert)
  qed
qed simp

text \<open>The login of a user is the name, in any case, a colon, and the password.\<close>

lemma userpass_authenticate:
  assumes "to_ascii_lowercase (trim (su_kind config)) = ''userpass''"
    and "distinct (map (\<lambda>u. to_ascii_lowercase (fst u)) (su_userpass config))" and "auth_build env config = Inr a"
  shows "authenticate env a remote request = Some name \<longleftrightarrow>
    (\<exists>user given p. split_once (auth_secret request) (CHR '':'') = Some (given, p) \<and> (user, p) \<in> set (su_userpass config) \<and>
       to_ascii_lowercase given = to_ascii_lowercase user \<and> name = to_ascii_lowercase user)"
proof -
  have "a = UserpassAuthenticator (foldl (\<lambda>users (u, p). hm_insert (to_ascii_lowercase u) p users) [] (su_userpass config))"
    using assms(1,3) by (simp add: auth_build_def)
  then have code: "authenticate env a remote request =
      Option.bind (split_once (auth_secret request) (CHR '':'')) (\<lambda>(given, p).
        if \<exists>user. (user, p) \<in> set (su_userpass config) \<and> to_ascii_lowercase user = to_ascii_lowercase given
        then Some (to_ascii_lowercase given) else None)"
    by (simp add: users_lookup [OF assms(2)] Let_def)
  show ?thesis
  proof (cases "split_once (auth_secret request) (CHR '':'')")
    case (Some x)
    obtain given p where "x = (given, p)" by fastforce
    then show ?thesis unfolding code Some by simp metis
  qed (simp add: code)
qed


text \<open>
  C17: A server with user names and passwords hands out a connection only for a request that names a configured user, in
  upper or lower case, with the password of that user; the connection is accounted to the name in lower case.
\<close>

theorem configured_login_gate:
  assumes "to_ascii_lowercase (trim (su_kind config)) = ''userpass''"
    and "distinct (map (\<lambda>u. to_ascii_lowercase (fst u)) (su_userpass config))" and "auth_build env config = Inr a"
    and "serve_requests lib fill handshake (authenticate env a remote) date masquerade reqs c = (Inr (Some conn), sent, c')"
  shows "\<exists>request body user given password. Incoming request body \<in> set reqs \<and> is_auth request \<and>
    (user, password) \<in> set (su_userpass config) \<and> to_ascii_lowercase given = to_ascii_lowercase user \<and>
    auth_secret (request_auth lib request) = given @ '':'' @ password \<and> ac_auth_id conn = to_ascii_lowercase user"
proof -
  obtain request body where r: "Incoming request body \<in> set reqs" "is_auth request"
    "authenticate env a remote (request_auth lib request) = Some (ac_auth_id conn)"
    using serve_requests_gate [OF assms(4), unfolded option.case] by (metis in_set_conv_decomp)
  then obtain user given p where "split_once (auth_secret (request_auth lib request)) (CHR '':'') = Some (given, p)"
    "(user, p) \<in> set (su_userpass config)" "to_ascii_lowercase given = to_ascii_lowercase user" "ac_auth_id conn = to_ascii_lowercase user"
    unfolding userpass_authenticate [OF assms(1-3)] by blast
  then show ?thesis using r split_once_eq(1) [of "auth_secret (request_auth lib request)" "CHR '':''" given p] by fastforce
qed

section \<open>Sample configurations\<close>

definition sample_config_env :: config_env where
  "sample_config_env =
     \<lparr>re_authority = (\<lambda>_. None), re_duration = (\<lambda>s. if s = ''60s'' then Some 60000000000 else None), re_url = (\<lambda>_. None),
      re_valid_host = (\<lambda>_. True), re_tls_client = (\<lambda>_. Inr ()), re_https_client = (\<lambda>_ _. Inr ()), oe_regex_ok = (\<lambda>_. True),
      oe_read_file = (\<lambda>_. Inl (cli_error ''no file'')), oe_device = (\<lambda>_. Inr ()), oe_fast_open = True,
      oe_read_geoip = (\<lambda>_ _. Inr []), oe_read_geosite = (\<lambda>_ _. Inr []), oe_base64 = (\<lambda>s. s), ce_url = (\<lambda>_. None),
      ce_percent_decode = as_bytes, ce_base64 = (\<lambda>_ _. None), ce_read = (\<lambda>_. None), ce_linux = True, ce_unix = True,
      ce_file_path = (\<lambda>_. None), ce_header_name = (\<lambda>_. True), ce_header_value = (\<lambda>_. True)\<rparr>"

definition no_port_mapping :: realm_port_mapping_config where
  "no_port_mapping = \<lparr>pm_enabled = False, pm_timeout = [], pm_lifetime = []\<rparr>"

definition no_bandwidth :: bandwidth where
  "no_bandwidth = \<lparr>bw_up = None, bw_down = None, bw_disable_loss_compensation = False\<rparr>"

definition salamander_obfs :: obfs_config where
  "salamander_obfs = \<lparr>obc_kind = ''salamander'', obc_salamander = \<lparr>os_password = ''cry_me_a_r1ver''\<rparr>,
     obc_gecko = \<lparr>og_password = [], og_min_packet_size = 0, og_max_packet_size = 0\<rparr>\<rparr>"

definition sample_client_config :: client_config where
  "sample_client_config =
     \<lparr>cc_server = ''example.com:2001-2000,443'', cc_auth = ''u:p'',
      cc_transport = \<lparr>ct_kind = ''udp'', ct_udp = \<lparr>cu_hop_interval = ''60s'', cu_min_hop_interval = [], cu_max_hop_interval = []\<rparr>\<rparr>,
      cc_quic = \<lparr>cq_disable_chrome_parrot = None, cq_init_stream_receive_window = 0, cq_max_stream_receive_window = 0,
        cq_init_connection_receive_window = 0, cq_max_connection_receive_window = 0, cq_max_idle_timeout = [],
        cq_keep_alive_period = [], cq_disable_path_mtu_discovery = False,
        cq_sockopts = \<lparr>co_bind_interface = [], co_firewall_mark = None, co_fd_control_unix_socket = []\<rparr>\<rparr>,
      cc_tls = \<lparr>cl_sni = [], cl_ca = [], cl_insecure = False, cl_pin_sha256 = [], cl_client_certificate = [], cl_client_key = [], cl_ech = []\<rparr>,
      cc_realm = \<lparr>cr_stun_servers = [], cr_stun_timeout = [], cr_punch_timeout = [], cr_insecure = False, cr_ip_mode = [],
        cr_port_mapping = no_port_mapping\<rparr>,
      cc_bandwidth = no_bandwidth, cc_congestion = \<lparr>cg_kind = [], cg_bbr_profile = []\<rparr>, cc_obfs = salamander_obfs,
      cc_tcp_forwarding = [], cc_udp_forwarding = [], cc_socks5 = None, cc_http = None, cc_tcp_redirect = None, cc_tcp_tproxy = None,
      cc_udp_tproxy = None, cc_tun = None, cc_fast_open = False, cc_lazy = False\<rparr>"

theorem client_validated_hops_witness:
  "\<exists>host addresses hopping h. resolve_server_addresses (\<lambda>_. Inr (SocketAddr (V4 1) 443)) (cc_server sample_client_config) =
      Inr (host, addresses, hopping) \<and> distinct addresses \<and> fst (hop_new zero_random (\<lambda>_. 5) addresses () ()) = Inr h \<and>
    hs_remote_index h < length addresses"
proof -
  have "validate_connection sample_config_env sample_client_config = Inr ()" by code_simp
  moreover have r: "resolve_server_addresses (\<lambda>_. Inr (SocketAddr (V4 1) 443)) (cc_server sample_client_config) =
      Inr (''example.com'', [SocketAddr (V4 1) 443, SocketAddr (V4 1) 2000, SocketAddr (V4 1) 2001], True)"
    by code_simp
  ultimately show ?thesis
    using client_validated_hops [of sample_config_env sample_client_config "\<lambda>_. Inr (SocketAddr (V4 1) 443)" "''example.com''"
        "[SocketAddr (V4 1) 443, SocketAddr (V4 1) 2000, SocketAddr (V4 1) 2001]" True zero_random "\<lambda>_. 5" "()" "()"]
    by blast
qed

definition sample_users :: server_auth where
  "sample_users = \<lparr>su_kind = ''userpass'', su_password = [], su_userpass = [(''U'', ''p''), (''v'', ''q'')],
     su_http = \<lparr>uh_url = [], uh_insecure = False\<rparr>, su_command = []\<rparr>"

definition sample_server_config :: server_config where
  "sample_server_config =
     \<lparr>sc_listen = '':443'',
      sc_realm = \<lparr>sr_stun_servers = [], sr_stun_timeout = [], sr_punch_timeout = [], sr_heartbeat_interval = [], sr_insecure = False,
        sr_ip_mode = [], sr_port_mapping = no_port_mapping\<rparr>,
      sc_tls = \<lparr>st_cert = ''cert.pem'', st_key = ''key.pem'', st_sni_guard = [], st_client_ca = []\<rparr>, sc_acme = None, sc_ech = None,
      sc_auth = sample_users, sc_speed_test = False,
      sc_quic = \<lparr>sq_disable_stateless_reset = False, sq_init_stream_receive_window = 0, sq_max_stream_receive_window = 0,
        sq_init_connection_receive_window = 0, sq_max_connection_receive_window = 0, sq_max_idle_timeout = ''60s'',
        sq_max_incoming_streams = 0, sq_disable_path_mtu_discovery = False\<rparr>,
      sc_disable_udp = False, sc_udp_idle_timeout = ''60s'', sc_bandwidth = no_bandwidth,
      sc_congestion = \<lparr>cg_kind = ''reno'', cg_bbr_profile = []\<rparr>, sc_ignore_client_bandwidth = False, sc_obfs = salamander_obfs,
      sc_traffic_stats = \<lparr>ts_listen = [], ts_secret = []\<rparr>,
      sc_masquerade = \<lparr>mc_kind = ''404'', mc_file = \<lparr>mf_dir = []\<rparr>,
        mc_proxy = \<lparr>mp_url = [], mp_rewrite_host = False, mp_x_forwarded = False, mp_insecure = False\<rparr>,
        mc_string = \<lparr>ms_content = [], ms_headers = [], ms_status_code = 0\<rparr>, mc_listen_http = [], mc_listen_https = [], mc_force_https = False\<rparr>,
      sc_outbounds = [], sc_acl = \<lparr>ac_file = [], ac_inline = [], ac_geoip = [], ac_geosite = [], ac_geo_update_interval = []\<rparr>,
      sc_resolver = \<lparr>rc_kind = [], rc_tcp = \<lparr>rp_addr = [], rp_timeout = []\<rparr>, rc_udp = \<lparr>rp_addr = [], rp_timeout = []\<rparr>,
        rc_tls = \<lparr>rt_addr = [], rt_timeout = [], rt_sni = [], rt_insecure = False\<rparr>,
        rc_https = \<lparr>rt_addr = [], rt_timeout = [], rt_sni = [], rt_insecure = False\<rparr>\<rparr>,
      sc_sniff = \<lparr>sn_enable = True, sn_timeout = [], sn_rewrite_domain = False, sn_tcp_ports = ''80,443'', sn_udp_ports = []\<rparr>\<rparr>"

definition sample_auth_env :: auth_env where
  "sample_auth_env = \<lparr>ae_client = (\<lambda>_. True), ae_post = (\<lambda>_ _ _. None), ae_command = (\<lambda>_ _. None)\<rparr>"


definition sample_login :: http_request where
  "sample_login = \<lparr>rq_method = ''POST'', rq_authority = Some AUTH_HOST, rq_path = AUTH_PATH,
     rq_headers = [(''hysteria-auth'', as_bytes ''u:p'')]\<rparr>"

theorem configured_login_gate_witness:
  "\<exists>request body user given password. Incoming request body \<in> set [Incoming sample_login []] \<and> is_auth request \<and>
     (user, password) \<in> set (su_userpass sample_users) \<and> to_ascii_lowercase given = to_ascii_lowercase user \<and>
     auth_secret (request_auth plain_http_lib request) = given @ '':'' @ password"
proof -
  have kind: "to_ascii_lowercase (trim (su_kind sample_users)) = ''userpass''" by code_simp
  have users: "distinct (map (\<lambda>u. to_ascii_lowercase (fst u)) (su_userpass sample_users))" by code_simp
  obtain a where build: "auth_build sample_auth_env sample_users = Inr a"
    using kind by (simp add: auth_build_def)
  have login: "is_auth sample_login" by (simp add: is_auth_def sample_login_def)
  have req: "request_auth plain_http_lib sample_login = \<lparr>auth_secret = ''u:p'', auth_rx = 0\<rparr>" by code_simp
  have acc: "authenticate sample_auth_env a (SocketAddr (V4 1) 1) \<lparr>auth_secret = ''u:p'', auth_rx = 0\<rparr> = Some ''u''"
    using build by (auto simp: auth_build_def kind) code_simp
  obtain headers r where h: "server_response plain_http_lib zero_random server_handshake_default sample_conn =
      (Inr [Head AUTH_STATUS_OK headers, Finish], sample_conn\<lparr>qc_random := r\<rparr>)"
    using server_response_form [OF plain_http_lib_ok always_random_zero] by metis
  obtain conn s' where "accept_authenticated plain_http_lib zero_random server_handshake_default ''u'' \<lparr>auth_secret = ''u:p'', auth_rx = 0\<rparr>
      sample_conn = (Inr ([Head AUTH_STATUS_OK headers, Finish], conn), s')"
    using accept_authenticated_form [OF h] by metis
  then have "serve_requests plain_http_lib zero_random server_handshake_default (authenticate sample_auth_env a (SocketAddr (V4 1) 1)) []
      (\<lambda>_ _. not_found_response) [Incoming sample_login []] sample_conn = (Inr (Some conn), [[Head AUTH_STATUS_OK headers, Finish]], s')"
    using login req acc by simp
  from configured_login_gate [OF kind users build this] show ?thesis by blast
qed

end
