(* ===== verification/Tls_Policy.thy ===== *)
theory Tls_Policy
  imports Startup
begin

text \<open>
  The decisions about certificates that the program takes itself (\<open>hysteria/src/tls.rs\<close>): which verifier a client
  uses, what the pin of a certificate adds to it, and for which server names a server shows its certificate. Certificates are
  their DER bytes; the alternative names of one are read as the list that says which of them are DNS names. PEM files, X.509, the WebPKI verifier of rustls, ECH and SHA-256 are parameters.
\<close>

section \<open>Parameters\<close>

record tls_lib =
  tl_open :: "string \<Rightarrow> bytes option"
  tl_pem_certs :: "bytes \<Rightarrow> bytes list option"
  tl_pem_key :: "bytes \<Rightarrow> bytes option option"
  tl_parsable :: "bytes \<Rightarrow> bool"
  tl_native :: "bytes list"
  tl_verifier_ok :: "bytes list \<Rightarrow> bool"
  tl_webpki :: "bytes list \<Rightarrow> bytes \<Rightarrow> bytes list \<Rightarrow> string \<Rightarrow> bytes \<Rightarrow> nat \<Rightarrow> string + unit"
  tl_ech :: "bytes \<Rightarrow> bool"
  tl_ech_enable :: "bytes \<Rightarrow> bool"
  tl_versions :: bool
  tl_client_key_ok :: "bytes list \<Rightarrow> bytes \<Rightarrow> bool"
  tl_certified_key :: "bytes list \<Rightarrow> bytes \<Rightarrow> bool"
  tl_client_verifier_ok :: "bytes list \<Rightarrow> bool"
  tl_alternative_names :: "bytes \<Rightarrow> (unit + bool list option) option"
  tl_server_name_ok :: "string \<Rightarrow> bool"
  tl_name_matches :: "bytes \<Rightarrow> string \<Rightarrow> bool"
  tl_sha256 :: "bytes \<Rightarrow> bytes"

section \<open>Files\<close>

definition read_certificates :: "tls_lib \<Rightarrow> string \<Rightarrow> cli_error + bytes list" where
  "read_certificates lib path =
     and_then (ok_or (CliError ''failed to open {}: {error}'' [path]) (tl_open lib path)) (\<lambda>file.
     and_then (ok_or (CliError ''failed to parse {}: {error}'' [path]) (tl_pem_certs lib file)) (\<lambda>certificates.
     if certificates = [] then Inl (CliError ''no certificates in {}'' [path]) else Inr certificates))"

definition read_private_key :: "tls_lib \<Rightarrow> string \<Rightarrow> cli_error + bytes" where
  "read_private_key lib path =
     and_then (ok_or (CliError ''failed to open {}: {error}'' [path]) (tl_open lib path)) (\<lambda>file.
     and_then (ok_or (CliError ''failed to parse {}: {error}'' [path]) (tl_pem_key lib file)) (\<lambda>key.
     ok_or (CliError ''no private key in {}'' [path]) key))"

text \<open>A store of trusted certificates takes the certificates it can parse.\<close>

definition read_root_store :: "tls_lib \<Rightarrow> string \<Rightarrow> cli_error + bytes list" where
  "read_root_store lib path =
     and_then (read_certificates lib path) (\<lambda>certificates.
     let roots = filter (tl_parsable lib) certificates; added = length roots; ignored = length certificates - added in
     if added = 0 \<or> ignored \<noteq> 0
     then Inl (CliError ''{} contained {added} usable and {ignored} invalid certificates'' [path, nat_string added, nat_string ignored])
     else Inr roots)"

definition native_root_store :: "tls_lib \<Rightarrow> cli_error + bytes list" where
  "native_root_store lib =
     (let roots = filter (tl_parsable lib) (tl_native lib) in
      if roots = [] then Inl (cli_error ''no system root certificates were available{details}'') else Inr roots)"

section \<open>The client\<close>

record server_verifier =
  sv_normal :: "bytes list option"
  sv_pin :: "bytes option"

definition verify_server_cert ::
  "tls_lib \<Rightarrow> server_verifier \<Rightarrow> bytes \<Rightarrow> bytes list \<Rightarrow> string \<Rightarrow> bytes \<Rightarrow> nat \<Rightarrow> string + unit" where
  "verify_server_cert lib verifier end_entity intermediates server_name ocsp_response now =
     and_then (case sv_normal verifier of
                 None \<Rightarrow> Inr ()
               | Some roots \<Rightarrow> tl_webpki lib roots end_entity intermediates server_name ocsp_response now) (\<lambda>_.
     case sv_pin verifier of
       None \<Rightarrow> Inr ()
     | Some expected \<Rightarrow>
         if tl_sha256 lib end_entity \<noteq> expected then Inl ''no certificate matches tls.pinSHA256'' else Inr ())"

text \<open>
  The configuration of a client: its verifier, which is the one of the program or the default one on a store of roots, the list of
  ECH configurations, and its own certificate.
\<close>

datatype client_verification = CustomVerifier server_verifier | RootCertificates "bytes list"

record tls_client =
  tk_verification :: client_verification
  tk_ech :: "bytes option"
  tk_identity :: "(bytes list \<times> bytes) option"

definition tls_client_config ::
  "'a config_env_scheme \<Rightarrow> tls_lib \<Rightarrow> string option \<Rightarrow> bool \<Rightarrow> bytes option \<Rightarrow> (string \<times> string) option \<Rightarrow> string option \<Rightarrow>
     cli_error fault + tls_client" where
  "tls_client_config env lib ca_path insecure pin client_identity ech =
     and_then (map_err Err (case ca_path of
                 Some path \<Rightarrow> read_root_store lib path
               | None \<Rightarrow> if insecure then Inr [] else native_root_store lib)) (\<lambda>roots.
     and_then (case ech of
                 Some v \<Rightarrow>
                   and_then (parse_ech_config_list env v) (\<lambda>config_list.
                   if \<not> tl_ech lib config_list then Inl (Err (cli_error ''invalid tls.ech config list: {error}''))
                   else if \<not> tl_ech_enable lib config_list then Inl (Err (cli_error ''failed to enable tls.ech: {error}''))
                   else Inr (Some config_list))
               | None \<Rightarrow>
                   if tl_versions lib then Inr None else Inl (Err (cli_error ''failed to configure TLS versions: {error}''))) (\<lambda>config_list.
     and_then (if insecure \<or> pin \<noteq> None
               then
                 and_then (if insecure then Inr None
                           else if tl_verifier_ok lib roots then Inr (Some roots)
                           else Inl (Err (cli_error ''invalid server CA configuration: {error}''))) (\<lambda>normal.
                 Inr (CustomVerifier \<lparr>sv_normal = normal, sv_pin = pin\<rparr>))
               else Inr (RootCertificates roots)) (\<lambda>verification.
     map_err Err (case client_identity of
         Some (cert_path, key_path) \<Rightarrow>
           and_then (read_certificates lib cert_path) (\<lambda>certificates.
           and_then (read_private_key lib key_path) (\<lambda>key.
           if tl_client_key_ok lib certificates key
           then Inr \<lparr>tk_verification = verification, tk_ech = config_list, tk_identity = Some (certificates, key)\<rparr>
           else Inl (cli_error ''invalid client certificate/key: {error}'')))
       | None \<Rightarrow> Inr \<lparr>tk_verification = verification, tk_ech = config_list, tk_identity = None\<rparr>))))"

section \<open>The server\<close>

datatype sni_guard = DnsSan | Strict | Disable

definition sni_guard_parse :: "string \<Rightarrow> cli_error + sni_guard" where
  "sni_guard_parse v =
     (let v = kind_of v in
      if v \<in> {'''', ''dns-san''} then Inr DnsSan
      else if v = ''strict'' then Inr Strict
      else if v = ''disable'' then Inr Disable
      else Inl (cli_error ''unsupported tls.sniGuard; expected dns-san, strict, or disable''))"

record guarded_resolver =
  gr_certificates :: "bytes list"
  gr_guard :: sni_guard
  gr_has_dns_sans :: bool

text \<open>The certificate is shown (\<open>True\<close>) to a client with this server name in its hello.\<close>

definition guarded_resolve :: "tls_lib \<Rightarrow> guarded_resolver \<Rightarrow> string option \<Rightarrow> bool" where
  "guarded_resolve lib resolver server_name \<longleftrightarrow>
     gr_guard resolver = Disable \<or> (gr_guard resolver = DnsSan \<and> \<not> gr_has_dns_sans resolver) \<or>
     (case server_name of
        None \<Rightarrow> False
      | Some name \<Rightarrow>
          tl_server_name_ok lib name \<and>
          (case gr_certificates resolver of [] \<Rightarrow> False | certificate # _ \<Rightarrow> tl_name_matches lib certificate name))"

definition certificate_has_dns_sans :: "tls_lib \<Rightarrow> bytes \<Rightarrow> cli_error + bool" where
  "certificate_has_dns_sans lib certificate =
     (case tl_alternative_names lib certificate of
        None \<Rightarrow> Inl (cli_error ''invalid TLS certificate: {error}'')
      | Some (Inl _) \<Rightarrow> Inl (cli_error ''invalid TLS subject alternative name: {error}'')
      | Some (Inr None) \<Rightarrow> Inr False
      | Some (Inr (Some names)) \<Rightarrow> Inr (list_ex (\<lambda>dns. dns) names))"

definition tls_server_config ::
  "tls_lib \<Rightarrow> string \<Rightarrow> string \<Rightarrow> string option \<Rightarrow> string \<Rightarrow> cli_error + (guarded_resolver \<times> bytes list option)" where
  "tls_server_config lib cert_path key_path client_ca_path guard =
     and_then (read_certificates lib cert_path) (\<lambda>certificates.
     and_then (read_private_key lib key_path) (\<lambda>key.
     and_then (case certificates of
                 [] \<Rightarrow> Inl (cli_error ''TLS certificate file contains no certificates'')
               | certificate # _ \<Rightarrow> certificate_has_dns_sans lib certificate) (\<lambda>has_dns_sans.
     and_then (ensure (tl_certified_key lib certificates key) (cli_error ''invalid TLS certificate/key: {error}'')) (\<lambda>_.
     and_then (sni_guard_parse guard) (\<lambda>guard.
     and_then (case client_ca_path of
                 None \<Rightarrow> Inr None
               | Some path \<Rightarrow>
                   and_then (read_root_store lib path) (\<lambda>roots.
                   if tl_client_verifier_ok lib roots then Inr (Some roots)
                   else Inl (cli_error ''invalid client CA configuration: {error}''))) (\<lambda>client_roots.
     Inr (\<lparr>gr_certificates = certificates, gr_guard = guard, gr_has_dns_sans = has_dns_sans\<rparr>, client_roots)))))))"

section \<open>What a client accepts\<close>

text \<open>The check of a certificate by the configured client.\<close>

definition client_accepts ::
  "tls_lib \<Rightarrow> tls_client \<Rightarrow> bytes \<Rightarrow> bytes list \<Rightarrow> string \<Rightarrow> bytes \<Rightarrow> nat \<Rightarrow> bool" where
  "client_accepts lib client end_entity intermediates server_name ocsp_response now \<longleftrightarrow>
     (case tk_verification client of
        CustomVerifier verifier \<Rightarrow> verify_server_cert lib verifier end_entity intermediates server_name ocsp_response now = Inr ()
      | RootCertificates roots \<Rightarrow> tl_webpki lib roots end_entity intermediates server_name ocsp_response now = Inr ())"

text \<open>The roots a client trusts: all certificates of its file, or what the system offers and the store can parse.\<close>

definition trusted_roots :: "tls_lib \<Rightarrow> string option \<Rightarrow> bytes list \<Rightarrow> bool" where
  "trusted_roots lib ca_path roots \<longleftrightarrow> roots \<noteq> [] \<and>
     (case ca_path of
        Some path \<Rightarrow> read_certificates lib path = Inr roots
      | None \<Rightarrow> roots = filter (tl_parsable lib) (tl_native lib))"

lemma read_root_store_trusted: "read_root_store lib path = Inr roots \<Longrightarrow> trusted_roots lib (Some path) roots"
proof -
  assume a: "read_root_store lib path = Inr roots"
  then obtain cs where cs: "read_certificates lib path = Inr cs" by (auto simp: read_root_store_def and_then_eq_Inr)
  have "roots = filter (tl_parsable lib) cs" "roots \<noteq> []" "length cs \<le> length roots"
    using a cs by (auto simp: read_root_store_def Let_def split: if_splits)
  then have "roots = cs" by (metis filter_id_conv length_filter_less not_le)
  then show ?thesis using cs \<open>roots \<noteq> []\<close> by (simp add: trusted_roots_def)
qed

lemma native_root_store_trusted: "native_root_store lib = Inr roots \<Longrightarrow> trusted_roots lib None roots"
  by (auto simp: native_root_store_def trusted_roots_def Let_def split: if_splits)

lemma tls_client_config_accepts:
  assumes "tls_client_config env lib ca_path insecure pin identity ech = Inr client"
  shows "client_accepts lib client end_entity intermediates name ocsp now \<longleftrightarrow>
    (insecure \<or> (\<exists>roots. trusted_roots lib ca_path roots \<and> tl_webpki lib roots end_entity intermediates name ocsp now = Inr ())) \<and>
    (pin = None \<or> pin = Some (tl_sha256 lib end_entity))"
proof -
  obtain roots where roots: "(case ca_path of Some path \<Rightarrow> read_root_store lib path
      | None \<Rightarrow> if insecure then Inr [] else native_root_store lib) = Inr roots"
    using assms by (auto simp: tls_client_config_def and_then_eq_Inr map_err_eq_Inr)
  have unique: "trusted_roots lib ca_path rs \<longleftrightarrow> rs = roots" if "\<not> insecure" for rs
    using roots that read_root_store_trusted [of lib] native_root_store_trusted [of lib roots]
    by (auto simp: trusted_roots_def split: option.splits)
  have ver: "tk_verification client = (if insecure \<or> pin \<noteq> None
      then CustomVerifier \<lparr>sv_normal = (if insecure then None else Some roots), sv_pin = pin\<rparr> else RootCertificates roots)"
    using assms roots
    by (auto simp: tls_client_config_def and_then_eq_Inr map_err_eq_Inr split: if_splits option.splits)
  show ?thesis
    using unique by (cases insecure) (auto simp: client_accepts_def ver verify_server_cert_def and_then_eq_Inr split: option.splits if_splits)
qed

text \<open>
  C18: A client checks certificates exactly as its configuration says. Unless it is insecure, the verifier must accept the
  certificate for the name under roots that are all the certificates of the configured file or those of the system; and when
  a pin is configured, secure or not, the pin must be the hexadecimal SHA-256 of the certificate, in any case and with
  colons or dashes anywhere.
\<close>

theorem certificate_policy:
  assumes "pin = None \<and> pin_text = [] \<or> (\<exists>p. pin = Some p \<and> pin_text \<noteq> [] \<and> normalize_certificate_pin pin_text = Inr p)"
    and "tls_client_config env lib ca_path insecure pin identity ech = Inr client"
  shows "client_accepts lib client end_entity intermediates name ocsp now \<longleftrightarrow>
    (insecure \<or> (\<exists>roots. trusted_roots lib ca_path roots \<and> tl_webpki lib roots end_entity intermediates name ocsp now = Inr ())) \<and>
    (pin_text = [] \<or>
     length (tl_sha256 lib end_entity) = 32 \<and>
     to_ascii_lowercase (filter (\<lambda>c. c \<notin> {CHR '':'', CHR ''-''}) pin_text) = encode_hex (tl_sha256 lib end_entity))"
proof -
  have "pin = None \<or> pin = Some (tl_sha256 lib end_entity) \<longleftrightarrow>
    pin_text = [] \<or> normalize_certificate_pin pin_text = Inr (tl_sha256 lib end_entity)"
    using assms(1) by auto
  then show ?thesis unfolding tls_client_config_accepts [OF assms(2)] normalize_certificate_pin_iff by blast
qed

definition sample_tls_lib :: tls_lib where
  "sample_tls_lib =
     \<lparr>tl_open = (\<lambda>_. None), tl_pem_certs = (\<lambda>_. None), tl_pem_key = (\<lambda>_. None), tl_parsable = (\<lambda>_. True), tl_native = [[1]],
      tl_verifier_ok = (\<lambda>_. True), tl_webpki = (\<lambda>roots _ _ _ _ _. if roots = [[1]] then Inr () else Inl ''unknown issuer''),
      tl_ech = (\<lambda>_. True), tl_ech_enable = (\<lambda>_. True), tl_versions = True, tl_client_key_ok = (\<lambda>_ _. True),
      tl_certified_key = (\<lambda>_ _. True), tl_client_verifier_ok = (\<lambda>_. True), tl_alternative_names = (\<lambda>_. Some (Inr None)),
      tl_server_name_ok = (\<lambda>_. True), tl_name_matches = (\<lambda>_ _. True), tl_sha256 = (\<lambda>bs. replicate 32 (hd bs))\<rparr>"

theorem certificate_policy_witness:
  "\<exists>client. tls_client_config sample_config_env sample_tls_lib None False (Some (replicate 32 0xAB)) None None = Inr client \<and>
     client_accepts sample_tls_lib client [0xAB] [] ''a.b'' [] 0"
proof -
  let ?pin = "replicate 32 (0xAB :: u8)"
  let ?text = "concat (replicate 32 ''Ab:'')"
  obtain client where c: "tls_client_config sample_config_env sample_tls_lib None False (Some ?pin) None None = Inr client"
    by (simp add: tls_client_config_def sample_tls_lib_def native_root_store_def)
  have n: "normalize_certificate_pin ?text = Inr ?pin" by code_simp
  have "trusted_roots sample_tls_lib None [[1]]" by (simp add: trusted_roots_def sample_tls_lib_def)
  moreover have "to_ascii_lowercase (filter (\<lambda>c. c \<notin> {CHR '':'', CHR ''-''}) ?text) = encode_hex (tl_sha256 sample_tls_lib [0xAB])"
    "length (tl_sha256 sample_tls_lib [0xAB]) = 32" "?text \<noteq> []"
    by code_simp+
  moreover have "tl_webpki sample_tls_lib [[1]] [0xAB] [] ''a.b'' [] 0 = Inr ()" by (simp add: sample_tls_lib_def)
  ultimately have "client_accepts sample_tls_lib client [0xAB] [] ''a.b'' [] 0"
    using certificate_policy [of "Some ?pin" ?text sample_config_env sample_tls_lib None False None None client "[0xAB]" "[]" "''a.b''" "[]" 0] c n by blast
  then show ?thesis using c by blast
qed

section \<open>What a server shows\<close>

text \<open>
  Under a strict guard, or with DNS names in the certificate under the default guard, only clients that name a host of the
  certificate see it.
\<close>

lemma guarded_resolve_named:
  assumes "tls_server_config lib cert_path key_path client_ca guard = Inr (resolver, client_roots)"
    and "sni_guard_parse guard = Inr Strict \<or> (sni_guard_parse guard = Inr DnsSan \<and> gr_has_dns_sans resolver)"
    and "guarded_resolve lib resolver server_name"
  shows "\<exists>name certificate rest. server_name = Some name \<and> read_certificates lib cert_path = Inr (certificate # rest) \<and>
    tl_name_matches lib certificate name"
proof -
  have r: "read_certificates lib cert_path = Inr (gr_certificates resolver)" "sni_guard_parse guard = Inr (gr_guard resolver)"
    using assms(1) by (auto simp: tls_server_config_def and_then_eq_Inr)
  then show ?thesis
    using assms(2,3) by (auto simp: guarded_resolve_def split: option.splits list.splits)
qed

end
