(* ===== verification/Spec2Isabelle.thy ===== *)
theory Spec2Isabelle
  imports Auth_Headers Congestion Gecko_Delivery Udp_Server Punch Socks5 Traffic Handshake Obfs_Socket Http_Proxy Tls_Policy
begin

text \<open>
  A verification library for the Rust implementation of Hysteria 2, a proxy that carries TCP streams and UDP
  packets over QUIC. A client takes connections from local programs (SOCKS5, HTTP, forwarding), opens a QUIC
  connection to a server, authenticates with a request that looks like HTTP/3, and sends each stream and packet
  with a small header; the server resolves and filters the targets and relays the data. Below QUIC the datagrams can
  be obfuscated, the client can hop between ports, and two peers behind NAT can meet by hole punching.

  \<^bold>\<open>Conventions.\<close> Words have the width of the source (\<open>u8\<close> to \<open>u128\<close>); \<open>usize\<close> values are natural numbers, with the
  bound written out where the code tests it. Strings are their UTF-8 bytes. A \<open>Result\<close> is a sum with the error on the
  left. Code that can panic returns \<open>'e fault\<close> on the left, where \<open>Panic\<close> stands for a failed index, slice or
  \<open>unwrap\<close>, so that the absence of panics is a theorem and not a convention. Stateful code passes a record along;
  random numbers, clocks, hashes, files, resolvers, TLS, URLs, base64 and other libraries are arguments of the definitions that
  use them, and the laws a theorem needs of them (a random source fills the buffer, a header value is read back) are
  hypotheses of the theorem. Errors keep the format string of the source and the values in it, but not the text of
  errors that come from libraries. Durations and instants are nanoseconds.

  \<^bold>\<open>Shared theories.\<close>
  \<^item> \<open>Prelude\<close>, \<open>Rust_Std\<close>, \<open>Rust_Text\<close>, \<open>Net\<close>, \<open>Net_Text\<close>: machine integers, results, hash maps as association lists, UTF-8,
    string functions, IP and socket addresses with their text and their order. The locales \<open>hash_table\<close>, \<open>frame_codec\<close>,
    \<open>step_invariant\<close> (and \<open>packet_codec\<close>, \<open>congestion_controller\<close>, \<open>logger_view\<close> in the theories that need them) state the interfaces;
    each is interpreted on the definitions of the components that provide it.
  \<^item> \<open>Byte_Stream\<close>, \<open>Http_Types\<close>, \<open>Transport_Error\<close>, \<open>Config_Types\<close>: connections, headers, error types and the structures of
    \<open>hysteria/src/config.rs\<close>.

  \<^bold>\<open>Protocol\<close> (\<open>crates/hysteria-protocol\<close>).
  \<^item> \<open>Varint\<close>, \<open>Messages\<close>, \<open>Auth_Headers\<close> (\<open>varint.rs\<close>, \<open>proxy.rs\<close>, \<open>auth.rs\<close>): codecs with their limits; encoding and decoding
    are inverse, and decoding consumes exactly what encoding wrote.
  \<^item> \<open>Fragment\<close> (\<open>fragment.rs\<close>): fragments partition a message and fit the datagram; a message is reassembled from its fragments in
    every order and with repetitions.

  \<^bold>\<open>Obfuscation\<close> (\<open>crates/hysteria-obfs\<close>). \<open>Salamander\<close> and \<open>Gecko\<close> model the two codecs; \<open>Gecko_Delivery\<close> shows that a packet is
  delivered from its chunks in every order, that the table of incomplete messages stays within its limits,
  that datagram sizes keep to the configured range, and that a source with too many open messages blocks itself.

  \<^bold>\<open>Transport\<close> (\<open>crates/hysteria-transport\<close>).
  \<^item> \<open>Congestion\<close> (\<open>congestion.rs\<close> and NewReno of the vendored \<open>quinn-proto\<close>): the rate of Brutal stays between the configured bandwidth
    and its compensation limit, and no controller lets the window become zero. The only uses of floating point
    are rounding of a rate and halving of a window; both are modelled on the values they take.
  \<^item> \<open>Handshake\<close> (\<open>handshake.rs\<close>): settings, the authentication request and answer, the masquerade for everybody
    else. Client and server agree on identity, UDP and both rates; a connection is handed out only to a request the authenticator
    accepted.
  \<^item> \<open>Tcp_Proxy\<close> (\<open>proxy.rs\<close>): requests and responses read piecewise, fast open, the request hook, copying with
    statistics. A stream reaches its target completely, with and without fast open.
  \<^item> \<open>Udp_Client\<close>, \<open>Udp_Server\<close> (\<open>udp.rs\<close>): sessions, the dispatcher and the tasks of the server. A packet sent is the packet received,
    whatever other datagrams are interleaved; sessions and tasks stay linked.
  \<^item> \<open>Obfs_Socket\<close> (\<open>obfs_socket.rs\<close>): the sockets below QUIC with their bounded send queue, worker, wakers, port hopping, and the
    controller that routes punch and STUN packets. Delivery through the codec, a worker that sleeps only with nothing to do,
    absence of panics, and the worker that outlives a dropped hopping socket.

  \<^bold>\<open>Realm\<close> (\<open>crates/hysteria-realm\<close>). \<open>Stun\<close> (\<open>stun.rs\<close>): discovery returns an address only from a matching answer. \<open>Punch\<close>
  (\<open>punch.rs\<close>): packets, candidate addresses and the punch loop; the draw of the padding length is a loop that may not end, so
  it is a partial function with the proof that it returns for every source that eventually yields an acceptable number.
  \<open>Realm_Addr\<close> (\<open>addr.rs\<close>): rendezvous addresses.

  \<^bold>\<open>Program\<close> (\<open>crates/hysteria\<close>).
  \<^item> \<open>Acl\<close>, \<open>Resolver\<close>, \<open>Outbound\<close> (\<open>outbound.rs\<close>, \<open>geo.rs\<close>, \<open>resolver.rs\<close>): the rule language, matching, DNS messages and the backends.
    A request is routed by the first rule that matches; validated rules parse; the table is built without a panic; a
    query is answered by the response that belongs to it.
  \<^item> \<open>Socks5\<close>, \<open>Http_Proxy\<close> (\<open>socks5.rs\<close>, \<open>http_proxy.rs\<close>): the local proxies. With credentials configured nothing is served without
    them; a plain HTTP request reaches the host of its URL however the connection delivers it.
  \<^item> \<open>Traffic\<close> (\<open>traffic.rs\<close>): counters, kicks, online users and the HTTP interface.
  \<^item> \<open>Sniff\<close> (\<open>sniff.rs\<close> and the key functions of the vendored \<open>quinn-proto\<close>): host names from HTTP, TLS and QUIC. A sniffed stream
    is complete; the name of every well-formed client hello is found; CRYPTO frames are joined in every order;
    malformed QUIC packets make the hook panic.
  \<^item> \<open>Config_Validate\<close>, \<open>Startup\<close> (\<open>config.rs\<close>, \<open>tls.rs\<close>, \<open>auth.rs\<close>, \<open>runtime.rs\<close>): validation and what is made from a valid configuration. Validation
    never panics; what it accepts is accepted by the sockets, codecs, authenticators and the sniffer; a server with user names
    hands out connections only for configured logins.
  \<^item> \<open>Tls_Policy\<close> (\<open>tls.rs\<close>): the verifier of a client, the pin, and the guard on server names. A client accepts exactly the
    certificates its configuration says; a guarded server shows its certificate only to clients that name a host of it.

  \<^bold>\<open>Bounds.\<close> Recursion is structural or has a measure; no definition uses fuel. Reads that wait for a peer are lists of what the peer
  will send, so a loop over them ends; timers and deadlines are events of such lists.

  \<^bold>\<open>Not modelled.\<close>
  \<^item> QUIC, TLS, HTTP/3 and the cryptography: the vendored libraries, of which only the parts named above are translated.
  \<^item> Operating-system sockets, TUN devices, transparent proxying and routing policies (\<open>tun.rs\<close>, \<open>transparent.rs\<close>): system calls.
  \<^item> The tasks and timers of \<open>runtime.rs\<close> and \<open>realm_runtime.rs\<close>, the rendezvous client and port mapping: scheduling and network
    requests of libraries. Interleavings are modelled where a component depends on them (\<open>Udp_Server\<close>, \<open>Obfs_Socket\<close>, \<open>Traffic\<close>).
  \<^item> Certificates, ACME, the update check, the masquerade's file and reverse-proxy servers, reading of YAML and of the
    geographic databases: libraries and files; their results are parameters.
\<close>

end
